(* ===== verification/Prelude.thy ===== *)
theory Prelude
  imports Main "HOL-Library.AList" "HOL-Library.Sublist"
begin

text \<open>
  Shared vocabulary of the development: byte strings and the functions of Go's
  \<open>strings\<close> and \<open>bytes\<close> packages the plugin calls, 64-bit integer
  wrap-around, and the collections of facts the component theories share.

  A Go string is a sequence of bytes, a HOL \<open>string\<close> is a list of 8-bit
  \<open>char\<close>s: the two coincide, and \<open>length\<close> is Go's \<open>len\<close>. Text outside
  ASCII is its UTF-8 bytes.
\<close>

section \<open>Collections\<close>

named_theorems go_strings \<open>unfolding rules of the string kernel\<close>
named_theorems model_defs \<open>definitions unfolded when an operation is executed\<close>
named_theorems frame_facts \<open>facts about the frames an emitter produces\<close>

section \<open>Byte strings\<close>

abbreviation nl :: char where "nl \<equiv> CHR 0x0A"
abbreviation cr :: char where "cr \<equiv> CHR 0x0D"
abbreviation quo :: char where "quo \<equiv> CHR 0x22"
abbreviation bsl :: char where "bsl \<equiv> CHR 0x5C"

definition byte :: "char \<Rightarrow> nat" where
  "byte c = of_char c"

text \<open>\<open>strings.CutPrefix\<close>: the rest after the prefix, if it is one.\<close>

fun cut_prefix :: "string \<Rightarrow> string \<Rightarrow> string option" where
  "cut_prefix [] s = Some s"
| "cut_prefix (p # ps) [] = None"
| "cut_prefix (p # ps) (c # cs) = (if p = c then cut_prefix ps cs else None)"

definition has_prefix :: "string \<Rightarrow> string \<Rightarrow> bool" where
  "has_prefix s p = (cut_prefix p s \<noteq> None)"

definition trim_prefix :: "string \<Rightarrow> string \<Rightarrow> string" where
  "trim_prefix s p = (case cut_prefix p s of None \<Rightarrow> s | Some r \<Rightarrow> r)"

definition has_suffix :: "string \<Rightarrow> string \<Rightarrow> bool" where
  "has_suffix s p = has_prefix (rev s) (rev p)"

definition trim_suffix :: "string \<Rightarrow> string \<Rightarrow> string" where
  "trim_suffix s p = rev (trim_prefix (rev s) (rev p))"

text \<open>\<open>strings.Contains\<close>.\<close>

fun contains :: "string \<Rightarrow> string \<Rightarrow> bool" where
  "contains [] p = (p = [])"
| "contains (c # cs) p = (has_prefix (c # cs) p \<or> contains cs p)"

text \<open>Split at the first occurrence of a byte (\<open>bytes.IndexByte\<close> and the two slices).\<close>

fun split_at :: "char \<Rightarrow> string \<Rightarrow> (string \<times> string) option" where
  "split_at d [] = None"
| "split_at d (c # cs) =
     (if c = d then Some ([], cs)
      else (case split_at d cs of None \<Rightarrow> None | Some (a, b) \<Rightarrow> Some (c # a, b)))"

subsection \<open>White space\<close>

text \<open>
  \<open>unicode.IsSpace\<close>: the six ASCII spaces and the UTF-8 encodings of the other runes
  of the White Space property. \<open>space_len s\<close> is the number of bytes of the space rune
  \<open>s\<close> starts with, 0 if it starts with none.
\<close>

definition unicode_spaces :: "string list" where
  "unicode_spaces =
     [[CHR 0xC2, CHR 0x85], [CHR 0xC2, CHR 0xA0], [CHR 0xE1, CHR 0x9A, CHR 0x80],
      [CHR 0xE2, CHR 0x80, CHR 0x80], [CHR 0xE2, CHR 0x80, CHR 0x81],
      [CHR 0xE2, CHR 0x80, CHR 0x82], [CHR 0xE2, CHR 0x80, CHR 0x83],
      [CHR 0xE2, CHR 0x80, CHR 0x84], [CHR 0xE2, CHR 0x80, CHR 0x85],
      [CHR 0xE2, CHR 0x80, CHR 0x86], [CHR 0xE2, CHR 0x80, CHR 0x87],
      [CHR 0xE2, CHR 0x80, CHR 0x88], [CHR 0xE2, CHR 0x80, CHR 0x89],
      [CHR 0xE2, CHR 0x80, CHR 0x8A], [CHR 0xE2, CHR 0x80, CHR 0xA8],
      [CHR 0xE2, CHR 0x80, CHR 0xA9], [CHR 0xE2, CHR 0x80, CHR 0xAF],
      [CHR 0xE2, CHR 0x81, CHR 0x9F], [CHR 0xE3, CHR 0x80, CHR 0x80]]"

definition ascii_space :: "char \<Rightarrow> bool" where
  "ascii_space c = (c = CHR 0x20 \<or> c = CHR 0x09 \<or> c = nl \<or> c = CHR 0x0B \<or> c = CHR 0x0C \<or> c = cr)"

fun space_len :: "string \<Rightarrow> nat" where
  "space_len [] = 0"
| "space_len (c # cs) =
     (if ascii_space c then 1
      else if byte c < 128 then 0
      else (case List.find (has_prefix (c # cs)) unicode_spaces of None \<Rightarrow> 0 | Some u \<Rightarrow> length u))"

text \<open>The same for the last rune, on the reversed string.\<close>

fun space_len_rev :: "string \<Rightarrow> nat" where
  "space_len_rev [] = 0"
| "space_len_rev (c # cs) =
     (if ascii_space c then 1
      else if byte c < 128 then 0
      else (case List.find (\<lambda>u. has_prefix (c # cs) (rev u)) unicode_spaces of
              None \<Rightarrow> 0 | Some u \<Rightarrow> length u))"

function trim_left_space :: "string \<Rightarrow> string" where
  "trim_left_space s = (if s = [] \<or> space_len s = 0 then s else trim_left_space (drop (space_len s) s))"
  by pat_completeness auto
termination
  by (relation "measure length") (auto simp: length_greater_0_conv [symmetric] simp del: length_greater_0_conv)

function trim_left_space_rev :: "string \<Rightarrow> string" where
  "trim_left_space_rev s =
     (if s = [] \<or> space_len_rev s = 0 then s else trim_left_space_rev (drop (space_len_rev s) s))"
  by pat_completeness auto
termination
  by (relation "measure length") (auto simp: length_greater_0_conv [symmetric] simp del: length_greater_0_conv)

declare trim_left_space.simps [simp del] trim_left_space_rev.simps [simp del]

text \<open>\<open>strings.TrimSpace\<close>.\<close>

definition trim_space :: "string \<Rightarrow> string" where
  "trim_space s = rev (trim_left_space_rev (rev (trim_left_space s)))"

lemma space_len_not_space [simp]:
  "\<not> ascii_space c \<Longrightarrow> byte c < 128 \<Longrightarrow> space_len (c # cs) = 0"
  by simp

lemma trim_left_space_Nil [simp]: "trim_left_space [] = []"
  by (simp add: trim_left_space.simps)

lemma trim_left_space_rev_Nil [simp]: "trim_left_space_rev [] = []"
  by (simp add: trim_left_space_rev.simps)

lemma trim_left_space_Cons [simp]:
  "\<not> ascii_space c \<Longrightarrow> byte c < 128 \<Longrightarrow> trim_left_space (c # cs) = c # cs"
  by (subst trim_left_space.simps) simp

lemma trim_left_space_rev_Cons [simp]:
  "\<not> ascii_space c \<Longrightarrow> byte c < 128 \<Longrightarrow> trim_left_space_rev (c # cs) = c # cs"
  by (subst trim_left_space_rev.simps) simp

text \<open>A string whose first and last bytes are ASCII and not spaces is already trimmed.\<close>

lemma trim_space_tight:
  assumes "s \<noteq> []" "\<not> ascii_space (hd s)" "byte (hd s) < 128"
    and "\<not> ascii_space (last s)" "byte (last s) < 128"
  shows "trim_space s = s"
proof -
  obtain c cs where s: "s = c # cs" using assms(1) by (cases s) auto
  obtain d ds where r: "rev s = d # ds" using assms(1) by (cases "rev s") auto
  then have d: "last s = d" by (metis hd_rev list.sel(1))
  have "trim_left_space s = s" using assms(2,3) s by simp
  moreover have "trim_left_space_rev (rev s) = rev s" using assms(4,5) r d by simp
  ultimately show ?thesis by (simp add: trim_space_def)
qed

lemma trim_space_Nil [simp]: "trim_space [] = []"
  by (simp add: trim_space_def)

subsection \<open>Case\<close>

text \<open>
  \<open>strings.ToLower\<close> on the runes whose lower case is ASCII: the ASCII capitals, U+0130
  (which lowers to i) and the Kelvin sign U+212A (k). Every caller compares the result
  with ASCII words, which no other rune can equal.
\<close>

definition lower_byte :: "char \<Rightarrow> char" where
  "lower_byte c = (if 65 \<le> byte c \<and> byte c \<le> 90 then char_of (byte c + 32) else c)"

fun to_lower :: "string \<Rightarrow> string" where
  "to_lower [] = []"
| "to_lower (c # cs) =
     (if c = CHR 0xC4 \<and> (case cs of d # _ \<Rightarrow> d = CHR 0xB0 | [] \<Rightarrow> False) then CHR ''i'' # to_lower (tl cs)
      else if c = CHR 0xE2 \<and> has_prefix cs [CHR 0x84, CHR 0xAA] then CHR ''k'' # to_lower (drop 2 cs)
      else lower_byte c # to_lower cs)"

text \<open>
  The normal form of simple case folding on the runes that fold to ASCII (the ASCII capitals,
  U+017F long s, U+212A Kelvin sign): \<open>strings.EqualFold(s, t)\<close> with \<open>t\<close> ASCII holds
  exactly when the two normal forms are equal.
\<close>

fun fold_case :: "string \<Rightarrow> string" where
  "fold_case [] = []"
| "fold_case (c # cs) =
     (if c = CHR 0xC5 \<and> has_prefix cs [CHR 0xBF] then CHR ''s'' # fold_case (drop 1 cs)
      else if c = CHR 0xE2 \<and> has_prefix cs [CHR 0x84, CHR 0xAA] then CHR ''k'' # fold_case (drop 2 cs)
      else lower_byte c # fold_case cs)"

definition equal_fold :: "string \<Rightarrow> string \<Rightarrow> bool" where
  "equal_fold s t = (fold_case s = fold_case t)"

subsection \<open>Decimal numerals\<close>

definition digit_char :: "nat \<Rightarrow> char" where
  "digit_char n = char_of (48 + n mod 10)"

fun nat_digits :: "nat \<Rightarrow> string" where
  "nat_digits n = (if n < 10 then [digit_char n] else nat_digits (n div 10) @ [digit_char (n mod 10)])"

declare nat_digits.simps [simp del]

text \<open>\<open>strconv.Itoa\<close> and \<open>strconv.FormatInt\<close> in base 10.\<close>

definition itoa :: "int \<Rightarrow> string" where
  "itoa i = (if i < 0 then CHR ''-'' # nat_digits (nat (- i)) else nat_digits (nat i))"

definition is_digit :: "char \<Rightarrow> bool" where
  "is_digit c = (48 \<le> byte c \<and> byte c \<le> 57)"

definition digit_val :: "char \<Rightarrow> nat" where
  "digit_val c = byte c - 48"

definition digits_val :: "string \<Rightarrow> nat" where
  "digits_val ds = foldl (\<lambda>n c. 10 * n + digit_val c) 0 ds"

subsection \<open>Joining and quoting\<close>

text \<open>\<open>strings.Join\<close>.\<close>

fun join :: "string \<Rightarrow> string list \<Rightarrow> string" where
  "join sep [] = []"
| "join sep [x] = x"
| "join sep (x # y # xs) = x @ sep @ join sep (y # xs)"

definition hex_digit :: "nat \<Rightarrow> char" where
  "hex_digit n = (if n < 10 then char_of (48 + n) else char_of (87 + n))"

text \<open>
  The \<open>%q\<close> verb of \<open>fmt\<close> (\<open>strconv.Quote\<close>): ASCII exactly; bytes outside ASCII
  are printable runes and stay as they are.
\<close>

definition quote_byte :: "char \<Rightarrow> string" where
  "quote_byte c =
     (if c = quo then [bsl, quo] else if c = bsl then [bsl, bsl]
      else if c = CHR 0x07 then [bsl, CHR ''a''] else if c = CHR 0x08 then [bsl, CHR ''b'']
      else if c = CHR 0x0C then [bsl, CHR ''f''] else if c = nl then [bsl, CHR ''n'']
      else if c = cr then [bsl, CHR ''r''] else if c = CHR 0x09 then [bsl, CHR ''t'']
      else if c = CHR 0x0B then [bsl, CHR ''v'']
      else if byte c < 32 \<or> byte c = 127
      then [bsl, CHR ''x'', hex_digit (byte c div 16), hex_digit (byte c mod 16)]
      else [c])"

definition go_q :: "string \<Rightarrow> string" where
  "go_q s = [quo] @ concat (map quote_byte s) @ [quo]"

section \<open>64-bit integers\<close>

text \<open>Go's \<open>int64\<close> (and \<open>int\<close> on the supported platforms) wraps around; the model keeps
  an \<open>int\<close> and writes the wrap-around out.\<close>

definition wrap64 :: "int \<Rightarrow> int" where
  "wrap64 x = (x + 2 ^ 63) mod 2 ^ 64 - 2 ^ 63"

definition int64 :: "int \<Rightarrow> bool" where
  "int64 x = (- (2 ^ 63) \<le> x \<and> x < 2 ^ 63)"

lemma wrap64_range [simp]: "int64 (wrap64 x)"
proof -
  have "0 \<le> (x + 2 ^ 63) mod 2 ^ 64" and "(x + 2 ^ 63) mod 2 ^ 64 < (2 :: int) ^ 64"
    by simp_all
  then show ?thesis by (simp add: wrap64_def int64_def)
qed

lemma wrap64_id [simp]: "int64 x \<Longrightarrow> wrap64 x = x"
  by (simp add: wrap64_def int64_def)

section \<open>Strings: the facts the components use\<close>

lemma cut_prefix_Some: "cut_prefix p s = Some r \<longleftrightarrow> s = p @ r"
  by (induction p s rule: cut_prefix.induct) auto

lemma cut_prefix_append [simp]: "cut_prefix p (p @ r) = Some r"
  by (simp add: cut_prefix_Some)

lemma has_prefix_iff: "has_prefix s p \<longleftrightarrow> prefix p s"
  by (auto simp: has_prefix_def cut_prefix_Some prefix_def)

lemma trim_prefix_append [simp]: "trim_prefix (p @ r) p = r"
  by (simp add: trim_prefix_def)

lemma trim_suffix_append [simp]: "trim_suffix (r @ p) p = r"
  by (simp add: trim_suffix_def)

lemma split_at_None: "split_at d s = None \<longleftrightarrow> d \<notin> set s"
  by (induction s) (auto split: option.splits)

lemma split_at_append [simp]: "d \<notin> set a \<Longrightarrow> split_at d (a @ d # b) = Some (a, b)"
  by (induction a) auto

lemma split_at_SomeD: "split_at d s = Some (a, b) \<Longrightarrow> s = a @ d # b \<and> d \<notin> set a"
  by (induction s arbitrary: a) (auto split: option.splits if_splits)

lemma split_at_Some: "split_at d s = Some (a, b) \<longleftrightarrow> s = a @ d # b \<and> d \<notin> set a"
  by (metis split_at_SomeD split_at_append)

lemma split_at_length: "split_at d s = Some (a, b) \<Longrightarrow> length b < length s"
  by (drule split_at_SomeD) simp

lemma byte_less [simp]: "byte c < 256"
proof -
  have "of_char c mod 256 < (256 :: nat)" by (rule mod_less_divisor) simp
  then show ?thesis by (simp only: byte_def of_char_mod_256)
qed

lemma byte_inject [simp]: "byte c = byte d \<longleftrightarrow> c = d"
  by (simp add: byte_def)

lemma byte_char_of [simp]: "n < 256 \<Longrightarrow> byte (char_of n) = n"
  by (simp add: byte_def)

lemma is_digit_digit_char [simp]: "is_digit (digit_char n)"
proof -
  have "n mod 10 < 10" by simp
  then have "48 + n mod 10 < 256" and "48 + n mod 10 \<le> 57" by linarith+
  then show ?thesis by (simp add: is_digit_def digit_char_def)
qed

lemma digit_val_digit_char [simp]: "digit_val (digit_char n) = n mod 10"
proof -
  have "48 + n mod 10 < 256" using mod_less_divisor [of 10 n] by linarith
  then show ?thesis by (simp add: digit_val_def digit_char_def)
qed

lemma nat_digits_digits: "\<forall>c \<in> set (nat_digits n). is_digit c"
proof (induction n rule: nat_digits.induct)
  case (1 n)
  then show ?case by (subst nat_digits.simps) auto
qed

lemma nat_digits_nonempty [simp]: "nat_digits n \<noteq> []"
  by (subst nat_digits.simps) simp

lemma digits_val_snoc [simp]: "digits_val (ds @ [c]) = 10 * digits_val ds + digit_val c"
  by (simp add: digits_val_def)

lemma digits_val_nat_digits [simp]: "digits_val (nat_digits n) = n"
proof (induction n rule: nat_digits.induct)
  case (1 n)
  show ?case
  proof (cases "n < 10")
    case True
    then have "nat_digits n = [] @ [digit_char n]" by (simp add: nat_digits.simps [of n])
    then show ?thesis using True
      by (simp only: digits_val_snoc digit_val_digit_char) (simp add: digits_val_def)
  next
    case False
    then have "nat_digits n = nat_digits (n div 10) @ [digit_char (n mod 10)]"
      by (simp add: nat_digits.simps [of n])
    then show ?thesis using 1 False by simp
  qed
qed

section \<open>Lists: the facts the components use\<close>

lemma find_SomeD: "List.find P xs = Some x \<Longrightarrow> x \<in> set xs \<and> P x"
  by (induction xs) (auto split: if_splits)

lemma find_exists: "x \<in> set xs \<Longrightarrow> P x \<Longrightarrow> \<exists>y. List.find P xs = Some y"
  by (induction xs) auto

lemma drop_while_hd: "dropWhile P s = [] \<or> \<not> P (hd (dropWhile P s))"
  by (metis hd_dropWhile)

lemma take_while_stop: "y = [] \<or> \<not> P (hd y) \<Longrightarrow> \<forall>c \<in> set x. P c \<Longrightarrow> takeWhile P (x @ y) = x"
  by (cases y) (auto simp: takeWhile_append2)

lemma suffix_cases: "suffix rest (a @ b) \<Longrightarrow> suffix rest b \<or> (\<exists>x. x \<noteq> [] \<and> suffix x a \<and> rest = x @ b)"
  by (auto simp: suffix_append)

end
