(* ===== verification/Json.thy ===== *)
theory Json
  imports Prelude "HOL-Library.List_Lexorder" "HOL-Library.Char_ord"
begin

text \<open>
  What the plugin uses of \<open>encoding/json\<close>: the scanner and parser (as a lexer and a
  stack machine over its tokens, the nesting limit included), string literals and their
  escapes, \<open>json.Marshal\<close> with its HTML escaping and sorted map keys, and
  \<open>json.Unmarshal\<close> into structs (case-insensitive names, last duplicate wins, null is
  no change, a type mismatch is reported but decoding goes on).

  A parsed value keeps the text of its literals, so a \<open>json.RawMessage\<close> is a
  \<open>json\<close> value: its bytes are \<open>json_text\<close> of it, up to white space between
  tokens, which \<open>json.Marshal\<close> removes again.
\<close>

section \<open>Values\<close>

datatype json =
    JNull
  | JBool bool
  | JNum string
  | JStr string
  | JArr "json list"
  | JObj "(string \<times> json) list"

text \<open>Keys and \<open>JStr\<close> carry the literal between its quotes, \<open>JNum\<close> the literal.\<close>

datatype tok =
    TLBrace | TRBrace | TLBrack | TRBrack | TColon | TComma
  | TStr string | TNum string | TTrue | TFalse | TNull

section \<open>Lexer\<close>

text \<open>The number states of the scanner.\<close>

datatype numst = NNeg | NZero | NInt | NDot | NFrac | NE | NESign | NExp

definition is_exp :: "char \<Rightarrow> bool" where
  "is_exp c = (c = CHR ''e'' \<or> c = CHR ''E'')"

fun num_next :: "numst \<Rightarrow> char \<Rightarrow> numst option" where
  "num_next NNeg c = (if c = CHR ''0'' then Some NZero else if is_digit c then Some NInt else None)"
| "num_next NZero c = (if c = CHR ''.'' then Some NDot else if is_exp c then Some NE else None)"
| "num_next NInt c = (if is_digit c then Some NInt else if c = CHR ''.'' then Some NDot
     else if is_exp c then Some NE else None)"
| "num_next NDot c = (if is_digit c then Some NFrac else None)"
| "num_next NFrac c = (if is_digit c then Some NFrac else if is_exp c then Some NE else None)"
| "num_next NE c = (if c = CHR ''+'' \<or> c = CHR ''-'' then Some NESign
     else if is_digit c then Some NExp else None)"
| "num_next NESign c = (if is_digit c then Some NExp else None)"
| "num_next NExp c = (if is_digit c then Some NExp else None)"

fun num_accept :: "numst \<Rightarrow> bool" where
  "num_accept NZero = True"
| "num_accept NInt = True"
| "num_accept NFrac = True"
| "num_accept NExp = True"
| "num_accept _ = False"

definition num_start :: "char \<Rightarrow> numst option" where
  "num_start c = (if c = CHR ''-'' then Some NNeg else if c = CHR ''0'' then Some NZero
     else if is_digit c then Some NInt else None)"

datatype lmode =
    Between
  | InStr string
  | InEsc string
  | InHex nat string
  | InNum numst string
  | InWord string tok

definition is_hex :: "char \<Rightarrow> bool" where
  "is_hex c = (is_digit c \<or> (97 \<le> byte c \<and> byte c \<le> 102) \<or> (65 \<le> byte c \<and> byte c \<le> 70))"

definition simple_escape :: "char \<Rightarrow> bool" where
  "simple_escape c = (c \<in> {quo, bsl, CHR ''/'', CHR ''b'', CHR ''f'', CHR ''n'', CHR ''r'', CHR ''t''})"

definition json_space :: "char \<Rightarrow> bool" where
  "json_space c = (c = CHR 0x20 \<or> c = CHR 0x09 \<or> c = cr \<or> c = nl)"

definition lex_between :: "char \<Rightarrow> (lmode \<times> tok list) option" where
  "lex_between c =
     (if json_space c then Some (Between, [])
      else if c = CHR 0x7B then Some (Between, [TLBrace])
      else if c = CHR 0x7D then Some (Between, [TRBrace])
      else if c = CHR ''['' then Some (Between, [TLBrack])
      else if c = CHR '']'' then Some (Between, [TRBrack])
      else if c = CHR '':'' then Some (Between, [TColon])
      else if c = CHR '','' then Some (Between, [TComma])
      else if c = quo then Some (InStr [], [])
      else if c = CHR ''t'' then Some (InWord ''rue'' TTrue, [])
      else if c = CHR ''f'' then Some (InWord ''alse'' TFalse, [])
      else if c = CHR ''n'' then Some (InWord ''ull'' TNull, [])
      else (case num_start c of None \<Rightarrow> None | Some st \<Rightarrow> Some (InNum st [c], [])))"

fun lex_step :: "lmode \<Rightarrow> char \<Rightarrow> (lmode \<times> tok list) option" where
  "lex_step Between c = lex_between c"
| "lex_step (InStr acc) c =
     (if c = quo then Some (Between, [TStr (rev acc)])
      else if c = bsl then Some (InEsc (c # acc), [])
      else if byte c < 32 then None else Some (InStr (c # acc), []))"
| "lex_step (InEsc acc) c =
     (if c = CHR ''u'' then Some (InHex 4 (c # acc), [])
      else if simple_escape c then Some (InStr (c # acc), []) else None)"
| "lex_step (InHex n acc) c =
     (if is_hex c then (if n \<le> 1 then Some (InStr (c # acc), []) else Some (InHex (n - 1) (c # acc), []))
      else None)"
| "lex_step (InNum st acc) c =
     (case num_next st c of
        Some st' \<Rightarrow> Some (InNum st' (c # acc), [])
      | None \<Rightarrow>
          (if num_accept st
           then (case lex_between c of None \<Rightarrow> None | Some (m, ts) \<Rightarrow> Some (m, TNum (rev acc) # ts))
           else None))"
| "lex_step (InWord w t) c =
     (case w of
        [] \<Rightarrow> None
      | d # ds \<Rightarrow> if c = d then (if ds = [] then Some (Between, [t]) else Some (InWord ds t, [])) else None)"

fun lex_end :: "lmode \<Rightarrow> tok list option" where
  "lex_end Between = Some []"
| "lex_end (InNum st acc) = (if num_accept st then Some [TNum (rev acc)] else None)"
| "lex_end _ = None"

fun lex :: "lmode \<Rightarrow> string \<Rightarrow> tok list option" where
  "lex m [] = lex_end m"
| "lex m (c # cs) =
     (case lex_step m c of
        None \<Rightarrow> None
      | Some (m', ts) \<Rightarrow> (case lex m' cs of None \<Rightarrow> None | Some us \<Rightarrow> Some (ts @ us)))"

section \<open>Parser\<close>

datatype pframe = FArr "json list" | FObj "(string \<times> json) list" string

datatype pmode = PValue | PValueOrEnd | PKey | PKeyOrEnd | PColon string | PAfter | PDone json

text \<open>\<open>maxNestingDepth\<close> of the scanner.\<close>

definition max_nesting :: nat where
  "max_nesting = 10000"

fun push_value :: "json \<Rightarrow> pframe list \<Rightarrow> pmode \<times> pframe list" where
  "push_value v [] = (PDone v, [])"
| "push_value v (FArr xs # fs) = (PAfter, FArr (v # xs) # fs)"
| "push_value v (FObj kvs k # fs) = (PAfter, FObj ((k, v) # kvs) k # fs)"

fun value_step :: "pframe list \<Rightarrow> tok \<Rightarrow> (pmode \<times> pframe list) option" where
  "value_step fs (TStr s) = Some (push_value (JStr s) fs)"
| "value_step fs (TNum s) = Some (push_value (JNum s) fs)"
| "value_step fs TTrue = Some (push_value (JBool True) fs)"
| "value_step fs TFalse = Some (push_value (JBool False) fs)"
| "value_step fs TNull = Some (push_value JNull fs)"
| "value_step fs TLBrack = (if length fs < max_nesting then Some (PValueOrEnd, FArr [] # fs) else None)"
| "value_step fs TLBrace = (if length fs < max_nesting then Some (PKeyOrEnd, FObj [] [] # fs) else None)"
| "value_step fs _ = None"

fun close_step :: "pframe list \<Rightarrow> tok \<Rightarrow> (pmode \<times> pframe list) option" where
  "close_step (FArr xs # fs) TRBrack = Some (push_value (JArr (rev xs)) fs)"
| "close_step (FObj kvs k # fs) TRBrace = Some (push_value (JObj (rev kvs)) fs)"
| "close_step _ _ = None"

fun parse_step :: "pmode \<times> pframe list \<Rightarrow> tok \<Rightarrow> (pmode \<times> pframe list) option" where
  "parse_step (PValue, fs) t = value_step fs t"
| "parse_step (PValueOrEnd, fs) t = (if t = TRBrack then close_step fs t else value_step fs t)"
| "parse_step (PKey, fs) t = (case t of TStr k \<Rightarrow> Some (PColon k, fs) | _ \<Rightarrow> None)"
| "parse_step (PKeyOrEnd, fs) t =
     (if t = TRBrace then close_step fs t else (case t of TStr k \<Rightarrow> Some (PColon k, fs) | _ \<Rightarrow> None))"
| "parse_step (PColon k, fs) t =
     (case fs of FObj kvs _ # fs' \<Rightarrow> (if t = TColon then Some (PValue, FObj kvs k # fs') else None)
      | _ \<Rightarrow> None)"
| "parse_step (PAfter, fs) t =
     (if t = TComma
      then (case fs of FArr _ # _ \<Rightarrow> Some (PValue, fs) | FObj _ _ # _ \<Rightarrow> Some (PKey, fs) | [] \<Rightarrow> None)
      else close_step fs t)"
| "parse_step (PDone v, fs) t = None"

fun parse_run :: "pmode \<times> pframe list \<Rightarrow> tok list \<Rightarrow> (pmode \<times> pframe list) option" where
  "parse_run s [] = Some s"
| "parse_run s (t # ts) = (case parse_step s t of None \<Rightarrow> None | Some s' \<Rightarrow> parse_run s' ts)"

definition parse_toks :: "tok list \<Rightarrow> json option" where
  "parse_toks ts = (case parse_run (PValue, []) ts of Some (PDone v, _) \<Rightarrow> Some v | _ \<Rightarrow> None)"

definition json_parse :: "string \<Rightarrow> json option" where
  "json_parse s = (case lex Between s of None \<Rightarrow> None | Some ts \<Rightarrow> parse_toks ts)"

text \<open>\<open>json.Valid\<close>.\<close>

definition json_valid :: "string \<Rightarrow> bool" where
  "json_valid s = (json_parse s \<noteq> None)"

section \<open>Text of a value\<close>

fun tok_text :: "tok \<Rightarrow> string" where
  "tok_text TLBrace = [CHR 0x7B]"
| "tok_text TRBrace = [CHR 0x7D]"
| "tok_text TLBrack = ''[''"
| "tok_text TRBrack = '']''"
| "tok_text TColon = '':''"
| "tok_text TComma = '',''"
| "tok_text (TStr s) = [quo] @ s @ [quo]"
| "tok_text (TNum s) = s"
| "tok_text TTrue = ''true''"
| "tok_text TFalse = ''false''"
| "tok_text TNull = ''null''"

fun separate :: "'a \<Rightarrow> 'a list list \<Rightarrow> 'a list" where
  "separate d [] = []"
| "separate d [x] = x"
| "separate d (x # y # xs) = x @ d # separate d (y # xs)"

fun toks :: "json \<Rightarrow> tok list" where
  "toks JNull = [TNull]"
| "toks (JBool b) = [if b then TTrue else TFalse]"
| "toks (JNum s) = [TNum s]"
| "toks (JStr s) = [TStr s]"
| "toks (JArr xs) = TLBrack # separate TComma (map toks xs) @ [TRBrack]"
| "toks (JObj kvs) = TLBrace # separate TComma (map (\<lambda>(k, v). TStr k # TColon # toks v) kvs) @ [TRBrace]"

definition toks_text :: "tok list \<Rightarrow> string" where
  "toks_text ts = concat (map tok_text ts)"

definition json_text :: "json \<Rightarrow> string" where
  "json_text j = toks_text (toks j)"

section \<open>Printing and parsing back\<close>

text \<open>Well-formed literals: what the scanner accepts between the quotes, or as a number.\<close>

fun wf_lit :: "string \<Rightarrow> bool" where
  "wf_lit [] = True"
| "wf_lit (c # cs) =
     (if c = bsl
      then (case cs of
              [] \<Rightarrow> False
            | e # r \<Rightarrow>
                if e = CHR ''u''
                then (case r of
                        a # b # x # d # r' \<Rightarrow> is_hex a \<and> is_hex b \<and> is_hex x \<and> is_hex d \<and> wf_lit r'
                      | _ \<Rightarrow> False)
                else simple_escape e \<and> wf_lit r)
      else c \<noteq> quo \<and> 32 \<le> byte c \<and> wf_lit cs)"

fun num_run :: "numst \<Rightarrow> string \<Rightarrow> bool" where
  "num_run st [] = num_accept st"
| "num_run st (c # cs) = (case num_next st c of None \<Rightarrow> False | Some st' \<Rightarrow> num_run st' cs)"

fun wf_num :: "string \<Rightarrow> bool" where
  "wf_num [] = False"
| "wf_num (c # cs) = (case num_start c of None \<Rightarrow> False | Some st \<Rightarrow> num_run st cs)"

fun wf_tok :: "tok \<Rightarrow> bool" where
  "wf_tok (TStr s) = wf_lit s"
| "wf_tok (TNum s) = wf_num s"
| "wf_tok _ = True"

fun wf_json :: "json \<Rightarrow> bool" where
  "wf_json (JNum s) = wf_num s"
| "wf_json (JStr s) = wf_lit s"
| "wf_json (JArr xs) = (\<forall>x \<in> set xs. wf_json x)"
| "wf_json (JObj kvs) = (\<forall>kv \<in> set kvs. wf_lit (fst kv) \<and> wf_json (snd kv))"
| "wf_json _ = True"

fun depth :: "json \<Rightarrow> nat" where
  "depth (JArr xs) = Suc (foldr (\<lambda>x. max (depth x)) xs 0)"
| "depth (JObj kvs) = Suc (foldr (\<lambda>kv. max (depth (snd kv))) kvs 0)"
| "depth _ = 0"

subsection \<open>The parser undoes \<open>toks\<close>\<close>

lemma parse_run_append:
  "parse_run s (ts @ us) = (case parse_run s ts of None \<Rightarrow> None | Some s' \<Rightarrow> parse_run s' us)"
  by (induction s ts rule: parse_run.induct) (auto split: option.splits)

lemma toks_neq_Nil [simp]: "toks j \<noteq> []"
  by (cases j) auto

lemma hd_toks: "hd (toks j) \<noteq> TRBrack \<and> hd (toks j) \<noteq> TRBrace"
  by (cases j) auto

lemma run_first_elem:
  "parse_run (PValueOrEnd, fs) (toks j @ ts) = parse_run (PValue, fs) (toks j @ ts)"
proof -
  obtain t us where j: "toks j = t # us" by (cases "toks j") auto
  then have "t \<noteq> TRBrack" using hd_toks [of j] by simp
  then show ?thesis by (simp add: j)
qed

lemma run_elems:
  assumes "\<And>x fs ts. x \<in> set xs \<Longrightarrow> length fs < n \<Longrightarrow>
             parse_run (PValue, fs) (toks x @ ts) = parse_run (push_value x fs) ts"
    and "length fs < n - 1" and "xs \<noteq> []"
  shows "parse_run (PValue, FArr acc # fs) (separate TComma (map toks xs) @ TRBrack # ts) =
         parse_run (push_value (JArr (rev acc @ xs)) fs) ts"
  using assms
proof (induction xs arbitrary: acc)
  case Nil
  then show ?case by simp
next
  case (Cons x xs)
  have x: "parse_run (PValue, FArr acc # fs) (toks x @ us) = parse_run (PAfter, FArr (x # acc) # fs) us" for us
    using Cons.prems by simp
  show ?case
  proof (cases xs)
    case Nil
    then show ?thesis by (simp add: x)
  next
    case (Cons y ys)
    have "parse_run (PValue, FArr (x # acc) # fs) (separate TComma (map toks xs) @ TRBrack # ts) =
          parse_run (push_value (JArr (rev (x # acc) @ xs)) fs) ts"
      by (rule Cons.IH) (use Cons.prems Cons in auto)
    then show ?thesis using Cons by (simp add: x)
  qed
qed

lemma run_members:
  assumes "\<And>k x fs ts. (k, x) \<in> set kvs \<Longrightarrow> length fs < n \<Longrightarrow>
             parse_run (PValue, fs) (toks x @ ts) = parse_run (push_value x fs) ts"
    and "length fs < n - 1" and "kvs \<noteq> []"
  shows "parse_run (PKey, FObj acc k0 # fs)
           (separate TComma (map (\<lambda>(k, v). TStr k # TColon # toks v) kvs) @ TRBrace # ts) =
         parse_run (push_value (JObj (rev acc @ kvs)) fs) ts"
  using assms
proof (induction kvs arbitrary: acc k0)
  case Nil
  then show ?case by simp
next
  case (Cons kv kvs)
  obtain k x where kv: "kv = (k, x)" by force
  have x: "parse_run (PKey, FObj acc k0 # fs) (TStr k # TColon # toks x @ us) =
           parse_run (PAfter, FObj ((k, x) # acc) k # fs) us" for us
  proof -
    have "parse_run (PValue, FObj acc k # fs) (toks x @ us) = parse_run (push_value x (FObj acc k # fs)) us"
      by (rule Cons.prems(1) [of k]) (use Cons.prems(2) kv in auto)
    then show ?thesis by simp
  qed
  show ?case
  proof (cases kvs)
    case Nil
    then show ?thesis using x by (simp add: kv del: parse_run.simps) (simp add: kv)
  next
    case (Cons y ys)
    have "parse_run (PKey, FObj ((k, x) # acc) k # fs)
            (separate TComma (map (\<lambda>(k, v). TStr k # TColon # toks v) kvs) @ TRBrace # ts) =
          parse_run (push_value (JObj (rev ((k, x) # acc) @ kvs)) fs) ts"
      by (rule Cons.IH) (use Cons.prems Cons in auto)
    then show ?thesis using Cons x by (simp add: kv del: parse_run.simps) (simp add: kv)
  qed
qed

lemma depth_elem: "x \<in> set xs \<Longrightarrow> depth x \<le> foldr (\<lambda>x. max (depth x)) xs 0"
  by (induction xs) auto

lemma depth_member: "kv \<in> set kvs \<Longrightarrow> depth (snd kv) \<le> foldr (\<lambda>kv. max (depth (snd kv))) kvs 0"
  by (induction kvs) auto

lemma parse_run_toks:
  "depth j + length fs \<le> max_nesting \<Longrightarrow>
   parse_run (PValue, fs) (toks j @ ts) = parse_run (push_value j fs) ts"
proof (induction j arbitrary: fs ts)
  case (JArr xs)
  let ?d = "foldr (\<lambda>x. max (depth x)) xs 0"
  have elem: "parse_run (PValue, gs) (toks x @ us) = parse_run (push_value x gs) us"
    if "x \<in> set xs" "length gs < Suc (Suc (length fs))" for x gs us
    using JArr.IH [OF that(1)] JArr.prems depth_elem [OF that(1)] that(2) by simp
  have enter: "length fs < max_nesting" using JArr.prems by simp
  show ?case
  proof (cases xs)
    case Nil
    then show ?thesis using enter by simp
  next
    case (Cons x ys)
    have "parse_run (PValue, FArr [] # fs) (separate TComma (map toks xs) @ TRBrack # ts) =
          parse_run (push_value (JArr xs) fs) ts"
      using run_elems [of xs "Suc (Suc (length fs))" fs "[]" ts] elem Cons by simp
    moreover have "parse_run (PValueOrEnd, FArr [] # fs) (separate TComma (map toks xs) @ TRBrack # ts) =
        parse_run (PValue, FArr [] # fs) (separate TComma (map toks xs) @ TRBrack # ts)"
    proof -
      obtain us where "separate TComma (map toks xs) @ TRBrack # ts = toks x @ us"
        using Cons by (cases ys) auto
      then show ?thesis by (simp only: run_first_elem)
    qed
    ultimately show ?thesis using enter by simp
  qed
next
  case (JObj kvs)
  have elem: "parse_run (PValue, gs) (toks x @ us) = parse_run (push_value x gs) us"
    if "(k, x) \<in> set kvs" "length gs < Suc (Suc (length fs))" for k x gs us
  proof (rule JObj.IH [of "(k, x)"])
    show "(k, x) \<in> set kvs" by (rule that(1))
    show "x \<in> Basic_BNFs.snds (k, x)" by simp
    show "depth x + length gs \<le> max_nesting"
      using JObj.prems depth_member [OF that(1)] that(2) by simp
  qed
  have enter: "length fs < max_nesting" using JObj.prems by simp
  show ?case
  proof (cases kvs)
    case Nil
    then show ?thesis using enter by simp
  next
    case (Cons kv ys)
    have "parse_run (PKey, FObj [] [] # fs)
            (separate TComma (map (\<lambda>(k, v). TStr k # TColon # toks v) kvs) @ TRBrace # ts) =
          parse_run (push_value (JObj kvs) fs) ts"
      using run_members [of kvs "Suc (Suc (length fs))" fs "[]" "[]" ts] elem Cons by simp
    then show ?thesis using enter Cons
      by (cases kv; cases ys) simp_all
  qed
qed auto

subsection \<open>The lexer undoes \<open>toks_text\<close>\<close>

fun sep_ok :: "tok list \<Rightarrow> bool" where
  "sep_ok (TNum s # t # ts) = (t \<in> {TComma, TRBrack, TRBrace} \<and> sep_ok (t # ts))"
| "sep_ok (t # ts) = sep_ok ts"
| "sep_ok [] = True"

abbreviation lex_cons :: "tok \<Rightarrow> string \<Rightarrow> tok list option" where
  "lex_cons t r \<equiv> map_option ((#) t) (lex Between r)"

lemma lex_str:
  "wf_lit s \<Longrightarrow> lex (InStr acc) (s @ quo # r) = lex_cons (TStr (rev acc @ s)) r"
proof (induction s arbitrary: acc rule: wf_lit.induct)
  case 1
  then show ?case by (simp split: option.splits)
next
  case (2 c cs)
  show ?case
  proof (cases "c = bsl")
    case True
    then obtain e r' where cs: "cs = e # r'" using "2.prems" by (cases cs) auto
    show ?thesis
    proof (cases "e = CHR ''u''")
      case u: True
      then obtain a b x d r'' where r': "r' = a # b # x # d # r''"
          and hx: "is_hex a" "is_hex b" "is_hex x" "is_hex d" and w: "wf_lit r''"
        using "2.prems" True cs by (auto split: list.splits)
      have "lex (InStr (d # x # b # a # e # c # acc)) (r'' @ quo # r) =
            lex_cons (TStr (rev (d # x # b # a # e # c # acc) @ r'')) r"
        using "2.IH"(1) True cs u r' w by blast
      then show ?thesis using True cs u r' hx by (simp split: option.splits)
    next
      case False
      have "simple_escape e" "wf_lit r'" using "2.prems" True cs False by auto
      moreover have "lex (InStr (e # c # acc)) (r' @ quo # r) = lex_cons (TStr (rev (e # c # acc) @ r')) r"
        using "2.IH"(2) True cs False \<open>wf_lit r'\<close> by blast
      ultimately show ?thesis using True cs False by (simp split: option.splits)
    qed
  next
    case False
    then have "lex (InStr (c # acc)) (cs @ quo # r) = lex_cons (TStr (rev (c # acc) @ cs)) r"
      using "2.IH"(3) "2.prems" by simp
    then show ?thesis using False "2.prems" by (simp split: option.splits)
  qed
qed

definition num_delim :: "string \<Rightarrow> bool" where
  "num_delim r = (r = [] \<or> hd r \<in> {CHR '','', CHR '']'', CHR 0x7D})"

lemma num_next_delim: "c \<in> {CHR '','', CHR '']'', CHR 0x7D} \<Longrightarrow> num_next st c = None"
  by (cases st) (auto simp: is_digit_def is_exp_def byte_def)

lemma lex_num:
  "num_run st s \<Longrightarrow> num_delim r \<Longrightarrow> lex (InNum st acc) (s @ r) = lex_cons (TNum (rev acc @ s)) r"
proof (induction s arbitrary: st acc)
  case Nil
  show ?case
  proof (cases r)
    case (Cons c cs)
    then have "num_next st c = None" using Nil.prems num_next_delim by (simp add: num_delim_def)
    then show ?thesis using Cons Nil.prems by (auto split: option.splits)
  qed (use Nil in simp)
next
  case (Cons c s)
  then show ?case by (auto split: option.splits)
qed

lemma lex_word_true: "lex Between (''true'' @ r) = lex_cons TTrue r"
  by (simp add: lex_between_def json_space_def split: option.splits)

lemma lex_word_false: "lex Between (''false'' @ r) = lex_cons TFalse r"
  by (simp add: lex_between_def json_space_def split: option.splits)

lemma lex_word_null: "lex Between (''null'' @ r) = lex_cons TNull r"
  by (simp add: lex_between_def json_space_def split: option.splits)

lemma num_start_neq:
  assumes "num_start c = Some st"
  shows "c \<notin> {CHR 0x20, CHR 0x09, cr, nl, CHR 0x7B, CHR 0x7D, CHR ''['', CHR '']'', CHR '':'',
                CHR '','', quo, CHR ''t'', CHR ''f'', CHR ''n''}"
proof
  assume "c \<in> {CHR 0x20, CHR 0x09, cr, nl, CHR 0x7B, CHR 0x7D, CHR ''['', CHR '']'', CHR '':'',
                CHR '','', quo, CHR ''t'', CHR ''f'', CHR ''n''}"
  then have "num_start c = None"
    by (elim insertE emptyE) (simp_all add: num_start_def is_digit_def byte_def)
  then show False using assms by simp
qed

lemma num_start_between:
  "num_start c = Some st \<Longrightarrow> lex_between c = Some (InNum st [c], [])"
  using num_start_neq [of c st] by (simp add: lex_between_def json_space_def)

lemma lex_tok:
  assumes "wf_tok t" and "\<And>s. t = TNum s \<Longrightarrow> num_delim r"
  shows "lex Between (tok_text t @ r) = lex_cons t r"
proof (cases t)
  case (TStr s)
  then have "lex (InStr []) (s @ quo # r) = lex_cons (TStr s) r"
    using assms lex_str [of s "[]" r] by simp
  then show ?thesis using TStr by (simp add: lex_between_def json_space_def split: option.splits)
next
  case (TNum s)
  then obtain c cs st where s: "s = c # cs" and st: "num_start c = Some st" and run: "num_run st cs"
    using assms(1) by (cases s) (auto split: option.splits)
  have "lex (InNum st [c]) (cs @ r) = lex_cons (TNum (rev [c] @ cs)) r"
    by (rule lex_num [OF run]) (use assms(2) TNum in simp)
  then show ?thesis using TNum s num_start_between [OF st] by (simp split: option.splits)
qed (use lex_word_true [of r] lex_word_false [of r] lex_word_null [of r] in
      \<open>simp_all add: lex_between_def json_space_def split: option.splits\<close>)

lemma sep_ok_tl: "sep_ok (t # ts) \<Longrightarrow> sep_ok ts"
  by (induction "t # ts" rule: sep_ok.induct) auto

lemma lex_toks:
  "\<forall>t \<in> set ts. wf_tok t \<Longrightarrow> sep_ok ts \<Longrightarrow> lex Between (toks_text ts) = Some ts"
proof (induction ts)
  case Nil
  then show ?case by (simp add: toks_text_def)
next
  case (Cons t ts)
  have "num_delim (toks_text ts)" if "t = TNum s" for s
    using Cons.prems that by (cases ts) (auto simp: num_delim_def toks_text_def)
  then have "lex Between (tok_text t @ toks_text ts) = lex_cons t (toks_text ts)"
    using lex_tok Cons.prems by auto
  moreover have "lex Between (toks_text ts) = Some ts"
    using Cons sep_ok_tl by auto
  ultimately show ?case by (simp add: toks_text_def)
qed

subsection \<open>The round trip\<close>

abbreviation closes :: "tok list \<Rightarrow> bool" where
  "closes ts \<equiv> (ts = [] \<or> hd ts \<in> {TComma, TRBrack, TRBrace})"

lemma sep_ok_num: "closes ts \<Longrightarrow> sep_ok ts \<Longrightarrow> sep_ok (TNum s # ts)"
  by (cases ts) auto

lemma sep_ok_other: "(\<And>s. t \<noteq> TNum s) \<Longrightarrow> sep_ok ts \<Longrightarrow> sep_ok (t # ts)"
  by (cases t; cases ts) auto

lemma sep_ok_separate:
  assumes "\<And>us vs. us \<in> set uss \<Longrightarrow> closes vs \<Longrightarrow> sep_ok vs \<Longrightarrow> sep_ok (us @ vs)"
    and "closes ts" "sep_ok ts"
  shows "sep_ok (separate TComma uss @ ts)"
  using assms
proof (induction TComma uss rule: separate.induct)
  case (3 x y xs)
  have "sep_ok (separate TComma (y # xs) @ ts)" using 3 by simp
  then have "sep_ok (TComma # separate TComma (y # xs) @ ts)" by (intro sep_ok_other) simp_all
  then show ?case using "3.prems"(1) [of x "TComma # separate TComma (y # xs) @ ts"] by simp
qed auto

lemma sep_ok_toks: "closes ts \<Longrightarrow> sep_ok ts \<Longrightarrow> sep_ok (toks j @ ts)"
proof (induction j arbitrary: ts)
  case (JNum s)
  then show ?case by (simp add: sep_ok_num)
next
  case (JArr xs)
  have "sep_ok (separate TComma (map toks xs) @ TRBrack # ts)"
    by (rule sep_ok_separate) (use JArr in \<open>auto intro: sep_ok_other\<close>)
  then show ?case by (simp add: sep_ok_other)
next
  case (JObj kvs)
  have "sep_ok (us @ vs)" if mem: "us \<in> set (map (\<lambda>(k, v). TStr k # TColon # toks v) kvs)"
    and close: "closes vs" "sep_ok vs" for us vs
  proof -
    obtain k v where kv: "(k, v) \<in> set kvs" and us: "us = TStr k # TColon # toks v" using mem by auto
    have "sep_ok (toks v @ vs)" by (rule JObj.IH [OF kv]) (use close in auto)
    then show ?thesis by (simp add: us sep_ok_other)
  qed
  then have "sep_ok (separate TComma (map (\<lambda>(k, v). TStr k # TColon # toks v) kvs) @ TRBrace # ts)"
    by (rule sep_ok_separate) (use JObj.prems in \<open>auto intro: sep_ok_other\<close>)
  then show ?case by (simp add: sep_ok_other)
qed (auto intro: sep_ok_other)

lemma set_separate: "set (separate d xss) \<subseteq> insert d (\<Union> (set ` set xss))"
  by (induction d xss rule: separate.induct) auto

lemma wf_toks: "wf_json j \<Longrightarrow> t \<in> set (toks j) \<Longrightarrow> wf_tok t"
proof (induction j)
  case (JArr xs)
  then show ?case using set_separate [of TComma "map toks xs"] by auto
next
  case (JObj kvs)
  have "wf_tok t" if kv: "(k, v) \<in> set kvs" and t: "t \<in> set (TStr k # TColon # toks v)" for k v
    using JObj.IH [OF kv, of v] JObj.prems(1) kv t by fastforce
  moreover have "t \<in> {TLBrace, TComma, TRBrace} \<or> (\<exists>(k, v) \<in> set kvs. t \<in> set (TStr k # TColon # toks v))"
    using JObj.prems(2) set_separate [of TComma "map (\<lambda>(k, v). TStr k # TColon # toks v) kvs"] by auto
  ultimately show ?case by auto
qed auto

lemma json_parse_text:
  assumes "wf_json j" "depth j \<le> max_nesting"
  shows "json_parse (json_text j) = Some j"
proof -
  have "sep_ok (toks j)" using sep_ok_toks [of "[]" j] by simp
  then have "lex Between (json_text j) = Some (toks j)"
    unfolding json_text_def using wf_toks [OF assms(1)] by (intro lex_toks) auto
  moreover have "parse_run (PValue, []) (toks j) = Some (PDone j, [])"
    using parse_run_toks [of j "[]" "[]"] assms(2) by simp
  ultimately show ?thesis by (simp add: json_parse_def parse_toks_def)
qed

end
