(* ===== verification/Codec.thy ===== *)
theory Codec
  imports Json
begin

text \<open>
  String literals (escapes and UTF-8), \<open>json.Marshal\<close> of the plugin's composed values, and
  \<open>json.Unmarshal\<close> into its structs.
\<close>

section \<open>UTF-8\<close>

definition cont_byte :: "char \<Rightarrow> bool" where
  "cont_byte c = (128 \<le> byte c \<and> byte c < 192)"

text \<open>
  The number of bytes of the rune a string starts with, 0 when the bytes are not a valid
  encoding (\<open>utf8.DecodeRune\<close> gives the replacement rune of width 1 there).
\<close>

fun utf8_len :: "string \<Rightarrow> nat" where
  "utf8_len [] = 0"
| "utf8_len (c # cs) =
     (let b = byte c in
      if b < 128 then 1
      else (case cs of
          [] \<Rightarrow> 0
        | c1 # r1 \<Rightarrow>
            if 0xC2 \<le> b \<and> b \<le> 0xDF then (if cont_byte c1 then 2 else 0)
            else (case r1 of
                [] \<Rightarrow> 0
              | c2 # r2 \<Rightarrow>
                  if 0xE0 \<le> b \<and> b \<le> 0xEF
                  then (if cont_byte c1 \<and> cont_byte c2 \<and> (b = 0xE0 \<longrightarrow> 0xA0 \<le> byte c1)
                          \<and> (b = 0xED \<longrightarrow> byte c1 < 0xA0) then 3 else 0)
                  else (case r2 of
                      [] \<Rightarrow> 0
                    | c3 # _ \<Rightarrow>
                        if 0xF0 \<le> b \<and> b \<le> 0xF4 \<and> cont_byte c1 \<and> cont_byte c2 \<and> cont_byte c3
                             \<and> (b = 0xF0 \<longrightarrow> 0x90 \<le> byte c1) \<and> (b = 0xF4 \<longrightarrow> byte c1 < 0x90)
                        then 4 else 0))))"

definition replacement :: string where
  "replacement = [CHR 0xEF, CHR 0xBF, CHR 0xBD]"

text \<open>Invalid bytes replaced, as \<open>Marshal\<close> and \<open>Unmarshal\<close> both do.\<close>

fun to_valid :: "string \<Rightarrow> string" where
  "to_valid [] = []"
| "to_valid (c # cs) =
     (let n = utf8_len (c # cs) in
      if n = 0 then replacement @ to_valid cs
      else c # take (n - 1) cs @ to_valid (drop (n - 1) cs))"

definition utf8_encode :: "nat \<Rightarrow> string" where
  "utf8_encode u =
     (if u < 0x80 then [char_of u]
      else if u < 0x800 then [char_of (0xC0 + u div 64), char_of (0x80 + u mod 64)]
      else if u < 0x10000 then
        [char_of (0xE0 + u div 4096), char_of (0x80 + (u div 64) mod 64), char_of (0x80 + u mod 64)]
      else
        [char_of (0xF0 + u div 262144), char_of (0x80 + (u div 4096) mod 64),
         char_of (0x80 + (u div 64) mod 64), char_of (0x80 + u mod 64)])"

section \<open>String literals\<close>

subsection \<open>Quoting (\<open>Marshal\<close>, HTML escaping on)\<close>

definition u_escape :: "nat \<Rightarrow> string" where
  "u_escape u = [bsl, CHR ''u'', hex_digit (u div 4096), hex_digit (u div 256 mod 16),
                 hex_digit (u div 16 mod 16), hex_digit (u mod 16)]"

definition quote_ascii :: "char \<Rightarrow> string" where
  "quote_ascii c =
     (if c = quo \<or> c = bsl then [bsl, c]
      else if c = CHR 0x08 then [bsl, CHR ''b'']
      else if c = CHR 0x0C then [bsl, CHR ''f'']
      else if c = nl then [bsl, CHR ''n'']
      else if c = cr then [bsl, CHR ''r'']
      else if c = CHR 0x09 then [bsl, CHR ''t'']
      else if byte c < 32 \<or> c = CHR ''<'' \<or> c = CHR ''>'' \<or> c = CHR ''&'' then u_escape (byte c)
      else [c])"

definition quote_wide :: "string \<Rightarrow> string" where
  "quote_wide r =
     (if r = [CHR 0xE2, CHR 0x80, CHR 0xA8] then u_escape 0x2028
      else if r = [CHR 0xE2, CHR 0x80, CHR 0xA9] then u_escape 0x2029
      else r)"

fun quote_body :: "string \<Rightarrow> string" where
  "quote_body [] = []"
| "quote_body (c # cs) =
     (let n = utf8_len (c # cs) in
      if n = 0 then u_escape 0xFFFD @ quote_body cs
      else if n = 1 then quote_ascii c @ quote_body cs
      else quote_wide (c # take (n - 1) cs) @ quote_body (drop (n - 1) cs))"

subsection \<open>Unquoting (\<open>Unmarshal\<close>)\<close>

definition hex_val :: "char \<Rightarrow> nat" where
  "hex_val c = (if is_digit c then byte c - 48 else if 97 \<le> byte c then byte c - 87 else byte c - 55)"

definition hex4 :: "string \<Rightarrow> nat" where
  "hex4 s = foldl (\<lambda>n c. 16 * n + hex_val c) 0 (take 4 s)"

definition escape_char :: "char \<Rightarrow> char" where
  "escape_char e = (if e = CHR ''b'' then CHR 0x08 else if e = CHR ''f'' then CHR 0x0C
     else if e = CHR ''n'' then nl else if e = CHR ''r'' then cr
     else if e = CHR ''t'' then CHR 0x09 else e)"

text \<open>
  After \<open>\u\<close>: the decoded bytes and the number of literal bytes consumed. A surrogate must be
  followed by the escape of its other half, or stands for the replacement rune.
\<close>

definition unquote_u :: "string \<Rightarrow> string \<times> nat" where
  "unquote_u r =
     (let u = hex4 r in
      if 0xD800 \<le> u \<and> u \<le> 0xDFFF
      then (let v = hex4 (drop 6 r) in
            if u \<le> 0xDBFF \<and> has_prefix (drop 4 r) [bsl, CHR ''u''] \<and> 0xDC00 \<le> v \<and> v \<le> 0xDFFF
            then (utf8_encode (0x10000 + (u - 0xD800) * 1024 + (v - 0xDC00)), 10)
            else (replacement, 4))
      else (utf8_encode u, 4))"

fun unquote :: "string \<Rightarrow> string" where
  "unquote [] = []"
| "unquote (c # cs) =
     (if c = bsl
      then (case cs of
              [] \<Rightarrow> []
            | e # r \<Rightarrow>
                if e = CHR ''u''
                then fst (unquote_u r) @ unquote (drop (snd (unquote_u r)) r)
                else escape_char e # unquote r)
      else (let n = utf8_len (c # cs) in
            if n = 0 then replacement @ unquote cs
            else c # take (n - 1) cs @ unquote (drop (n - 1) cs)))"

declare to_valid.simps(2) [simp del] quote_body.simps(2) [simp del] unquote.simps(2) [simp del]

section \<open>Marshal\<close>

text \<open>
  The values the plugin hands to \<open>json.Marshal\<close>: \<open>GMap\<close> is a Go map (its keys
  are sorted), \<open>GStruct\<close> a struct or an object whose field order is fixed,
  \<open>GRaw\<close> a \<open>json.RawMessage\<close> (compacted, its literals HTML-escaped).
\<close>

datatype gv =
    GNull
  | GBool bool
  | GInt int
  | GStr string
  | GRaw json
  | GArr "gv list"
  | GMap "(string \<times> gv) list"
  | GStruct "(string \<times> gv) list"

text \<open>\<open>compact\<close> with HTML escaping, inside a literal.\<close>

fun html_lit :: "string \<Rightarrow> string" where
  "html_lit [] = []"
| "html_lit (c # cs) =
     (if c = CHR ''<'' \<or> c = CHR ''>'' \<or> c = CHR ''&'' then u_escape (byte c) @ html_lit cs
      else if has_prefix (c # cs) [CHR 0xE2, CHR 0x80, CHR 0xA8] then u_escape 0x2028 @ html_lit (drop 2 cs)
      else if has_prefix (c # cs) [CHR 0xE2, CHR 0x80, CHR 0xA9] then u_escape 0x2029 @ html_lit (drop 2 cs)
      else c # html_lit cs)"

fun html_json :: "json \<Rightarrow> json" where
  "html_json (JStr s) = JStr (html_lit s)"
| "html_json (JArr xs) = JArr (map html_json xs)"
| "html_json (JObj kvs) = JObj (map (\<lambda>(k, v). (html_lit k, html_json v)) kvs)"
| "html_json j = j"

fun encode :: "gv \<Rightarrow> json" where
  "encode GNull = JNull"
| "encode (GBool b) = JBool b"
| "encode (GInt i) = JNum (itoa i)"
| "encode (GStr s) = JStr (quote_body s)"
| "encode (GRaw j) = html_json j"
| "encode (GArr xs) = JArr (map encode xs)"
| "encode (GMap kvs) = JObj (map (\<lambda>(k, v). (quote_body k, v)) (sort_key fst (map (\<lambda>(k, v). (k, encode v)) kvs)))"
| "encode (GStruct kvs) = JObj (map (\<lambda>(k, v). (quote_body k, encode v)) kvs)"

definition marshal :: "gv \<Rightarrow> string" where
  "marshal v = json_text (encode v)"

section \<open>Unmarshal\<close>

text \<open>
  A decoder takes the parsed value and the destination's current content, and gives the new
  content and whether no type mismatch was met (\<open>Unmarshal\<close> stores what it can and
  reports the first mismatch at the end).
\<close>

type_synonym 'a dec = "json \<Rightarrow> 'a \<Rightarrow> 'a \<times> bool"

definition unmarshal :: "'a dec \<Rightarrow> string \<Rightarrow> 'a \<Rightarrow> 'a \<times> bool" where
  "unmarshal d s a = (case json_parse s of None \<Rightarrow> (a, False) | Some j \<Rightarrow> d j a)"

fun dec_string :: "string dec" where
  "dec_string JNull a = (a, True)"
| "dec_string (JStr s) a = (unquote s, True)"
| "dec_string _ a = (a, False)"

fun dec_bool :: "bool dec" where
  "dec_bool JNull a = (a, True)"
| "dec_bool (JBool b) a = (b, True)"
| "dec_bool _ a = (a, False)"

text \<open>\<open>strconv.ParseInt(literal, 10, 64)\<close>.\<close>

fun parse_int_lit :: "string \<Rightarrow> int option" where
  "parse_int_lit [] = None"
| "parse_int_lit (c # cs) =
     (if c = CHR ''-''
      then (if cs \<noteq> [] \<and> list_all is_digit cs \<and> int (digits_val cs) \<le> 2 ^ 63
            then Some (- int (digits_val cs)) else None)
      else (if list_all is_digit (c # cs) \<and> int (digits_val (c # cs)) < 2 ^ 63
            then Some (int (digits_val (c # cs))) else None))"

fun dec_int64 :: "int dec" where
  "dec_int64 JNull a = (a, True)"
| "dec_int64 (JNum s) a = (case parse_int_lit s of None \<Rightarrow> (a, False) | Some i \<Rightarrow> (i, True))"
| "dec_int64 _ a = (a, False)"

text \<open>A \<open>json.RawMessage\<close> field: \<open>None\<close> is the empty slice of an absent field.\<close>

type_synonym raw = "json option"

definition dec_raw :: "raw dec" where
  "dec_raw j a = (Some j, True)"

definition dec_ptr :: "'a \<Rightarrow> 'a dec \<Rightarrow> 'a option dec" where
  "dec_ptr z d j a =
     (if j = JNull then (None, True)
      else (let (v, ok) = d j (case a of None \<Rightarrow> z | Some x \<Rightarrow> x) in (Some v, ok)))"

fun dec_list :: "'a \<Rightarrow> 'a dec \<Rightarrow> 'a list dec" where
  "dec_list z d JNull a = ([], True)"
| "dec_list z d (JArr js) a = (map (\<lambda>j. fst (d j z)) js, list_all (\<lambda>j. snd (d j z)) js)"
| "dec_list z d _ a = (a, False)"

text \<open>A field of a struct, given by its selector and its update function.\<close>

definition field :: "('r \<Rightarrow> 'a) \<Rightarrow> (('a \<Rightarrow> 'a) \<Rightarrow> 'r \<Rightarrow> 'r) \<Rightarrow> 'a dec \<Rightarrow> 'r dec" where
  "field get upd d j r = (let (v, ok) = d j (get r) in (upd (\<lambda>_. v) r, ok))"

text \<open>Exact names first, then the first name equal under case folding.\<close>

definition find_field :: "(string \<times> 'r dec) list \<Rightarrow> string \<Rightarrow> 'r dec option" where
  "find_field fs k =
     (case map_of fs k of
        Some d \<Rightarrow> Some d
      | None \<Rightarrow> map_option snd (List.find (\<lambda>(n, _). equal_fold k n) fs))"

fun dec_members :: "(string \<times> 'r dec) list \<Rightarrow> (string \<times> json) list \<Rightarrow> 'r \<times> bool \<Rightarrow> 'r \<times> bool" where
  "dec_members fs [] r = r"
| "dec_members fs ((k, v) # kvs) (r, ok) =
     dec_members fs kvs
       (case find_field fs (unquote k) of
          None \<Rightarrow> (r, ok)
        | Some d \<Rightarrow> (let (r', ok') = d v r in (r', ok \<and> ok')))"

fun dec_struct :: "(string \<times> 'r dec) list \<Rightarrow> 'r dec" where
  "dec_struct fs JNull r = (r, True)"
| "dec_struct fs (JObj kvs) r = dec_members fs kvs (r, True)"
| "dec_struct fs _ r = (r, False)"

text \<open>
  \<open>map[string]json.RawMessage\<close>, as an association list with one entry per key (a later
  duplicate replaces the value). \<open>None\<close> is the nil map of a null document.
\<close>

fun raw_map :: "(string \<times> json) list \<Rightarrow> (string \<times> json) list" where
  "raw_map kvs = foldl (\<lambda>m (k, v). AList.update (unquote k) v m) [] kvs"

fun dec_raw_map :: "(string \<times> json) list option dec" where
  "dec_raw_map JNull m = (None, True)"
| "dec_raw_map (JObj kvs) m =
     (Some (foldl (\<lambda>m (k, v). AList.update (unquote k) v m) (case m of None \<Rightarrow> [] | Some x \<Rightarrow> x) kvs), True)"
| "dec_raw_map _ m = (m, False)"

lemmas decoders [model_defs] = unmarshal_def dec_raw_def dec_ptr_def field_def find_field_def

section \<open>Literals round trip\<close>

lemma hex_digit_val [simp]: "n < 16 \<Longrightarrow> hex_val (hex_digit n) = n"
  by (auto simp: hex_val_def hex_digit_def is_digit_def)

lemma is_hex_digit [simp]: "n < 16 \<Longrightarrow> is_hex (hex_digit n)"
  by (auto simp: is_hex_def hex_digit_def is_digit_def)

lemma hex_sum: "((u div 4096 * 16 + u div 256 mod 16) * 16 + u div 16 mod 16) * 16 + u mod 16 = (u :: nat)"
proof -
  have "u div 256 = u div 16 div 16" and "u div 4096 = u div 16 div 16 div 16"
    by (simp_all add: div_mult2_eq [symmetric])
  then show ?thesis by (simp only: div_mult_mod_eq)
qed

lemma utf8_separators:
  "utf8_encode 0x2028 = [CHR 0xE2, CHR 0x80, CHR 0xA8]"
  "utf8_encode 0x2029 = [CHR 0xE2, CHR 0x80, CHR 0xA9]"
  "utf8_encode 0xFFFD = replacement"
  by (simp_all add: utf8_encode_def replacement_def char_of_def bit_simps)

lemma byte_less_word: "byte c < 65536"
  using byte_less [of c] by linarith

lemma hex4_u_escape: "u < 65536 \<Longrightarrow> hex4 (drop 2 (u_escape u @ r)) = u"
  using hex_sum [of u] by (simp add: hex4_def u_escape_def mult.commute)

lemma unquote_u_escape:
  assumes "u < 65536" "u < 0xD800 \<or> 0xDFFF < u"
  shows "unquote (u_escape u @ r) = utf8_encode u @ unquote r"
proof -
  let ?h = "drop 2 (u_escape u @ r)"
  have e: "u_escape u @ r = bsl # CHR ''u'' # ?h" by (simp add: u_escape_def)
  have "unquote_u ?h = (utf8_encode u, 4)"
    using assms hex4_u_escape [of u r] by (auto simp: unquote_u_def Let_def)
  moreover have "drop 4 ?h = r" by (simp add: u_escape_def)
  ultimately show ?thesis by (subst e) (simp add: unquote.simps(2))
qed

lemma utf8_encode_ascii: "byte c < 128 \<Longrightarrow> utf8_encode (byte c) = [c]"
  by (simp add: utf8_encode_def byte_def)

lemma utf8_len_take:
  "utf8_len (c # cs) = Suc n \<Longrightarrow> utf8_len (c # take n cs @ r) = Suc n \<and> n \<le> length cs"
  by (auto simp: Let_def split: list.splits if_splits)

lemma utf8_len_one: "utf8_len (c # cs) = Suc 0 \<longleftrightarrow> byte c < 128"
  by (auto simp: Let_def split: list.splits if_splits)

lemma unquote_rune:
  assumes "utf8_len (c # cs) = Suc n" "c \<noteq> bsl"
  shows "unquote (c # take n cs @ r) = c # take n cs @ unquote r"
  using utf8_len_take [OF assms(1), of r] assms(2) by (simp add: unquote.simps(2) Let_def)

lemma unquote_plain: "byte c < 128 \<Longrightarrow> c \<noteq> bsl \<Longrightarrow> unquote (c # r) = c # unquote r"
  using unquote_rune [of c "[]" 0 r] by (simp add: Let_def)

lemma unquote_escape: "e \<noteq> CHR ''u'' \<Longrightarrow> unquote (bsl # e # r) = escape_char e # unquote r"
  by (simp add: unquote.simps(2))

lemma unquote_quote_ascii:
  "byte c < 128 \<Longrightarrow> unquote (quote_ascii c @ r) = c # unquote r"
  by (auto simp: quote_ascii_def unquote_escape escape_char_def unquote_u_escape utf8_encode_ascii
        unquote_plain)

lemma unquote_quote_wide:
  assumes "utf8_len (c # cs) = Suc n" "n \<noteq> 0"
  shows "unquote (quote_wide (c # take n cs) @ r) = c # take n cs @ unquote r"
proof -
  have "c \<noteq> bsl" using assms utf8_len_one [of c cs] by (auto simp: byte_def)
  then show ?thesis
    using unquote_rune [OF assms(1)] by (auto simp: quote_wide_def unquote_u_escape utf8_separators)
qed

lemma unquote_quote_body: "unquote (quote_body s) = to_valid s"
proof (induction s rule: quote_body.induct)
  case 1
  then show ?case by simp
next
  case (2 c cs)
  note rep = utf8_separators(3)
  consider "utf8_len (c # cs) = 0" | "utf8_len (c # cs) = 1"
    | n where "utf8_len (c # cs) = Suc n" "n \<noteq> 0"
    by (cases "utf8_len (c # cs)") (auto simp: neq0_conv)
  then show ?case
  proof cases
    case 1
    then show ?thesis using "2.IH"(1) rep
      by (simp add: quote_body.simps(2) to_valid.simps(2) unquote_u_escape)
  next
    case 2
    then show ?thesis using "2.IH"(2) utf8_len_one [of c cs]
      by (simp add: quote_body.simps(2) to_valid.simps(2) unquote_quote_ascii)
  next
    case 3
    then show ?thesis using "2.IH"(3) unquote_quote_wide [OF 3]
      by (simp add: quote_body.simps(2) to_valid.simps(2))
  qed
qed

section \<open>Marshalled text is well formed\<close>

lemma wf_lit_u_escape: "u < 65536 \<Longrightarrow> wf_lit (u_escape u @ r) = wf_lit r"
  by (simp add: u_escape_def)

lemma wf_lit_plain: "c \<noteq> quo \<Longrightarrow> c \<noteq> bsl \<Longrightarrow> 32 \<le> byte c \<Longrightarrow> wf_lit (c # r) = wf_lit r"
  by simp

lemma wf_lit_high: "\<forall>c \<in> set s. 128 \<le> byte c \<Longrightarrow> wf_lit (s @ r) = wf_lit r"
proof (induction s)
  case (Cons c s)
  then have "c \<noteq> quo" "c \<noteq> bsl" by (auto simp: byte_def)
  then show ?case using Cons by simp
qed simp

lemma utf8_high: "utf8_len (c # cs) = Suc n \<Longrightarrow> n \<noteq> 0 \<Longrightarrow> \<forall>d \<in> set (c # take n cs). 128 \<le> byte d"
  by (auto simp: Let_def cont_byte_def split: list.splits if_splits)

lemma wf_lit_quote_ascii: "wf_lit (quote_ascii c @ r) = wf_lit r"
proof -
  have "byte c < 65536" by (rule byte_less_word)
  then show ?thesis
    by (auto simp: quote_ascii_def simple_escape_def wf_lit_u_escape)
qed

lemma wf_lit_quote_body: "wf_lit (quote_body s)"
proof (induction s rule: quote_body.induct)
  case 1
  then show ?case by simp
next
  case (2 c cs)
  consider "utf8_len (c # cs) = 0" | "utf8_len (c # cs) = 1"
    | n where "utf8_len (c # cs) = Suc n" "n \<noteq> 0"
    by (cases "utf8_len (c # cs)") (auto simp: neq0_conv)
  then show ?case
  proof cases
    case 1
    then show ?thesis using "2.IH"(1) by (simp add: quote_body.simps(2) wf_lit_u_escape)
  next
    case 2
    then show ?thesis using "2.IH"(2) by (simp add: quote_body.simps(2) wf_lit_quote_ascii)
  next
    case 3
    then show ?thesis using "2.IH"(3) wf_lit_high [OF utf8_high [OF 3]]
      by (simp add: quote_body.simps(2) quote_wide_def wf_lit_u_escape)
  qed
qed

lemma num_run_digits: "\<forall>c \<in> set s. is_digit c \<Longrightarrow> num_run NInt s"
  by (induction s) auto

lemma digit_char_zero: "digit_char n = CHR ''0'' \<longleftrightarrow> n mod 10 = 0"
proof
  assume "digit_char n = CHR ''0''"
  then have "digit_val (digit_char n) = digit_val CHR ''0''" by simp
  then show "n mod 10 = 0" by (simp only: digit_val_digit_char) (simp add: digit_val_def byte_def)
qed (simp add: digit_char_def char_of_def bit_simps)

lemma nat_digits_lead: "0 < n \<Longrightarrow> \<exists>c cs. nat_digits n = c # cs \<and> c \<noteq> CHR ''0''"
proof (induction n rule: nat_digits.induct)
  case (1 n)
  show ?case
  proof (cases "n < 10")
    case True
    then show ?thesis using 1(2) by (subst nat_digits.simps) (simp add: digit_char_zero)
  next
    case False
    then have "0 < n div 10" by (simp add: div_greater_zero_iff)
    then obtain c cs where "nat_digits (n div 10) = c # cs" "c \<noteq> CHR ''0''"
      using 1(1) [OF False] by blast
    then show ?thesis using False by (subst nat_digits.simps) simp
  qed
qed

lemma nat_digits_run:
  "\<exists>c cs st. nat_digits n = c # cs \<and> is_digit c \<and> num_run st cs \<and>
     num_start c = Some st \<and> num_next NNeg c = Some st"
proof (cases "n = 0")
  case True
  have "nat_digits 0 = [CHR ''0'']" by (subst nat_digits.simps) (simp add: digit_char_zero)
  then show ?thesis using True by (simp add: num_start_def is_digit_def byte_def)
next
  case False
  then obtain c cs where c: "nat_digits n = c # cs" "c \<noteq> CHR ''0''" using nat_digits_lead by blast
  moreover have "\<forall>d \<in> set (c # cs). is_digit d" using nat_digits_digits [of n] c by simp
  moreover from this have "num_run NInt cs" "c \<noteq> CHR ''-''"
    by (auto intro!: num_run_digits simp: is_digit_def byte_def)
  ultimately show ?thesis by (auto simp: num_start_def)
qed

lemma wf_num_itoa [simp]: "wf_num (itoa i)"
proof -
  obtain c cs st where "nat_digits (nat \<bar>i\<bar>) = c # cs" "num_run st cs"
      "num_start c = Some st" "num_next NNeg c = Some st"
    using nat_digits_run by blast
  then show ?thesis by (cases "i < 0") (auto simp: itoa_def num_start_def)
qed

lemma parse_int_itoa:
  assumes "int64 i"
  shows "parse_int_lit (itoa i) = Some i"
proof -
  obtain c cs where c: "nat_digits (nat \<bar>i\<bar>) = c # cs" "is_digit c"
    using nat_digits_run [of "nat \<bar>i\<bar>"] by blast
  then have "c \<noteq> CHR ''-''" by (auto simp: is_digit_def byte_def)
  moreover have "list_all is_digit (c # cs)" using nat_digits_digits [of "nat \<bar>i\<bar>"] c
    by (simp add: list_all_iff)
  moreover have "digits_val (c # cs) = nat \<bar>i\<bar>" using c digits_val_nat_digits by metis
  ultimately show ?thesis using c assms by (cases "i < 0") (auto simp: itoa_def int64_def)
qed

lemma html_lit_plain:
  "c \<notin> {CHR ''<'', CHR ''>'', CHR ''&'', CHR 0xE2} \<Longrightarrow> html_lit (c # cs) = c # html_lit cs"
  by (auto simp: has_prefix_def)

lemma html_lit_hex: "is_hex c \<Longrightarrow> html_lit (c # cs) = c # html_lit cs"
  by (rule html_lit_plain) (auto simp: is_hex_def is_digit_def byte_def)

lemma html_lit_escape: "simple_escape c \<Longrightarrow> html_lit (c # cs) = c # html_lit cs"
  by (rule html_lit_plain) (auto simp: simple_escape_def)

declare html_lit.simps(2) [simp del]

lemma wf_lit_html: "wf_lit s \<Longrightarrow> wf_lit (html_lit s)"
proof (induction s rule: length_induct)
  case (1 s)
  show ?case
  proof (cases s)
    case (Cons c cs)
    show ?thesis
    proof (cases "c = bsl")
      case True
      then obtain e r where e: "cs = e # r" using 1(2) Cons by (cases cs) auto
      show ?thesis
      proof (cases "e = CHR ''u''")
        case True
        then obtain a b x d r' where h: "r = a # b # x # d # r'" "is_hex a" "is_hex b" "is_hex x" "is_hex d" "wf_lit r'"
          using 1(2) Cons \<open>c = bsl\<close> e by (auto split: list.splits)
        have "html_lit s = bsl # CHR ''u'' # a # b # x # d # html_lit r'"
          using h(2-5) unfolding Cons \<open>c = bsl\<close> e True h(1) by (simp add: html_lit_plain html_lit_hex)
        then show ?thesis using 1(1) h Cons e by simp
      next
        case False
        then have w: "simple_escape e" "wf_lit r" using 1(2) Cons \<open>c = bsl\<close> e by auto
        then have "html_lit s = bsl # e # html_lit r"
          unfolding Cons \<open>c = bsl\<close> e by (simp add: html_lit_plain html_lit_escape)
        then show ?thesis using 1(1) w Cons e False by simp
      qed
    next
      case False
      then have w: "c \<noteq> quo" "32 \<le> byte c" "wf_lit cs" using 1(2) Cons by auto
      have d: "wf_lit (drop 2 cs)" if "has_prefix (c # cs) (c # [p, q])" "128 \<le> byte p" "128 \<le> byte q" for p q
      proof -
        have "p \<noteq> bsl" "q \<noteq> bsl" using that by (auto simp: byte_def)
        then show ?thesis using that w by (auto simp: has_prefix_iff prefix_def)
      qed
      have "byte c < 65536" by (rule byte_less_word)
      moreover have "wf_lit (html_lit cs)" using 1(1) w Cons by simp
      moreover have "wf_lit (html_lit (drop 2 cs))"
        if "has_prefix (c # cs) [CHR 0xE2, CHR 0x80, CHR 0xA8] \<or> has_prefix (c # cs) [CHR 0xE2, CHR 0x80, CHR 0xA9]"
      proof -
        have "c = CHR 0xE2" using that by (auto simp: has_prefix_iff)
        then have "wf_lit (drop 2 cs)" using that d [of "CHR 0x80" "CHR 0xA8"] d [of "CHR 0x80" "CHR 0xA9"]
          by (auto simp: byte_def)
        then show ?thesis using 1(1) Cons by simp
      qed
      ultimately show ?thesis using w False Cons by (simp add: html_lit.simps(2) wf_lit_u_escape)
    qed
  qed simp
qed

lemma wf_html_json: "wf_json j \<Longrightarrow> wf_json (html_json j)"
  by (induction j rule: html_json.induct) (auto simp: wf_lit_html)

text \<open>A composed value whose raw parts are well formed.\<close>

fun wf_gv :: "gv \<Rightarrow> bool" where
  "wf_gv (GRaw j) = wf_json j"
| "wf_gv (GArr xs) = (\<forall>x \<in> set xs. wf_gv x)"
| "wf_gv (GMap kvs) = (\<forall>kv \<in> set kvs. wf_gv (snd kv))"
| "wf_gv (GStruct kvs) = (\<forall>kv \<in> set kvs. wf_gv (snd kv))"
| "wf_gv _ = True"

lemma wf_encode: "wf_gv v \<Longrightarrow> wf_json (encode v)"
  by (induction v) (auto simp: wf_html_json wf_lit_quote_body)

lemma hex_byte: "is_hex x \<Longrightarrow> 32 \<le> byte x"
  by (auto simp: is_hex_def is_digit_def)

lemma escape_byte: "simple_escape x \<Longrightarrow> 32 \<le> byte x"
  by (auto simp: simple_escape_def byte_def)

lemma wf_lit_bytes: "wf_lit s \<Longrightarrow> \<forall>c \<in> set s. 32 \<le> byte c"
proof (induction s rule: length_induct)
  case (1 s)
  have b: "32 \<le> byte bsl" "32 \<le> byte CHR ''u''" by (simp_all add: byte_def)
  show ?case
  proof (cases s)
    case (Cons c cs)
    show ?thesis
    proof (cases "c = bsl")
      case True
      then obtain e r where e: "cs = e # r" using 1(2) Cons by (cases cs) auto
      show ?thesis
      proof (cases "e = CHR ''u''")
        case True
        then obtain a b x d r' where h: "r = a # b # x # d # r'"
            "is_hex a" "is_hex b" "is_hex x" "is_hex d" "wf_lit r'"
          using 1(2) Cons \<open>c = bsl\<close> e by (auto split: list.splits)
        then have "\<forall>c \<in> set r'. 32 \<le> byte c" using spec [OF 1(1), of r'] Cons e by simp
        then show ?thesis using h b Cons \<open>c = bsl\<close> e True by (simp add: hex_byte)
      next
        case False
        then have w: "simple_escape e" "wf_lit r" using 1(2) Cons \<open>c = bsl\<close> e by auto
        then have "\<forall>c \<in> set r. 32 \<le> byte c" using spec [OF 1(1), of r] Cons e by simp
        then show ?thesis using w b Cons \<open>c = bsl\<close> e by (simp add: escape_byte)
      qed
    next
      case False
      then show ?thesis using spec [OF 1(1), of cs] 1(2) Cons by simp
    qed
  qed simp
qed

lemma num_next_byte: "num_next st c = Some st' \<Longrightarrow> 32 \<le> byte c"
  by (cases st) (auto simp: is_digit_def is_exp_def byte_def split: if_splits)

lemma num_run_bytes: "num_run st s \<Longrightarrow> c \<in> set s \<Longrightarrow> 32 \<le> byte c"
  by (induction s arbitrary: st) (auto split: option.splits dest: num_next_byte)

lemma wf_num_bytes: "wf_num s \<Longrightarrow> c \<in> set s \<Longrightarrow> 32 \<le> byte c"
  by (cases s) (auto simp: num_start_def is_digit_def byte_def split: option.splits if_splits dest: num_run_bytes)

lemma wf_tok_bytes: "wf_tok t \<Longrightarrow> c \<in> set (tok_text t) \<Longrightarrow> 32 \<le> byte c"
  by (cases t) (auto simp: byte_def dest: wf_lit_bytes wf_num_bytes)

lemma json_text_bytes: "wf_json j \<Longrightarrow> c \<in> set (json_text j) \<Longrightarrow> 32 \<le> byte c"
  by (auto simp: json_text_def toks_text_def dest: wf_toks wf_tok_bytes)

lemma marshal_bytes: "wf_gv v \<Longrightarrow> c \<in> set (marshal v) \<Longrightarrow> 32 \<le> byte c"
  by (auto simp: marshal_def dest: wf_encode json_text_bytes)

lemma marshal_one_line: "wf_gv v \<Longrightarrow> nl \<notin> set (marshal v) \<and> cr \<notin> set (marshal v)"
  using marshal_bytes [of v nl] marshal_bytes [of v cr] by (auto simp: byte_def)

lemma unmarshal_marshal:
  "wf_gv v \<Longrightarrow> depth (encode v) \<le> max_nesting \<Longrightarrow> unmarshal d (marshal v) a = d (encode v) a"
  by (simp add: unmarshal_def marshal_def json_parse_text wf_encode)

end
