(* ===== verification/Errclass.thy ===== *)
theory Errclass
  imports Codec
begin

text \<open>
  \<open>internal/errclass/errclass.go\<close>: the error classes, their construction from an upstream
  status or a network failure, and the redaction of secrets. The three regular expressions are
  written out as leftmost-first scanners over bytes.
\<close>

section \<open>Errors\<close>

datatype err_class =
    ClassAuth | ClassInvalidModel | ClassUnsupported | ClassRateLimit | ClassQuota
  | ClassBilling | ClassUpstream | ClassNetwork | ClassTranslation

fun class_text :: "err_class \<Rightarrow> string" where
  "class_text ClassAuth = ''auth_failure''"
| "class_text ClassInvalidModel = ''invalid_model''"
| "class_text ClassUnsupported = ''unsupported_protocol_or_parameter''"
| "class_text ClassRateLimit = ''rate_limit''"
| "class_text ClassQuota = ''quota_exhaustion''"
| "class_text ClassBilling = ''billing''"
| "class_text ClassUpstream = ''upstream_server_failure''"
| "class_text ClassNetwork = ''timeout_or_network_failure''"
| "class_text ClassTranslation = ''translation_failure''"

record err =
  e_class :: err_class
  e_message :: string
  e_status :: int
  e_retryable :: bool

definition mk_err :: "err_class \<Rightarrow> string \<Rightarrow> int \<Rightarrow> bool \<Rightarrow> err" where
  "mk_err c m st r = \<lparr>e_class = c, e_message = m, e_status = st, e_retryable = r\<rparr>"

definition error_text :: "err \<Rightarrow> string" where
  "error_text e = class_text (e_class e) @ '': '' @ e_message e"

section \<open>Redaction\<close>

subsection \<open>Case-insensitive words\<close>

text \<open>
  The bytes of \<open>s\<close> that match a lower-case ASCII word under \<open>(?i)\<close>: besides the ASCII
  capitals, k is matched by the Kelvin sign and s by the long s. Gives the matched bytes and
  the rest.
\<close>

fun cut_word :: "string \<Rightarrow> string \<Rightarrow> (string \<times> string) option" where
  "cut_word [] s = Some ([], s)"
| "cut_word (p # ps) [] = None"
| "cut_word (p # ps) (c # cs) =
     (if lower_byte c = p
      then map_option (\<lambda>(m, r). (c # m, r)) (cut_word ps cs)
      else if p = CHR ''k'' \<and> has_prefix (c # cs) [CHR 0xE2, CHR 0x84, CHR 0xAA]
      then map_option (\<lambda>(m, r). ([CHR 0xE2, CHR 0x84, CHR 0xAA] @ m, r)) (cut_word ps (drop 2 cs))
      else if p = CHR ''s'' \<and> has_prefix (c # cs) [CHR 0xC5, CHR 0xBF]
      then map_option (\<lambda>(m, r). ([CHR 0xC5, CHR 0xBF] @ m, r)) (cut_word ps (drop 1 cs))
      else None)"

text \<open>Go's \<open>\s\<close>: the vertical tab is not in it.\<close>

definition re_space :: "char \<Rightarrow> bool" where
  "re_space c = (c = CHR 0x20 \<or> c = CHR 0x09 \<or> c = nl \<or> c = CHR 0x0C \<or> c = cr)"

definition redacted :: string where
  "redacted = ''[redacted]''"

lemma cut_word_Some: "cut_word p s = Some (m, r) \<Longrightarrow> s = m @ r \<and> length p \<le> length m"
  by (induction p s arbitrary: m r rule: cut_word.induct)
    (fastforce simp: has_prefix_iff prefix_def split: if_splits)+

lemma cut_word_length: "cut_word p s = Some (m, r) \<Longrightarrow> p \<noteq> [] \<Longrightarrow> length r < length s"
  by (drule cut_word_Some) (cases p; auto)

subsection \<open>Bearer tokens\<close>

definition bearer_sep :: "char \<Rightarrow> bool" where
  "bearer_sep c = (c = CHR 0x20 \<or> c = CHR 0x09)"

definition bearer_tok :: "char \<Rightarrow> bool" where
  "bearer_tok c = (\<not> re_space c \<and> c \<noteq> CHR '','' \<and> c \<noteq> quo)"

function bearer_pass :: "string \<Rightarrow> string" where
  "bearer_pass s =
     (case s of
        [] \<Rightarrow> []
      | c # cs \<Rightarrow>
          (case cut_word ''bearer'' s of
             Some (m, r) \<Rightarrow> ''Bearer [redacted]'' @ bearer_pass (dropWhile bearer_tok (dropWhile bearer_sep r))
           | None \<Rightarrow> c # bearer_pass cs))"
  by pat_completeness auto
termination
  by (relation "measure length")
    (auto dest!: cut_word_length intro!: le_less_trans [OF length_dropWhile_le]
          simp del: cut_word.simps)

subsection \<open>x-api-key echoes\<close>

definition key_sep :: "char \<Rightarrow> bool" where
  "key_sep c = (c = quo \<or> c = CHR 0x27 \<or> c = CHR '':'' \<or> c = CHR ''='' \<or> c = CHR 0x20)"

definition key_byte :: "char \<Rightarrow> bool" where
  "key_byte c = (is_digit c \<or> (65 \<le> byte c \<and> byte c \<le> 90) \<or> (97 \<le> byte c \<and> byte c \<le> 122)
     \<or> c \<in> set ''_-.+/='')"

text \<open>The longest run of the value class (which the Kelvin sign and the long s fold into).\<close>

fun key_run :: "string \<Rightarrow> string" where
  "key_run [] = []"
| "key_run (c # cs) =
     (if key_byte c then c # key_run cs
      else if has_prefix (c # cs) [CHR 0xE2, CHR 0x84, CHR 0xAA]
      then [CHR 0xE2, CHR 0x84, CHR 0xAA] @ key_run (drop 2 cs)
      else if has_prefix (c # cs) [CHR 0xC5, CHR 0xBF]
      then [CHR 0xC5, CHR 0xBF] @ key_run (drop 1 cs)
      else [])"

definition redact_api_key :: "string \<Rightarrow> string" where
  "redact_api_key m =
     (let value = dropWhile key_sep (drop 9 m) in
      if (\<forall>c \<in> set value. \<not> is_digit c) \<or> length value < 8 then m
      else take (length m - length value) m @ redacted)"

text \<open>
  With no value byte after the separators the expression can still match by giving back
  separators up to an equals sign; that match has no digit and is put back unchanged, and no
  other match starts inside it, so the scan goes on after the name.
\<close>

function api_key_pass :: "string \<Rightarrow> string" where
  "api_key_pass s =
     (case s of
        [] \<Rightarrow> []
      | c # cs \<Rightarrow>
          (case cut_word ''x-api-key'' s of
             None \<Rightarrow> c # api_key_pass cs
           | Some (m, r) \<Rightarrow>
               (let v = key_run (dropWhile key_sep r) in
                if v = [] then m @ api_key_pass r
                else redact_api_key (m @ takeWhile key_sep r @ v)
                     @ api_key_pass (drop (length v) (dropWhile key_sep r)))))"
  by pat_completeness auto
termination
  apply (relation "measure length")
     apply (auto dest!: cut_word_length simp del: cut_word.simps)
  apply (meson diff_le_self le_less_trans length_dropWhile_le less_imp_diff_less)
  done

subsection \<open>Query parameters\<close>

definition query_tok :: "char \<Rightarrow> bool" where
  "query_tok c = (\<not> re_space c \<and> c \<noteq> CHR ''&'' \<and> c \<noteq> quo \<and> c \<noteq> CHR 0x27)"

definition query_words :: "string list" where
  "query_words = [''api_key='', ''api-key='', ''apikey='', ''key='',
     ''access_token='', ''access-token='', ''accesstoken='', ''token='']"

definition query_name :: "string \<Rightarrow> (string \<times> string) option" where
  "query_name s =
     (case s of
        [] \<Rightarrow> None
      | c # cs \<Rightarrow>
          if c = CHR ''?'' \<or> c = CHR ''&''
          then (case List.find (\<lambda>w. cut_word w cs \<noteq> None) query_words of
                  None \<Rightarrow> None
                | Some w \<Rightarrow> map_option (\<lambda>(m, r). (c # m, r)) (cut_word w cs))
          else None)"

lemma query_name_Some: "query_name s = Some (m, r) \<Longrightarrow> s = m @ r \<and> m \<noteq> []"
  by (auto simp: query_name_def split: list.splits if_splits option.splits dest!: cut_word_Some)

function query_pass :: "string \<Rightarrow> string" where
  "query_pass s =
     (case s of
        [] \<Rightarrow> []
      | c # cs \<Rightarrow>
          (case query_name s of
             Some (m, r) \<Rightarrow>
               (if takeWhile query_tok r = [] then c # query_pass cs
                else m @ redacted @ query_pass (dropWhile query_tok r))
           | None \<Rightarrow> c # query_pass cs))"
  by pat_completeness auto
termination
  apply (relation "measure length")
     apply (auto dest!: query_name_Some)
  apply (metis length_append length_dropWhile_le length_greater_0_conv length_Cons less_add_same_cancel2 le_less_trans)
  done

declare bearer_pass.simps [simp del] api_key_pass.simps [simp del] query_pass.simps [simp del]

definition redact :: "string \<Rightarrow> string" where
  "redact msg = query_pass (api_key_pass (bearer_pass msg))"

section \<open>Constructors\<close>

definition from_status :: "int \<Rightarrow> string \<Rightarrow> err" where
  "from_status status message =
     (let msg = redact message;
          quota = contains (to_lower msg) ''quota'';
          quota_class = (\<lambda>base. if quota then ClassQuota else base)
      in if status = 401 then mk_err ClassAuth msg status True
         else if status = 403 then mk_err (quota_class ClassAuth) msg status True
         else if status = 402 then mk_err (quota_class ClassBilling) msg status True
         else if status = 404 then mk_err ClassInvalidModel msg status False
         else if status = 429 then mk_err (quota_class ClassRateLimit) msg status True
         else if status \<ge> 500 then mk_err ClassUpstream msg status True
         else mk_err ClassUnsupported msg status False)"

text \<open>The argument is the text of the error, \<open>None\<close> for a nil error.\<close>

definition from_network :: "string option \<Rightarrow> err" where
  "from_network e = mk_err ClassNetwork (case e of None \<Rightarrow> [] | Some m \<Rightarrow> redact m) 0 True"

definition post_first_byte_network :: "string \<Rightarrow> err" where
  "post_first_byte_network msg = mk_err ClassNetwork (redact msg) 0 False"

definition translation :: "string \<Rightarrow> err" where
  "translation msg = mk_err ClassTranslation (redact msg) 0 False"

definition upstream_fallback :: "string \<Rightarrow> err" where
  "upstream_fallback msg = mk_err ClassUpstream (redact msg) 0 True"

record envelope_error =
  v_code :: string
  v_message :: string
  v_retryable :: bool
  v_status :: int

definition to_envelope_error :: "err \<Rightarrow> envelope_error" where
  "to_envelope_error e =
     \<lparr>v_code = class_text (e_class e), v_message = redact (e_message e),
      v_retryable = e_retryable e, v_status = e_status e\<rparr>"

section \<open>Scanners that replace whole words\<close>

text \<open>
  A scanner that copies bytes and replaces matches by text starting with a byte of \<open>starts\<close>:
  a word that has no such byte occurs in the output only where it occurs in the input.
\<close>

locale scan_pass =
  fixes scan :: "string \<Rightarrow> string" and starts :: "char set"
  assumes scan_step: "scan s = d # y \<Longrightarrow> d \<in> starts \<or> (\<exists>ds. s = d # ds \<and> y = scan ds)"
    and starts_ascii: "d \<in> starts \<Longrightarrow> byte d < 128"
begin

lemma scan_copy: "scan s = d # y \<Longrightarrow> d \<notin> starts \<Longrightarrow> \<exists>ds. s = d # ds \<and> y = scan ds"
  using scan_step by blast

lemma scan_copy_wide:
  assumes "scan s = [a, b] @ y" "128 \<le> byte a" "128 \<le> byte b"
  shows "\<exists>ds. s = [a, b] @ ds \<and> y = scan ds"
proof -
  have "a \<notin> starts" "b \<notin> starts" using assms starts_ascii by force+
  then show ?thesis using assms scan_copy by (metis append_Cons append_Nil)
qed

lemma cut_word_scan:
  assumes "cut_word w (scan s) = Some (m, r)"
    and "\<forall>d \<in> starts. lower_byte d \<notin> set w"
  shows "\<exists>r'. cut_word w s = Some (m, r') \<and> r = scan r'"
  using assms
proof (induction w arbitrary: s m)
  case Nil
  then show ?case by auto
next
  case (Cons p ps)
  obtain c y where cy: "scan s = c # y" using Cons.prems(1) by (cases "scan s") auto
  consider (ascii) "lower_byte c = p"
    | (kelvin) "lower_byte c \<noteq> p" "p = CHR ''k''" "has_prefix (c # y) [CHR 0xE2, CHR 0x84, CHR 0xAA]"
    | (long_s) "lower_byte c \<noteq> p" "p = CHR ''s''" "has_prefix (c # y) [CHR 0xC5, CHR 0xBF]"
    using Cons.prems(1) cy by (auto split: if_splits)
  then show ?case
  proof cases
    case ascii
    then have "c \<notin> starts" using Cons.prems(2) by auto
    then obtain ds where ds: "s = c # ds" "y = scan ds" using scan_copy [OF cy] by auto
    obtain m' where "cut_word ps (scan ds) = Some (m', r)" "m = c # m'"
      using Cons.prems(1) cy ascii ds by auto
    then show ?thesis using Cons.IH [of ds m'] Cons.prems(2) ascii ds by auto
  next
    case kelvin
    then obtain z where z: "c = CHR 0xE2" "y = [CHR 0x84, CHR 0xAA] @ z"
      by (auto simp: has_prefix_iff prefix_def)
    then have "c \<notin> starts" using starts_ascii [of c] by (auto simp: byte_def)
    then obtain ds where ds: "s = c # ds" "y = scan ds" using scan_copy [OF cy] by auto
    then obtain es where es: "ds = [CHR 0x84, CHR 0xAA] @ es" "z = scan es"
      using scan_copy_wide [of ds "CHR 0x84" "CHR 0xAA" z] z by (auto simp: byte_def)
    obtain m' where "cut_word ps (scan es) = Some (m', r)" "m = [CHR 0xE2, CHR 0x84, CHR 0xAA] @ m'"
      using Cons.prems(1) cy kelvin z es by auto
    then show ?thesis using Cons.IH [of es m'] Cons.prems(2) kelvin ds es z by (auto simp: has_prefix_iff)
  next
    case long_s
    then obtain z where z: "c = CHR 0xC5" "y = CHR 0xBF # z"
      by (auto simp: has_prefix_iff prefix_def)
    then have "c \<notin> starts" using starts_ascii [of c] by (auto simp: byte_def)
    then obtain ds where ds: "s = c # ds" "y = scan ds" using scan_copy [OF cy] by auto
    have "CHR 0xBF \<notin> starts" using starts_ascii [of "CHR 0xBF"] by (auto simp: byte_def)
    then obtain es where es: "ds = CHR 0xBF # es" "z = scan es"
      using scan_copy [of ds "CHR 0xBF" z] z ds by auto
    obtain m' where "cut_word ps (scan es) = Some (m', r)" "m = [CHR 0xC5, CHR 0xBF] @ m'"
      using Cons.prems(1) cy long_s z es by auto
    then show ?thesis using Cons.IH [of es m'] Cons.prems(2) long_s ds es z by (auto simp: has_prefix_iff)
  qed
qed

end

lemma lower_B: "lower_byte CHR ''B'' = CHR ''b''"
  by (simp add: lower_byte_def byte_def char_of_def bit_simps)

lemma bearer_pass_Nil [simp]: "bearer_pass [] = []"
  by (simp add: bearer_pass.simps)

lemma bearer_pass_Cons:
  "bearer_pass (c # cs) =
     (case cut_word ''bearer'' (c # cs) of
        Some (m, r) \<Rightarrow> ''Bearer [redacted]'' @ bearer_pass (dropWhile bearer_tok (dropWhile bearer_sep r))
      | None \<Rightarrow> c # bearer_pass cs)"
  by (subst bearer_pass.simps) (simp del: cut_word.simps)

interpretation bearer: scan_pass bearer_pass "{CHR ''B''}"
proof
  fix s d y assume a: "bearer_pass s = d # y"
  show "d \<in> {CHR ''B''} \<or> (\<exists>ds. s = d # ds \<and> y = bearer_pass ds)"
  proof (cases s)
    case (Cons c cs)
    then show ?thesis using a
      by (cases "cut_word ''bearer'' (c # cs)") (auto simp: bearer_pass_Cons simp del: cut_word.simps)
  qed (use a in simp)
qed (auto simp: byte_def)

lemma query_pass_Nil [simp]: "query_pass [] = []"
  by (simp add: query_pass.simps)

lemma query_pass_Cons:
  "query_pass (c # cs) =
     (case query_name (c # cs) of
        Some (m, r) \<Rightarrow>
          (if takeWhile query_tok r = [] then c # query_pass cs
           else m @ redacted @ query_pass (dropWhile query_tok r))
      | None \<Rightarrow> c # query_pass cs)"
  by (subst query_pass.simps) simp

lemma query_name_hd: "query_name (c # cs) = Some (m, r) \<Longrightarrow> c \<in> {CHR ''?'', CHR ''&''} \<and> (\<exists>m'. m = c # m')"
  by (auto simp: query_name_def split: if_splits option.splits)

interpretation query: scan_pass query_pass "{CHR ''?'', CHR ''&''}"
proof
  fix s d y assume a: "query_pass s = d # y"
  show "d \<in> {CHR ''?'', CHR ''&''} \<or> (\<exists>ds. s = d # ds \<and> y = query_pass ds)"
  proof (cases s)
    case (Cons c cs)
    then show ?thesis using a query_name_hd [of c cs]
      by (cases "query_name (c # cs)") (auto simp: query_pass_Cons split: if_splits)
  qed (use a in simp)
qed (auto simp: byte_def)

text \<open>Bearer tokens are gone: every scheme word left is followed by the placeholder alone.\<close>

definition bearer_clean :: "string \<Rightarrow> bool" where
  "bearer_clean rest =
     (cut_word ''bearer'' rest = None \<or>
      (\<exists>r. rest = ''Bearer [redacted]'' @ r \<and> (r = [] \<or> \<not> bearer_tok (hd r))))"

lemma hd_bearer_pass: "s = [] \<or> \<not> bearer_tok (hd s) \<Longrightarrow> bearer_pass s = [] \<or> \<not> bearer_tok (hd (bearer_pass s))"
proof (cases s)
  case (Cons c cs)
  assume "s = [] \<or> \<not> bearer_tok (hd s)"
  then have "\<not> bearer_tok c" using Cons by simp
  then have "cut_word ''bearer'' (c # cs) = None"
    by (auto simp: bearer_tok_def re_space_def lower_byte_def byte_def)
  then show ?thesis using Cons \<open>\<not> bearer_tok c\<close> by (simp add: bearer_pass_Cons del: cut_word.simps)
qed simp

lemma cut_bearer_none: "lower_byte c \<noteq> CHR ''b'' \<Longrightarrow> cut_word ''bearer'' (c # cs) = None"
  by simp

lemma bearer_suffix_clean:
  assumes "suffix x ''Bearer [redacted]''" "x \<noteq> []" "x \<noteq> ''Bearer [redacted]''"
  shows "lower_byte (hd x) \<noteq> CHR ''b''"
proof -
  have "suffix x ''earer [redacted]''" using assms by (simp add: suffix_Cons [of x "CHR ''B''"])
  then have "hd x \<in> set ''earer [redacted]''" using assms(2) set_mono_suffix hd_in_set by blast
  then show ?thesis by (auto simp: lower_byte_def byte_def)
qed

lemma bearer_pass_clean: "suffix rest (bearer_pass s) \<Longrightarrow> bearer_clean rest"
proof (induction s rule: bearer_pass.induct)
  case (1 s)
  note IH2 = 1(2)
  show ?case
  proof (cases s)
    case (Cons c cs)
    show ?thesis
    proof (cases "cut_word ''bearer'' (c # cs)")
      case None
      then have out: "bearer_pass s = c # bearer_pass cs" using Cons by (simp add: bearer_pass_Cons del: cut_word.simps)
      show ?thesis
      proof (cases "rest = c # bearer_pass cs")
        case True
        have "cut_word ''bearer'' rest = None"
        proof (rule ccontr)
          assume "cut_word ''bearer'' rest \<noteq> None"
          then obtain m r where "cut_word ''earer'' (bearer_pass cs) = Some (m, r)" "lower_byte c = CHR ''b''"
            unfolding True by (auto split: if_splits)
          then obtain r' where "cut_word ''earer'' cs = Some (m, r')"
            using bearer.cut_word_scan [of "''earer''" cs m r] by (auto simp: lower_B)
          then show False using None \<open>lower_byte c = CHR ''b''\<close> by simp
        qed
        then show ?thesis by (simp add: bearer_clean_def)
      next
        case False
        then have "suffix rest (bearer_pass cs)" using 1(3) out by (auto simp: suffix_Cons)
        moreover have "cut_word ''bearer'' s = None" using None by (simp only: Cons)
        ultimately show ?thesis by (intro 1(1) [OF Cons])
      qed
    next
      case (Some mr)
      obtain m r where mr: "mr = (m, r)" by (cases mr)
      let ?t = "dropWhile bearer_tok (dropWhile bearer_sep r)"
      have out: "bearer_pass s = ''Bearer [redacted]'' @ bearer_pass ?t"
        using Cons Some mr by (simp add: bearer_pass_Cons del: cut_word.simps)
      consider "suffix rest (bearer_pass ?t)"
        | x where "x \<noteq> []" "suffix x ''Bearer [redacted]''" "rest = x @ bearer_pass ?t"
        using suffix_cases [of rest "''Bearer [redacted]''" "bearer_pass ?t"] 1(3) out by auto
      then show ?thesis
      proof cases
        case 1
        moreover have "cut_word ''bearer'' s = Some mr" using Some by (simp only: Cons)
        ultimately show ?thesis by (intro IH2 [OF Cons _ mr [symmetric]])
      next
        case 2
        show ?thesis
        proof (cases "x = ''Bearer [redacted]''")
          case True
          then show ?thesis using 2(3) hd_bearer_pass [OF drop_while_hd [of bearer_tok "dropWhile bearer_sep r"]]
            by (auto simp: bearer_clean_def)
        next
          case False
          then have "cut_word ''bearer'' rest = None"
            using bearer_suffix_clean [OF 2(2,1) False] 2 cut_bearer_none by (cases x) auto
          then show ?thesis by (simp add: bearer_clean_def)
        qed
      qed
    qed
  qed (use 1(3) in \<open>simp add: bearer_clean_def\<close>)
qed

lemma lower_wide: "lower_byte CHR 0xE2 = CHR 0xE2" "lower_byte CHR 0xC5 = CHR 0xC5"
  by (simp_all add: lower_byte_def byte_def)

lemma cut_word_comparable:
  "cut_word w s \<noteq> None \<Longrightarrow> cut_word w' s \<noteq> None \<Longrightarrow> \<forall>b \<in> set w \<union> set w'. byte b < 128 \<Longrightarrow>
     prefix w w' \<or> prefix w' w"
proof (induction w s arbitrary: w' rule: cut_word.induct)
  case (3 p ps c cs)
  have wide: "p \<noteq> CHR 0xE2" "p \<noteq> CHR 0xC5" using 3(6) by (auto simp: byte_def)
  show ?case
  proof (cases w')
    case (Cons q qs)
    moreover have "q \<noteq> CHR 0xE2" "q \<noteq> CHR 0xC5" using 3(6) Cons by (auto simp: byte_def)
    ultimately show ?thesis using 3 wide by (auto simp: has_prefix_iff lower_wide split: if_splits)
  qed simp
qed auto

lemma query_words_free: "\<forall>w \<in> set query_words. \<forall>w' \<in> set query_words. prefix w w' \<longrightarrow> w = w'"
  by (simp add: query_words_def)

lemma query_words_ascii: "\<forall>w \<in> set query_words. \<forall>b \<in> set w. byte b < 128"
  by (simp add: query_words_def byte_def)

lemma find_word:
  assumes "w \<in> set query_words" "cut_word w s \<noteq> None"
  shows "List.find (\<lambda>w. cut_word w s \<noteq> None) query_words = Some w"
proof -
  obtain w' where w': "List.find (\<lambda>w. cut_word w s \<noteq> None) query_words = Some w'"
    using find_exists [of w query_words "\<lambda>w. cut_word w s \<noteq> None"] assms by blast
  then have i: "w' \<in> set query_words" "cut_word w' s \<noteq> None" using find_SomeD by fastforce+
  then have "prefix w w' \<or> prefix w' w"
    using cut_word_comparable [OF assms(2) i(2)] query_words_ascii assms(1) by blast
  then have "w' = w" using assms(1) i(1) query_words_free by blast
  then show ?thesis using w' by simp
qed

lemma query_word_plain: "w \<in> set query_words \<Longrightarrow> \<forall>d \<in> {CHR ''?'', CHR ''&''}. lower_byte d \<notin> set w"
proof -
  have "\<forall>w \<in> set query_words. CHR ''?'' \<notin> set w \<and> CHR ''&'' \<notin> set w"
    by (simp add: query_words_def)
  moreover have "lower_byte CHR ''?'' = CHR ''?''" "lower_byte CHR ''&'' = CHR ''&''"
    by (simp_all add: lower_byte_def byte_def)
  ultimately show "w \<in> set query_words \<Longrightarrow> ?thesis" by auto
qed

lemma query_name_scan:
  assumes "query_name (c # query_pass cs) = Some (m, r)"
  shows "\<exists>r'. query_name (c # cs) = Some (m, r') \<and> r = query_pass r'"
proof -
  obtain w m' where w: "List.find (\<lambda>w. cut_word w (query_pass cs) \<noteq> None) query_words = Some w"
      "cut_word w (query_pass cs) = Some (m', r)" "m = c # m'" and c: "c = CHR ''?'' \<or> c = CHR ''&''"
    using assms by (auto simp: query_name_def split: if_splits option.splits)
  then have "w \<in> set query_words" using find_SomeD by fast
  moreover from this obtain r' where "cut_word w cs = Some (m', r')" "r = query_pass r'"
    using query.cut_word_scan [OF w(2) query_word_plain] by blast
  ultimately show ?thesis using c w(3) find_word [of w cs] by (simp add: query_name_def)
qed

definition query_clean :: "string \<Rightarrow> bool" where
  "query_clean rest =
     (case query_name rest of None \<Rightarrow> True | Some (m, r) \<Rightarrow> takeWhile query_tok r \<in> {[], redacted})"

lemma query_clean_hd: "c \<noteq> CHR ''?'' \<Longrightarrow> c \<noteq> CHR ''&'' \<Longrightarrow> query_clean (c # cs)"
  by (simp add: query_clean_def query_name_def)

lemma hd_query_pass: "s = [] \<or> \<not> query_tok (hd s) \<Longrightarrow> query_pass s = [] \<or> \<not> query_tok (hd (query_pass s))"
proof (cases s)
  case (Cons c cs)
  assume "s = [] \<or> \<not> query_tok (hd s)"
  then have "\<not> query_tok c" using Cons by simp
  then show ?thesis
  proof (cases "query_name (c # cs)")
    case (Some mr)
    obtain m r where "mr = (m, r)" by (cases mr)
    then show ?thesis using Some Cons \<open>\<not> query_tok c\<close> query_name_hd [of c cs m r]
      by (auto simp: query_pass_Cons)
  qed (simp add: Cons query_pass_Cons)
qed simp

lemma redacted_query: "\<forall>c \<in> set redacted. query_tok c"
  by (simp add: redacted_def query_tok_def re_space_def)

lemma query_name_split:
  "query_name (c # cs) = Some (m, r) \<Longrightarrow>
     \<exists>w m'. m = c # m' \<and> w \<in> set query_words \<and> cs = m' @ r \<and> cut_word w cs = Some (m', r)"
  by (auto simp: query_name_def split: if_splits option.splits dest: cut_word_Some find_SomeD)

lemma cut_word_exact: "cut_word w s = Some (m, r) \<Longrightarrow> cut_word w (m @ z) = Some (m, z)"
proof (induction w s arbitrary: m r rule: cut_word.induct)
  case (3 p ps c cs)
  then show ?case by (auto simp: has_prefix_iff prefix_def lower_wide split: if_splits)
qed auto

lemma cut_word_bytes: "cut_word w s = Some (m, r) \<Longrightarrow> b \<in> set m \<Longrightarrow>
    lower_byte b \<in> set w \<or> b \<in> {CHR 0xE2, CHR 0x84, CHR 0xAA, CHR 0xC5, CHR 0xBF}"
proof (induction w s arbitrary: m r rule: cut_word.induct)
  case (3 p ps c cs)
  then show ?case by (auto split: if_splits)
qed auto

lemma query_name_plain: "query_name (c # cs) = Some (c # m', r) \<Longrightarrow> b \<in> set m' \<Longrightarrow> b \<noteq> CHR ''?'' \<and> b \<noteq> CHR ''&''"
  using query_name_split [of c cs "c # m'" r] cut_word_bytes [of _ cs m' r b] query_word_plain by fastforce

lemma query_name_again: "query_name (c # cs) = Some (c # m', r) \<Longrightarrow> query_name (c # m' @ z) = Some (c # m', z)"
proof -
  assume a: "query_name (c # cs) = Some (c # m', r)"
  then obtain w where w: "w \<in> set query_words" "cut_word w cs = Some (m', r)"
    using query_name_split by blast
  have "List.find (\<lambda>w. cut_word w (m' @ z) \<noteq> None) query_words = Some w"
    using find_word [of w "m' @ z"] cut_word_exact [OF w(2)] w(1) by simp
  then show ?thesis using a cut_word_exact [OF w(2), of z] by (auto simp: query_name_def split: if_splits)
qed

lemma query_pass_clean: "suffix rest (query_pass s) \<Longrightarrow> query_clean rest"
proof (induction s rule: query_pass.induct)
  case (1 s)
  show ?case
  proof (cases s)
    case (Cons c cs)
    consider (copy) "query_pass s = c # query_pass cs" "\<And>m r. query_name s = Some (m, r) \<Longrightarrow> takeWhile query_tok r = []"
      | (repl) m' r where "query_name s = Some (c # m', r)" "takeWhile query_tok r \<noteq> []"
          "query_pass s = c # m' @ redacted @ query_pass (dropWhile query_tok r)"
    proof (cases "query_name (c # cs)")
      case None
      then show ?thesis using that(1) Cons by (simp add: query_pass_Cons)
    next
      case (Some mr)
      then obtain m' r where "mr = (c # m', r)" using query_name_hd [of c cs] by (cases mr) blast
      then show ?thesis using that Cons Some by (cases "takeWhile query_tok r = []") (auto simp: query_pass_Cons)
    qed
    then show ?thesis
    proof cases
      case copy
      have tail: "query_clean rest" if "suffix rest (query_pass cs)"
        using that copy(2) 1(1,2) Cons by (cases "query_name s") fastforce+
      moreover have "query_clean (c # query_pass cs)"
      proof (cases "query_name (c # query_pass cs)")
        case (Some mr)
        obtain m r where mr: "mr = (m, r)" by (cases mr)
        then obtain r' where r': "query_name s = Some (m, r')" "r = query_pass r'"
          using query_name_scan [of c cs m r] Some Cons by auto
        then have "r' = [] \<or> \<not> query_tok (hd r')" using copy(2) [OF r'(1)] by (cases r') (auto split: if_splits)
        then have "takeWhile query_tok r = []" using hd_query_pass [of r'] r'(2) by (cases "query_pass r'") auto
        then show ?thesis using Some mr by (simp add: query_clean_def)
      qed (simp add: query_clean_def)
      ultimately show ?thesis using 1(4) copy(1) by (auto simp: suffix_Cons)
    next
      case repl
      let ?t = "dropWhile query_tok r"
      have tail: "query_clean rest" if "suffix rest (query_pass ?t)"
        using that 1(3) [OF Cons repl(1)] repl(2) by simp
      have hd: "query_clean (c # m' @ redacted @ query_pass ?t)"
        using query_name_again [of c cs m' r] repl(1) Cons
          take_while_stop [OF hd_query_pass [OF drop_while_hd] redacted_query]
        by (simp add: query_clean_def)
      consider "suffix rest (query_pass ?t)" | "rest = c # m' @ redacted @ query_pass ?t"
        | x where "x \<noteq> []" "suffix x (m' @ redacted)" "rest = x @ query_pass ?t"
        using suffix_cases [of rest "m' @ redacted" "query_pass ?t"] 1(4) repl(3) by (auto simp: suffix_Cons)
      then show ?thesis
      proof cases
        case 3
        have "hd x \<in> set (m' @ redacted)" by (rule subsetD [OF set_mono_suffix [OF 3(2)] hd_in_set [OF 3(1)]])
        then have "hd x \<in> set m' \<union> set redacted" by simp
        then have "hd x \<noteq> CHR ''?'' \<and> hd x \<noteq> CHR ''&''"
          using query_name_plain [of c cs m' r "hd x"] repl(1) Cons by (auto simp: redacted_def)
        then show ?thesis using 3 query_clean_hd by (cases x) auto
      qed (use tail hd in auto)
    qed
  qed (use 1(4) in \<open>simp add: query_clean_def query_name_def\<close>)
qed

section \<open>Properties\<close>

text \<open>
  C33. Every query parameter that names a secret (api_key, key, access_token, token in any case and
  spelling) carries either no value or exactly the placeholder in a redacted message, wherever
  in the message it stands.
\<close>

theorem redact_query_secret:
  assumes "redact msg = before @ rest" "query_name rest = Some (name, value)"
  shows "takeWhile query_tok value \<in> {[], redacted}"
  using query_pass_clean [of rest "api_key_pass (bearer_pass msg)"] assms
  by (auto simp: redact_def query_clean_def suffix_def)

definition url_msg :: string where
  "url_msg = ''?token=ab''"

lemma url_msg_redacted: "redact url_msg = ''?token='' @ redacted"
proof -
  have b: "bearer_pass url_msg = url_msg"
    by (simp add: url_msg_def bearer_pass_Cons lower_byte_def byte_def)
  have a: "api_key_pass url_msg = url_msg"
    by (simp add: url_msg_def api_key_pass.simps lower_byte_def byte_def)
  have q: "query_pass url_msg = ''?token='' @ redacted"
    by (simp add: url_msg_def query_pass_Cons query_name_def query_words_def lower_byte_def byte_def
      query_tok_def re_space_def has_prefix_def)
  show ?thesis by (simp add: redact_def a b q)
qed

lemma redact_query_secret_witness:
  "redact url_msg = [] @ ''?token='' @ redacted \<and> takeWhile query_tok redacted \<in> {[], redacted}"
proof
  show r: "redact url_msg = [] @ ''?token='' @ redacted" by (simp add: url_msg_redacted)
  have "query_name (''?token='' @ redacted) = Some (''?token='', redacted)"
    by (simp add: query_name_def query_words_def lower_byte_def byte_def has_prefix_def)
  then show "takeWhile query_tok redacted \<in> {[], redacted}" by (rule redact_query_secret [OF r])
qed

text \<open>
  After the bearer pass every remaining occurrence of the scheme word (in any case) is the
  canonical one followed by the placeholder, and what comes next cannot belong to a token.
\<close>

theorem bearer_pass_secret:
  assumes "bearer_pass msg = before @ rest" "cut_word ''bearer'' rest = Some (scheme, after)"
  shows "scheme = ''Bearer'' \<and> (\<exists>r. after = '' [redacted]'' @ r \<and> (r = [] \<or> \<not> bearer_tok (hd r)))"
proof -
  have "bearer_clean rest" using bearer_pass_clean [of rest msg] assms(1) by (auto simp: suffix_def)
  then obtain r where r: "rest = ''Bearer [redacted]'' @ r" "r = [] \<or> \<not> bearer_tok (hd r)"
    using assms(2) by (auto simp: bearer_clean_def)
  have "cut_word ''bearer'' (''Bearer [redacted]'' @ r) = Some (''Bearer'', '' [redacted]'' @ r)"
    by (simp add: lower_B) (simp add: lower_byte_def byte_def)
  then show ?thesis using assms(2) r by auto
qed

lemma bearer_pass_secret_witness:
  "bearer_pass ''Bearer x'' = [] @ ''Bearer [redacted]'' \<and> ''Bearer'' = ''Bearer''
   \<and> (\<exists>r. '' [redacted]'' = '' [redacted]'' @ r \<and> (r = [] \<or> \<not> bearer_tok (hd r)))"
proof (rule conjI)
  show b: "bearer_pass ''Bearer x'' = [] @ ''Bearer [redacted]''"
    by (simp add: bearer_pass_Cons lower_B) (simp add: lower_byte_def byte_def bearer_tok_def bearer_sep_def re_space_def)
  have "cut_word ''bearer'' ''Bearer [redacted]'' = Some (''Bearer'', '' [redacted]'')"
    by (simp add: lower_B) (simp add: lower_byte_def byte_def)
  then show "''Bearer'' = ''Bearer'' \<and> (\<exists>r. '' [redacted]'' = '' [redacted]'' @ r \<and> (r = [] \<or> \<not> bearer_tok (hd r)))"
    by (rule bearer_pass_secret [OF b])
qed

text \<open>
  The classification of an upstream status: the status and the redacted message are kept, a
  quota message upgrades exactly 402, 403 and 429, and the error is retryable exactly when it
  is neither an unknown model nor an unsupported request, that is for the authentication,
  billing and rate statuses and for every status from 500 on.
\<close>

theorem from_status_classified:
  "e_status (from_status st m) = st \<and> e_message (from_status st m) = redact m
   \<and> e_retryable (from_status st m) = (e_class (from_status st m) \<notin> {ClassInvalidModel, ClassUnsupported})
   \<and> e_retryable (from_status st m) = (st \<in> {401, 402, 403, 429} \<or> 500 \<le> st)
   \<and> (e_class (from_status st m) = ClassQuota) = (st \<in> {402, 403, 429} \<and> contains (to_lower (redact m)) ''quota'')
   \<and> e_class (from_status st m) \<notin> {ClassNetwork, ClassTranslation}"
  by (auto simp: from_status_def mk_err_def Let_def)

definition leak_msg :: string where
  "leak_msg = ''?key=x-api-key x-api-key: 12345678''"

definition leak_once :: string where
  "leak_once = ''?key=[redacted] x-api-key: 12345678''"

lemma leak_eval:
  "bearer_pass leak_msg = leak_msg" "api_key_pass leak_msg = leak_msg" "query_pass leak_msg = leak_once"
  by (simp_all add: leak_msg_def leak_once_def bearer_pass_Cons api_key_pass.simps query_pass_Cons query_name_def
     query_words_def lower_byte_def byte_def query_tok_def re_space_def has_prefix_def key_sep_def key_byte_def
     is_digit_def redact_api_key_def redacted_def)

lemma leak_again:
  "bearer_pass leak_once = leak_once" "api_key_pass leak_once = ''?key=[redacted] x-api-key: [redacted]''"
  "query_pass ''?key=[redacted] x-api-key: [redacted]'' = ''?key=[redacted] x-api-key: [redacted]''"
  by (simp_all add: leak_msg_def leak_once_def bearer_pass_Cons api_key_pass.simps query_pass_Cons query_name_def
     query_words_def lower_byte_def byte_def query_tok_def re_space_def has_prefix_def key_sep_def key_byte_def
     is_digit_def redact_api_key_def redacted_def)

text \<open>
  Redaction is not idempotent, although the envelope edge relies on it: a header name that
  is itself the value of another header name hides the key behind it from the first pass.
\<close>

theorem redact_not_idempotent:
  "redact leak_msg = ''?key=[redacted] x-api-key: 12345678''
   \<and> redact (redact leak_msg) = ''?key=[redacted] x-api-key: [redacted]''"
  by (simp only: redact_def leak_eval leak_again leak_once_def [symmetric])

end
