(* ===== verification/Thinking.thy ===== *)
theory Thinking
  imports Errclass
begin

text \<open>
  \<open>internal/thinking/thinking.go\<close>: the conversion between thinking budgets and effort
  levels and the validation of a declared effort. Go's \<open>int\<close> and \<open>int64\<close> budgets are
  only compared and copied here, so they are \<open>int\<close>.
\<close>

section \<open>Tables\<close>

text \<open>The SDK's capability object (nil is \<open>None\<close> in the operations).\<close>

record thinking_support =
  ts_min :: int
  ts_max :: int
  zero_allowed :: bool
  dynamic_allowed :: bool
  ts_levels :: "string list"

definition canonical_levels :: "string list" where
  "canonical_levels = [''none'', ''minimal'', ''low'', ''medium'', ''high'', ''xhigh'', ''max'']"

definition level_budget_table :: "(string \<times> int) list" where
  "level_budget_table =
     [(''minimal'', 512), (''low'', 1024), (''medium'', 8192), (''high'', 24576),
      (''xhigh'', 32768), (''max'', 128000)]"

definition budget_to_level :: "int \<Rightarrow> string" where
  "budget_to_level budget =
     (if budget \<le> 512 then ''minimal''
      else if budget \<le> 1024 then ''low''
      else if budget \<le> 8192 then ''medium''
      else if budget \<le> 24576 then ''high''
      else ''xhigh'')"

text \<open>\<open>slices.Index\<close>, -1 when absent.\<close>

fun index_of :: "'a list \<Rightarrow> 'a \<Rightarrow> int" where
  "index_of [] x = - 1"
| "index_of (y # ys) x = (if y = x then 0 else (let i = index_of ys x in if i < 0 then - 1 else i + 1))"

section \<open>Clamping\<close>

fun clamp_loop :: "int \<Rightarrow> string list \<Rightarrow> int \<times> int \<Rightarrow> int \<times> int" where
  "clamp_loop pos [] best = best"
| "clamp_loop pos (s # ss) (best_idx, best_dist) =
     (let idx = index_of canonical_levels s;
          dist = (if pos - idx < 0 then - (pos - idx) else pos - idx)
      in clamp_loop pos ss
           (if dist < best_dist \<or> (dist = best_dist \<and> idx < best_idx) then (idx, dist)
            else (best_idx, best_dist)))"

text \<open>\<open>CanonicalLevels[bestIdx]\<close> panics at -1: \<open>None\<close>.\<close>

definition clamp_to_supported :: "string \<Rightarrow> string list \<Rightarrow> string option" where
  "clamp_to_supported level supported =
     (if level \<in> set supported then Some level
      else (let i = fst (clamp_loop (index_of canonical_levels level) supported
                           (- 1, int (length canonical_levels) + 1))
            in if i < 0 then None else Some (canonical_levels ! nat i)))"

section \<open>Capabilities\<close>

definition default_levels :: "string list" where
  "default_levels = [''low'', ''medium'', ''high'']"

definition supported_levels :: "thinking_support option \<Rightarrow> string list" where
  "supported_levels ts =
     (case ts of
        None \<Rightarrow> default_levels
      | Some t \<Rightarrow>
          (let out = filter (\<lambda>canon. list_ex (\<lambda>l. equal_fold (trim_space l) canon) (ts_levels t)) canonical_levels
           in if out = [] then default_levels else out))"

definition declared :: "thinking_support option \<Rightarrow> bool" where
  "declared ts =
     (case ts of
        None \<Rightarrow> False
      | Some t \<Rightarrow>
          zero_allowed t \<or> dynamic_allowed t \<or> 0 < ts_min t \<or> 0 < ts_max t
          \<or> list_ex (\<lambda>l. to_lower (trim_space l) \<in> set canonical_levels) (ts_levels t))"

definition ts_zero :: "thinking_support option \<Rightarrow> bool" where
  "ts_zero ts = (case ts of None \<Rightarrow> False | Some t \<Rightarrow> zero_allowed t)"

definition ts_dynamic :: "thinking_support option \<Rightarrow> bool" where
  "ts_dynamic ts = (case ts of None \<Rightarrow> False | Some t \<Rightarrow> dynamic_allowed t)"

section \<open>Conversions\<close>

text \<open>\<open>None\<close> stands for a panic of the clamp (the proofs show that it never happens).\<close>

definition effort_from_budget :: "int \<Rightarrow> thinking_support option \<Rightarrow> string option" where
  "effort_from_budget budget ts =
     (if \<not> declared ts then Some (if budget \<le> 0 then [] else budget_to_level budget)
      else (let supported = supported_levels ts in
            if budget \<le> 0
            then Some (if ts_zero ts \<and> ''none'' \<in> set supported then ''none''
                       else if ts_dynamic ts then ''auto''
                       else hd supported)
            else clamp_to_supported (budget_to_level budget) supported))"

definition clamp_budget :: "thinking_support option \<Rightarrow> int \<Rightarrow> int" where
  "clamp_budget ts budget =
     (case ts of
        None \<Rightarrow> budget
      | Some t \<Rightarrow>
          (let b = (if 0 < ts_min t \<and> budget < ts_min t then ts_min t else budget)
           in if 0 < ts_max t \<and> b > ts_max t then ts_max t else b))"

definition table_budget :: "string \<Rightarrow> int" where
  "table_budget l = (case map_of level_budget_table l of None \<Rightarrow> 0 | Some b \<Rightarrow> b)"

text \<open>\<open>Some (budget, ok)\<close>; the outer \<open>None\<close> is a panic of the clamp.\<close>

definition budget_from_effort :: "string \<Rightarrow> thinking_support option \<Rightarrow> (int \<times> bool) option" where
  "budget_from_effort raw ts =
     (let effort = to_lower (trim_space raw) in
      if effort = [] then Some (0, False)
      else if \<not> declared ts then
        (if effort = ''auto'' then Some (- 1, True)
         else if effort = ''none'' then Some (0, True)
         else Some (case map_of level_budget_table effort of None \<Rightarrow> (0, False) | Some b \<Rightarrow> (b, True)))
      else (let supported = supported_levels ts;
                finish = (\<lambda>e. (clamp_budget ts (table_budget e), True))
            in if effort = ''auto'' then
                 (if ts_dynamic ts then Some (- 1, True)
                  else map_option finish (clamp_to_supported ''medium'' supported))
               else if effort = ''none'' \<or> effort = ''minimal'' then
                 (if \<not> ts_zero ts then Some (finish (hd supported))
                  else if effort = ''none'' then Some (0, True)
                  else Some (finish effort))
               else if effort \<notin> set supported then Some (0, False)
               else Some (finish effort)))"

definition unsupported_effort :: "string \<Rightarrow> err" where
  "unsupported_effort effort =
     mk_err ClassUnsupported (''reasoning_effort '' @ go_q effort @ '' is not supported for this model'') 0 False"

definition validate_effort :: "string \<Rightarrow> thinking_support option \<Rightarrow> err option" where
  "validate_effort effort ts =
     (let e = to_lower (trim_space effort) in
      if e = [] then Some (unsupported_effort effort)
      else if \<not> declared ts then None
      else (let supported = supported_levels ts in
            if e = ''auto'' then (if ts_dynamic ts then None else Some (unsupported_effort effort))
            else if e = ''none'' then
              (if ts_zero ts \<or> ''none'' \<in> set supported then None else Some (unsupported_effort effort))
            else (if e \<in> set supported then None else Some (unsupported_effort effort))))"

section \<open>The canonical order\<close>

lemma distinct_canonical: "distinct canonical_levels"
  by (simp add: canonical_levels_def)

lemma index_of_nonneg: "x \<in> set xs \<Longrightarrow> 0 \<le> index_of xs x \<and> nat (index_of xs x) < length xs \<and> xs ! nat (index_of xs x) = x"
  by (induction xs) (auto simp: Let_def nat_add_distrib)

lemma index_of_less: "index_of xs x < int (length xs)"
  by (induction xs) (auto simp: Let_def)

lemma index_of_nth: "distinct xs \<Longrightarrow> i < length xs \<Longrightarrow> index_of xs (xs ! i) = int i"
  by (induction xs arbitrary: i) (auto simp: Let_def nth_Cons split: nat.splits)

definition rank :: "string \<Rightarrow> int" where
  "rank l = index_of canonical_levels l"

lemma rank_canonical: "l \<in> set canonical_levels \<Longrightarrow> 0 \<le> rank l \<and> rank l \<le> 6 \<and> canonical_levels ! nat (rank l) = l"
  using index_of_nonneg [of l canonical_levels] index_of_less [of canonical_levels l]
  by (simp add: rank_def canonical_levels_def)

lemma rank_inject: "l \<in> set canonical_levels \<Longrightarrow> k \<in> set canonical_levels \<Longrightarrow> rank l = rank k \<Longrightarrow> l = k"
  using rank_canonical by metis

lemma rank_levels:
  "rank ''none'' = 0" "rank ''minimal'' = 1" "rank ''low'' = 2" "rank ''medium'' = 3"
  "rank ''high'' = 4" "rank ''xhigh'' = 5" "rank ''max'' = 6"
  by (simp_all add: rank_def canonical_levels_def)

lemma supported_canonical: "set (supported_levels ts) \<subseteq> set canonical_levels"
  by (auto simp: supported_levels_def default_levels_def canonical_levels_def split: option.splits if_splits)

lemma supported_nonempty [simp]: "supported_levels ts \<noteq> []"
  by (auto simp: supported_levels_def default_levels_def Let_def split: option.splits)

lemma sorted_ranks: "sorted_wrt (\<lambda>l k. rank l < rank k) canonical_levels"
  by (simp add: canonical_levels_def rank_levels)

lemma supported_sorted: "sorted_wrt (\<lambda>l k. rank l < rank k) (supported_levels ts)"
  using sorted_wrt_filter [OF sorted_ranks]
  by (auto simp: supported_levels_def default_levels_def rank_levels Let_def split: option.splits)

lemma hd_supported_weakest: "l \<in> set (supported_levels ts) \<Longrightarrow> rank (hd (supported_levels ts)) \<le> rank l"
  using supported_sorted [of ts] by (cases "supported_levels ts") auto

lemma budget_to_level_canonical: "budget_to_level b \<in> set canonical_levels"
  by (simp add: budget_to_level_def canonical_levels_def)

lemma budget_to_level_mono: "a \<le> b \<Longrightarrow> rank (budget_to_level a) \<le> rank (budget_to_level b)"
  by (simp add: budget_to_level_def rank_levels)

section \<open>The clamp is the nearest level\<close>

text \<open>\<open>closer pos l k\<close>: \<open>l\<close> is nearer to the position than \<open>k\<close>, or as near and not stronger.\<close>

definition closer :: "int \<Rightarrow> string \<Rightarrow> string \<Rightarrow> bool" where
  "closer pos l k = (\<bar>pos - rank l\<bar> < \<bar>pos - rank k\<bar> \<or> (\<bar>pos - rank l\<bar> = \<bar>pos - rank k\<bar> \<and> rank l \<le> rank k))"

lemma clamp_loop_best:
  assumes "\<forall>s \<in> set ss. s \<in> set canonical_levels" "b \<in> set canonical_levels"
  shows "\<exists>l \<in> insert b (set ss). clamp_loop pos ss (rank b, \<bar>pos - rank b\<bar>) = (rank l, \<bar>pos - rank l\<bar>)
           \<and> (\<forall>k \<in> insert b (set ss). closer pos l k)"
  using assms
proof (induction ss arbitrary: b)
  case Nil
  then show ?case by (simp add: closer_def)
next
  case (Cons s ss)
  define better where "better = (if closer pos b s then b else s)"
  have step: "clamp_loop pos (s # ss) (rank b, \<bar>pos - rank b\<bar>) = clamp_loop pos ss (rank better, \<bar>pos - rank better\<bar>)"
    unfolding clamp_loop.simps(2) Let_def better_def closer_def rank_def
    by (auto simp: abs_if intro!: arg_cong [of _ _ "clamp_loop pos ss"])
  have b: "better \<in> {b, s}" "closer pos better b" "closer pos better s"
    by (auto simp: better_def closer_def)
  have "better \<in> set canonical_levels" using b Cons.prems by auto
  then obtain l where l: "l \<in> insert better (set ss)" "\<forall>k \<in> insert better (set ss). closer pos l k"
      "clamp_loop pos ss (rank better, \<bar>pos - rank better\<bar>) = (rank l, \<bar>pos - rank l\<bar>)"
    using Cons.IH [of better] Cons.prems by auto
  have "closer pos l better" using l by auto
  then have "closer pos l b" "closer pos l s" using b by (auto simp: closer_def)
  then show ?case using l b step by auto
qed

lemma clamp_nearest:
  assumes "level \<in> set canonical_levels" "supported \<noteq> []" "set supported \<subseteq> set canonical_levels"
  shows "\<exists>l \<in> set supported. clamp_to_supported level supported = Some l
           \<and> (\<forall>k \<in> set supported. closer (rank level) l k)"
proof (cases "level \<in> set supported")
  case True
  have "closer (rank level) level k" if "k \<in> set supported" for k
    using rank_inject [of level k] assms that by (auto simp: closer_def)
  then show ?thesis using True by (auto simp: clamp_to_supported_def)
next
  case False
  obtain s ss where s: "supported = s # ss" using assms(2) by (cases supported) auto
  let ?p = "rank level"
  have c: "s \<in> set canonical_levels" "\<forall>k \<in> set ss. k \<in> set canonical_levels" using assms(3) s by auto
  have "\<bar>?p - rank s\<bar> < int (length canonical_levels) + 1"
  proof -
    have "length canonical_levels = 7" by (simp add: canonical_levels_def)
    then show ?thesis using rank_canonical [OF c(1)] rank_canonical [OF assms(1)] by linarith
  qed
  then have step: "clamp_loop ?p supported (- 1, int (length canonical_levels) + 1)
      = clamp_loop ?p ss (rank s, \<bar>?p - rank s\<bar>)"
    by (auto simp: s Let_def rank_def abs_if)
  obtain l where l: "l \<in> set supported" "clamp_loop ?p ss (rank s, \<bar>?p - rank s\<bar>) = (rank l, \<bar>?p - rank l\<bar>)"
      "\<forall>k \<in> set supported. closer ?p l k"
    using clamp_loop_best [OF c(2,1), of ?p] by (auto simp: s)
  have "canonical_levels ! nat (rank l) = l" "0 \<le> rank l" using l(1) assms(3) rank_canonical [of l] by auto
  then show ?thesis using False step l by (auto simp: clamp_to_supported_def rank_def)
qed

lemmas clamp_supported = clamp_nearest [OF _ supported_nonempty supported_canonical]

section \<open>Properties\<close>

lemma declared_effort:
  assumes "declared ts" "0 < b"
  shows "\<exists>e \<in> set (supported_levels ts). effort_from_budget b ts = Some e
     \<and> (\<forall>k \<in> set (supported_levels ts). closer (rank (budget_to_level b)) e k)"
  using clamp_supported [OF budget_to_level_canonical, of ts b] assms by (auto simp: effort_from_budget_def)

text \<open>
  A budget always converts, without a panic of the clamp. For a declared capability the level
  is one the model supports, except auto for a non-positive budget under DynamicAllowed; for an
  undeclared one it is empty exactly when the budget is not positive.
\<close>

theorem effort_from_budget_supported:
  "\<exists>e. effort_from_budget b ts = Some e
     \<and> (if declared ts
         then e \<in> set (supported_levels ts) \<or> (e = ''auto'' \<and> b \<le> 0 \<and> ts_dynamic ts)
         else (e = []) = (b \<le> 0))"
proof (cases "declared ts \<and> 0 < b")
  case True
  then show ?thesis using declared_effort [of ts b] by auto
next
  case False
  then show ?thesis by (auto simp: effort_from_budget_def budget_to_level_def Let_def)
qed

text \<open>
  For a positive budget the level chosen for a declared capability is the supported level
  nearest to the host level of the budget in the canonical order, the weaker one on a tie, and
  it is the only such level.
\<close>

theorem effort_from_budget_nearest:
  assumes "declared ts" "0 < b" "k \<in> set (supported_levels ts)"
  shows "\<exists>e. effort_from_budget b ts = Some e \<and> e \<in> set (supported_levels ts)
    \<and> closer (rank (budget_to_level b)) e k \<and> (closer (rank (budget_to_level b)) k e \<longrightarrow> k = e)"
proof -
  obtain e where e: "e \<in> set (supported_levels ts)" "effort_from_budget b ts = Some e"
      "\<forall>k \<in> set (supported_levels ts). closer (rank (budget_to_level b)) e k"
    using declared_effort [OF assms(1,2)] by blast
  moreover have "k = e" if "closer (rank (budget_to_level b)) k e"
  proof -
    have "closer (rank (budget_to_level b)) e k" using e(3) assms(3) by blast
    then have "rank k = rank e" using that by (auto simp: closer_def)
    then show ?thesis using rank_inject e(1) assms(3) supported_canonical by blast
  qed
  ultimately show ?thesis using assms(3) by blast
qed

definition low_high :: "thinking_support option" where
  "low_high = Some \<lparr>ts_min = 2048, ts_max = 20000, zero_allowed = False, dynamic_allowed = False,
     ts_levels = [''low'', ''high'']\<rparr>"

lemma lower_word: "to_lower ''low'' = ''low''" "to_lower ''high'' = ''high''" "to_lower ''max'' = ''max''"
  by (simp_all add: lower_byte_def byte_def has_prefix_def)

lemma trim_word: "trim_space ''low'' = ''low''" "trim_space ''high'' = ''high''" "trim_space ''max'' = ''max''"
  by (simp_all add: trim_space_tight ascii_space_def byte_def)

lemma low_high_declared: "declared low_high"
  by (simp add: declared_def low_high_def)

lemma low_high_supported: "supported_levels low_high = [''low'', ''high'']"
  by (simp add: supported_levels_def low_high_def canonical_levels_def trim_word equal_fold_def
    lower_byte_def byte_def has_prefix_def)

lemma effort_from_budget_nearest_witness:
  "declared low_high \<and> (\<exists>e. effort_from_budget 8192 low_high = Some e \<and> e \<in> set (supported_levels low_high)
     \<and> closer (rank (budget_to_level 8192)) e ''low'' \<and> (closer (rank (budget_to_level 8192)) ''low'' e \<longrightarrow> ''low'' = e))"
  using low_high_declared by (intro conjI effort_from_budget_nearest) (simp_all add: low_high_supported)

text \<open>
  A larger budget never converts to a weaker level: on positive budgets the conversion is
  monotone in the canonical order, for every capability.
\<close>

theorem effort_from_budget_mono:
  assumes "0 < a" "a \<le> b" "effort_from_budget a ts = Some e" "effort_from_budget b ts = Some f"
  shows "rank e \<le> rank f"
proof (cases "declared ts")
  case True
  have "e \<in> set (supported_levels ts)" "f \<in> set (supported_levels ts)"
    "closer (rank (budget_to_level a)) e f" "closer (rank (budget_to_level b)) f e"
    using declared_effort [OF True, of a] declared_effort [OF True, of b] assms by auto
  then show ?thesis using budget_to_level_mono [OF assms(2)] by (auto simp: closer_def)
next
  case False
  then show ?thesis using assms budget_to_level_mono [of a b] by (auto simp: effort_from_budget_def)
qed

lemma effort_from_budget_mono_witness:
  "effort_from_budget 100 None = Some ''minimal'' \<and> effort_from_budget 9000 None = Some ''high''
   \<and> rank ''minimal'' \<le> rank ''high''"
  using effort_from_budget_mono [of 100 9000 None "''minimal''" "''high''"]
  by (simp add: effort_from_budget_def declared_def budget_to_level_def)

lemma clamp_budget_bounds:
  "(0 < ts_max t \<longrightarrow> clamp_budget (Some t) b \<le> ts_max t)
   \<and> (ts_max t \<le> 0 \<or> ts_min t \<le> ts_max t \<longrightarrow> 0 < ts_min t \<longrightarrow> ts_min t \<le> clamp_budget (Some t) b)"
  by (auto simp: clamp_budget_def Let_def)

text \<open>
  C35. An effort never makes the conversion to a budget panic, and for a declared capability a
  budget that is reported ok is the dynamic sentinel -1, the off sentinel 0, or lies within the
  declared bounds (never above Max; never below Min unless Min exceeds Max).
\<close>

theorem budget_from_effort_bounds:
  "\<exists>b ok. budget_from_effort effort ts = Some (b, ok)
     \<and> (\<forall>t. ts = Some t \<longrightarrow> declared ts \<longrightarrow> ok \<longrightarrow>
          (b = - 1 \<and> dynamic_allowed t) \<or> (b = 0 \<and> zero_allowed t)
          \<or> ((0 < ts_max t \<longrightarrow> b \<le> ts_max t)
             \<and> (ts_max t \<le> 0 \<or> ts_min t \<le> ts_max t \<longrightarrow> 0 < ts_min t \<longrightarrow> ts_min t \<le> b)))"
proof -
  have m: "''medium'' \<in> set canonical_levels" by (simp add: canonical_levels_def)
  obtain l where "clamp_to_supported ''medium'' (supported_levels ts) = Some l"
    using clamp_supported [OF m, of ts] by blast
  then show ?thesis using clamp_budget_bounds
    by (auto simp: budget_from_effort_def Let_def ts_dynamic_def ts_zero_def split: option.splits)
qed

text \<open>
  An effort the validation admits for a declared capability always has a budget: the two
  kernels agree, so a control that passed validation is never dropped by the conversion.
\<close>

theorem validated_effort_has_budget:
  assumes "declared ts" "validate_effort effort ts = None"
  shows "\<exists>b. budget_from_effort effort ts = Some (b, True)"
proof -
  have m: "''medium'' \<in> set canonical_levels" by (simp add: canonical_levels_def)
  show ?thesis using assms clamp_supported [OF m, of ts]
    by (auto simp: budget_from_effort_def validate_effort_def Let_def split: if_splits)
qed

lemma validated_effort_has_budget_witness:
  "declared low_high \<and> validate_effort ''high'' low_high = None
   \<and> (\<exists>b. budget_from_effort ''high'' low_high = Some (b, True))"
proof -
  have v: "validate_effort ''high'' low_high = None"
    using low_high_declared by (simp add: validate_effort_def low_high_supported trim_word lower_word del: to_lower.simps)
  then show ?thesis using low_high_declared validated_effort_has_budget [OF low_high_declared v] by blast
qed

lemma budget_from_effort_bounds_witness:
  "\<exists>b. budget_from_effort ''high'' low_high = Some (b, True) \<and> 2048 \<le> b \<and> b \<le> 20000"
proof -
  obtain b where b: "budget_from_effort ''high'' low_high = Some (b, True)" using validated_effort_has_budget_witness by blast
  obtain t where t: "low_high = Some t" "ts_min t = 2048" "ts_max t = 20000" "\<not> zero_allowed t" "\<not> dynamic_allowed t"
    by (simp add: low_high_def)
  show ?thesis using budget_from_effort_bounds [of "''high''" low_high] b t low_high_declared by auto
qed

end
