(* ===== verification/Config.thy ===== *)
theory Config
  imports Prelude
begin

text \<open>
  \<open>internal/config/config.go\<close>: from the decoded YAML document (a record of optional members,
  as \<open>rawConfig\<close>) to a validated configuration. The YAML parser is outside the repository, so
  that loading starts from its result. Three functions of the environment and the standard library
  are parameters of which nothing is assumed: \<open>dur_of\<close> (\<open>time.ParseDuration\<close>, in
  nanoseconds), \<open>url_of\<close> (\<open>net/url.Parse\<close>) and \<open>expand\<close>
  (\<open>os.ExpandEnv\<close>). Errors are their texts.
\<close>

section \<open>Data\<close>

abbreviation second :: int where "second \<equiv> 1000000000"
abbreviation minute :: int where "minute \<equiv> 60 * second"
abbreviation hour :: int where "hour \<equiv> 60 * minute"

record predictor =
  pd_enabled :: bool
  pd_persistence :: bool
  pd_sample :: int
  pd_budget :: int
  pd_history :: int
  pd_horizon :: int
  pd_dir :: string
  pd_peers :: "string list"

record route_override =
  ro_protocol :: string
  ro_endpoint :: string

record config =
  cf_base_url :: string
  cf_catalog_url :: string
  cf_prefix_enabled :: bool
  cf_prefix :: string
  cf_keys :: "string list"
  cf_refresh :: int
  cf_stale :: bool
  cf_chat :: bool
  cf_messages :: bool
  cf_responses :: bool
  cf_predictor :: predictor
  cf_overrides :: "(string \<times> route_override) list"
  cf_allow_http :: bool
  cf_request_timeout :: int
  cf_first :: int
  cf_idle :: int
  cf_total :: int
  cf_grace :: int
  cf_max_bytes :: int
  cf_compat :: string

record raw_predictor =
  rp_enabled :: "bool option"
  rp_persistence :: "bool option"
  rp_sample :: "string option"
  rp_budget :: "int option"
  rp_history :: "string option"
  rp_horizon :: "string option"
  rp_dir :: "string option"
  rp_peers :: "string list option"

record raw_config =
  rc_base_url :: "string option"
  rc_catalog_url :: "string option"
  rc_prefix_enabled :: "bool option"
  rc_prefix :: "string option"
  rc_keys :: "string list"
  rc_refresh :: "string option"
  rc_stale :: "bool option"
  rc_chat :: "bool option"
  rc_messages :: "bool option"
  rc_responses :: "bool option"
  rc_predictor :: raw_predictor
  rc_overrides :: "(string \<times> route_override) list"
  rc_allow_http :: bool
  rc_request_timeout :: "string option"
  rc_first :: "string option"
  rc_idle :: "string option"
  rc_total :: "string option"
  rc_grace :: "string option"
  rc_max_bytes :: "int option"
  rc_compat :: "string option"

text \<open>The members of \<open>url.URL\<close> the validation reads.\<close>

record url =
  u_scheme :: string
  u_host :: string
  u_query :: string
  u_fragment :: string
  u_user :: bool

definition default_base_url :: string where
  "default_base_url = ''https://api.commandcode.ai/provider/v1''"

definition default_prefix :: string where
  "default_prefix = ''commandcode''"

definition default_refresh :: int where "default_refresh = 15 * minute"
definition default_request :: int where "default_request = 5 * minute"
definition default_first :: int where "default_first = 60 * second"
definition default_idle :: int where "default_idle = 3 * minute"
definition default_total :: int where "default_total = 30 * minute"
definition default_grace :: int where "default_grace = 15 * second"
definition default_max_bytes :: int where "default_max_bytes = 67108864"
definition default_compat :: string where "default_compat = ''cpa''"
definition default_sample :: int where "default_sample = 10 * minute"
definition default_budget :: int where "default_budget = 8"
definition default_history :: int where "default_history = 7 * (24 * hour)"
definition default_horizon :: int where "default_horizon = 48 * hour"

section \<open>Helpers\<close>

definition or_default :: "'a option \<Rightarrow> 'a \<Rightarrow> 'a" where
  "or_default p d = (case p of None \<Rightarrow> d | Some v \<Rightarrow> v)"

definition parse_duration :: "(string \<Rightarrow> int option) \<Rightarrow> string \<Rightarrow> string option \<Rightarrow> int \<Rightarrow> string + int" where
  "parse_duration dur_of nm p d =
     (case p of
        None \<Rightarrow> Inr d
      | Some t \<Rightarrow> (case dur_of t of None \<Rightarrow> Inl (nm @ '': invalid duration'') | Some v \<Rightarrow> Inr v))"

fun bind_cfg :: "string + 'a \<Rightarrow> ('a \<Rightarrow> string + 'b) \<Rightarrow> string + 'b" where
  "bind_cfg (Inl e) f = Inl e"
| "bind_cfg (Inr x) f = f x"

definition guard_cfg :: "bool \<Rightarrow> string \<Rightarrow> string + unit" where
  "guard_cfg b e = (if b then Inr () else Inl e)"

lemma bind_cfg_Inr: "bind_cfg m f = Inr y \<longleftrightarrow> (\<exists>x. m = Inr x \<and> f x = Inr y)"
  by (cases m) auto

lemma guard_cfg_Inr: "guard_cfg b e = Inr u \<longleftrightarrow> b"
  by (simp add: guard_cfg_def)

definition positive_duration :: "(string \<Rightarrow> int option) \<Rightarrow> string \<Rightarrow> string option \<Rightarrow> int \<Rightarrow> string + int" where
  "positive_duration dur_of nm p d =
     bind_cfg (parse_duration dur_of nm p d) (\<lambda>v.
     bind_cfg (guard_cfg (0 < v) (nm @ '': must be positive'')) (\<lambda>_. Inr v))"

fun trim_slashes_rev :: "string \<Rightarrow> string" where
  "trim_slashes_rev [] = []"
| "trim_slashes_rev (c # cs) = (if c = CHR ''/'' then trim_slashes_rev cs else c # cs)"

text \<open>\<open>strings.TrimRight(s, "/")\<close>.\<close>

definition trim_right_slash :: "string \<Rightarrow> string" where
  "trim_right_slash s = rev (trim_slashes_rev (rev s))"

text \<open>The loop over runes: a byte of a multi-byte rune is no more admissible than the rune.\<close>

definition alnum :: "char \<Rightarrow> bool" where
  "alnum c = (97 \<le> byte c \<and> byte c \<le> 122 \<or> 65 \<le> byte c \<and> byte c \<le> 90 \<or> 48 \<le> byte c \<and> byte c \<le> 57)"

definition valid_prefix :: "string \<Rightarrow> bool" where
  "valid_prefix s =
     (s \<noteq> [] \<and> alnum (hd s) \<and> list_all (\<lambda>c. alnum c \<or> c = CHR ''.'' \<or> c = CHR ''_'' \<or> c = CHR ''-'') s)"

text \<open>Trim, drop empties, keep the first of equal ones.\<close>

fun normalize_peers_loop :: "string list \<Rightarrow> string list \<Rightarrow> string list" where
  "normalize_peers_loop out [] = out"
| "normalize_peers_loop out (i # rest) =
     (let t = trim_space i in
      if t = [] \<or> t \<in> set out then normalize_peers_loop out rest else normalize_peers_loop (out @ [t]) rest)"

definition normalize_peer_plugins :: "string list \<Rightarrow> string list" where
  "normalize_peer_plugins xs = normalize_peers_loop [] xs"

section \<open>Loading\<close>

definition load_predictor :: "(string \<Rightarrow> int option) \<Rightarrow> raw_predictor \<Rightarrow> string + predictor" where
  "load_predictor dur_of raw =
     bind_cfg (parse_duration dur_of ''predictor.sample-interval'' (rp_sample raw) default_sample) (\<lambda>sample.
     bind_cfg (parse_duration dur_of ''predictor.history'' (rp_history raw) default_history) (\<lambda>history.
     bind_cfg (parse_duration dur_of ''predictor.horizon'' (rp_horizon raw) default_horizon) (\<lambda>horizon.
     Inr \<lparr>pd_enabled = or_default (rp_enabled raw) True,
          pd_persistence = or_default (rp_persistence raw) True,
          pd_sample = sample,
          pd_budget = or_default (rp_budget raw) default_budget,
          pd_history = history,
          pd_horizon = horizon,
          pd_dir = (case rp_dir raw of None \<Rightarrow> [] | Some d \<Rightarrow> trim_space d),
          pd_peers = (case rp_peers raw of None \<Rightarrow> [] | Some ps \<Rightarrow> normalize_peer_plugins ps)\<rparr>)))"

definition validate_predictor :: "predictor \<Rightarrow> string + unit" where
  "validate_predictor p =
     (if \<not> pd_enabled p then Inr ()
      else if pd_sample p < 2 * minute then Inl ''predictor.sample-interval: must be at least 2m''
      else if pd_budget p < 1 \<or> 10 < pd_budget p
      then Inl ''predictor.budget-per-minute: must be 1..10 (account API allows 10/min per user)''
      else if pd_history p < 24 * hour then Inl ''predictor.history: must be at least 24h''
      else if pd_horizon p < hour then Inl ''predictor.horizon: must be at least 1h''
      else if pd_history p < pd_horizon p then Inl ''predictor.horizon: must not exceed predictor.history''
      else Inr ())"

definition validate_url :: "(string \<Rightarrow> url option) \<Rightarrow> string \<Rightarrow> string \<Rightarrow> bool \<Rightarrow> string + unit" where
  "validate_url url_of nm raw allow_http =
     (if raw = [] then Inl (nm @ '': must not be empty'')
      else (case url_of raw of
              None \<Rightarrow> Inl (nm @ '': invalid URL'')
            | Some u \<Rightarrow>
                (if u_scheme u = [] \<or> u_host u = []
                 then Inl (nm @ '': invalid URL '' @ u_scheme u @ ''://'' @ u_host u)
                 else if u_query u \<noteq> [] \<or> u_fragment u \<noteq> [] \<or> u_user u
                 then Inl (nm @ '': must not contain query, fragment, or userinfo'')
                 else if u_scheme u = ''https'' then Inr ()
                 else if u_scheme u = ''http''
                 then guard_cfg allow_http (nm @ '': http scheme requires allow-http'')
                 else Inl (nm @ '': unsupported scheme '' @ go_q (u_scheme u) @ ''; use https''))))"

fun check_keys :: "nat \<Rightarrow> string list \<Rightarrow> string + unit" where
  "check_keys i [] = Inr ()"
| "check_keys i (k # ks) =
     (if k = [] then Inl (''api-keys['' @ itoa (int i) @ ''].value: expanded to empty'') else check_keys (i + 1) ks)"

fun check_overrides :: "(string \<times> route_override) list \<Rightarrow> string + unit" where
  "check_overrides [] = Inr ()"
| "check_overrides ((nm, r) # rest) =
     (if ro_protocol r \<notin> {''chat-completions'', ''messages'', ''responses''}
      then Inl (''route-overrides['' @ nm @ ''].protocol: unsupported protocol '' @ go_q (ro_protocol r))
      else if ro_endpoint r = [] then Inl (''route-overrides['' @ nm @ ''].endpoint: must not be empty'')
      else if \<not> has_prefix (ro_endpoint r) ''/'' then Inl (''route-overrides['' @ nm @ ''].endpoint: must start with /'')
      else check_overrides rest)"

definition validate_config :: "(string \<Rightarrow> url option) \<Rightarrow> config \<Rightarrow> string + unit" where
  "validate_config url_of c =
     bind_cfg (validate_predictor (cf_predictor c)) (\<lambda>_.
     bind_cfg (validate_url url_of ''base-url'' (cf_base_url c) (cf_allow_http c)) (\<lambda>_.
     bind_cfg (validate_url url_of ''catalog-url'' (cf_catalog_url c) (cf_allow_http c)) (\<lambda>_.
     bind_cfg (guard_cfg (cf_keys c \<noteq> []) ''api-keys: at least one key is required'') (\<lambda>_.
     bind_cfg (check_keys 0 (cf_keys c)) (\<lambda>_.
     bind_cfg (guard_cfg (distinct (cf_keys c)) ''api-keys: duplicate key values are not allowed'') (\<lambda>_.
     bind_cfg (guard_cfg (minute \<le> cf_refresh c) ''catalog.refresh-interval: must be at least 1m'') (\<lambda>_.
     bind_cfg (guard_cfg (0 < cf_max_bytes c) ''max-response-bytes: must be positive'') (\<lambda>_.
     bind_cfg (guard_cfg (cf_compat c = ''cpa'' \<or> cf_compat c = ''strict'')
                 ''responses-compatibility: must be cpa or strict'') (\<lambda>_.
     bind_cfg (check_overrides (cf_overrides c)) (\<lambda>_.
     guard_cfg (cf_prefix_enabled c \<longrightarrow> valid_prefix (cf_prefix c))
       (''model-prefix.value: invalid provider-ID characters '' @ go_q (cf_prefix c))))))))))))"

text \<open>The configuration that \<open>Load\<close> assembles before it validates it.\<close>

definition assemble_config ::
    "(string \<Rightarrow> string) \<Rightarrow> raw_config \<Rightarrow> predictor \<Rightarrow> int \<Rightarrow> int \<Rightarrow> int \<Rightarrow> int \<Rightarrow> int \<Rightarrow> int \<Rightarrow> config" where
  "assemble_config expand raw p refresh request first idle ttl grace =
     (let base = or_default (rc_base_url raw) default_base_url in
      \<lparr>cf_base_url = base,
       cf_catalog_url = (case rc_catalog_url raw of
           Some u \<Rightarrow> trim_right_slash u | None \<Rightarrow> trim_right_slash base @ ''/models''),
       cf_prefix_enabled = or_default (rc_prefix_enabled raw) True,
       cf_prefix = or_default (rc_prefix raw) default_prefix,
       cf_keys = map expand (rc_keys raw),
       cf_refresh = refresh,
       cf_stale = or_default (rc_stale raw) True,
       cf_chat = or_default (rc_chat raw) True,
       cf_messages = or_default (rc_messages raw) True,
       cf_responses = or_default (rc_responses raw) True,
       cf_predictor = p,
       cf_overrides = rc_overrides raw,
       cf_allow_http = rc_allow_http raw,
       cf_request_timeout = request,
       cf_first = first, cf_idle = idle, cf_total = ttl, cf_grace = grace,
       cf_max_bytes = or_default (rc_max_bytes raw) default_max_bytes,
       cf_compat = to_lower (trim_space (or_default (rc_compat raw) default_compat))\<rparr>)"

definition load ::
    "(string \<Rightarrow> int option) \<Rightarrow> (string \<Rightarrow> url option) \<Rightarrow> (string \<Rightarrow> string) \<Rightarrow> raw_config \<Rightarrow> string + config" where
  "load dur_of url_of expand raw =
     bind_cfg (parse_duration dur_of ''catalog.refresh-interval'' (rc_refresh raw) default_refresh) (\<lambda>refresh.
     bind_cfg (positive_duration dur_of ''request-timeout'' (rc_request_timeout raw) default_request) (\<lambda>request.
     bind_cfg (positive_duration dur_of ''stream-first-data-timeout'' (rc_first raw) default_first) (\<lambda>first.
     bind_cfg (positive_duration dur_of ''stream-idle-timeout'' (rc_idle raw) default_idle) (\<lambda>idle.
     bind_cfg (positive_duration dur_of ''stream-total-timeout'' (rc_total raw) default_total) (\<lambda>ttl.
     bind_cfg (positive_duration dur_of ''stream-finish-grace'' (rc_grace raw) default_grace) (\<lambda>grace.
     bind_cfg (guard_cfg (first \<le> ttl) ''stream-total-timeout: must be at least stream-first-data-timeout'') (\<lambda>_.
     bind_cfg (guard_cfg (idle \<le> ttl) ''stream-total-timeout: must be at least stream-idle-timeout'') (\<lambda>_.
     bind_cfg (guard_cfg (grace \<le> idle) ''stream-finish-grace: must not exceed stream-idle-timeout'') (\<lambda>_.
     bind_cfg (load_predictor dur_of (rc_predictor raw)) (\<lambda>p.
     let c = assemble_config expand raw p refresh request first idle ttl grace in
     bind_cfg (validate_config url_of c) (\<lambda>_. Inr c)))))))))))"

definition public_id :: "config \<Rightarrow> string \<Rightarrow> string" where
  "public_id c upstream = (if cf_prefix_enabled c then cf_prefix c @ ''/'' @ upstream else upstream)"

section \<open>What loading guarantees\<close>

definition url_allowed :: "(string \<Rightarrow> url option) \<Rightarrow> string \<Rightarrow> bool \<Rightarrow> bool" where
  "url_allowed url_of raw allow_http =
     (case url_of raw of
        None \<Rightarrow> False
      | Some u \<Rightarrow> u_host u \<noteq> [] \<and> u_query u = [] \<and> u_fragment u = [] \<and> \<not> u_user u
          \<and> (u_scheme u = ''https'' \<or> u_scheme u = ''http'' \<and> allow_http))"

lemma validate_url_ok: "validate_url url_of nm raw a = Inr u \<Longrightarrow> url_allowed url_of raw a"
  by (auto simp: validate_url_def url_allowed_def guard_cfg_def split: if_splits option.splits)

lemma check_keys_ok: "check_keys i ks = Inr u \<Longrightarrow> [] \<notin> set ks"
  by (induction ks arbitrary: i) (auto split: if_splits)

definition override_ok :: "route_override \<Rightarrow> bool" where
  "override_ok r = (ro_protocol r \<in> {''chat-completions'', ''messages'', ''responses''} \<and> has_prefix (ro_endpoint r) ''/'')"

lemma check_overrides_ok: "check_overrides rs = Inr u \<Longrightarrow> list_all (\<lambda>(_, r). override_ok r) rs"
  by (induction rs rule: check_overrides.induct) (auto simp: override_ok_def split: if_splits)

definition predictor_ok :: "predictor \<Rightarrow> bool" where
  "predictor_ok p =
     (pd_enabled p \<longrightarrow> 2 * minute \<le> pd_sample p \<and> 1 \<le> pd_budget p \<and> pd_budget p \<le> 10
        \<and> 24 * hour \<le> pd_history p \<and> hour \<le> pd_horizon p \<and> pd_horizon p \<le> pd_history p)"

lemma validate_predictor_ok: "validate_predictor p = Inr u \<Longrightarrow> predictor_ok p"
  by (auto simp: validate_predictor_def predictor_ok_def split: if_splits)

definition timeouts_ok :: "config \<Rightarrow> bool" where
  "timeouts_ok c =
     (0 < cf_request_timeout c \<and> 0 < cf_first c \<and> cf_first c \<le> cf_total c
      \<and> 0 < cf_grace c \<and> cf_grace c \<le> cf_idle c \<and> cf_idle c \<le> cf_total c)"

definition config_ok :: "(string \<Rightarrow> url option) \<Rightarrow> config \<Rightarrow> bool" where
  "config_ok url_of c =
     (timeouts_ok c \<and> predictor_ok (cf_predictor c)
      \<and> url_allowed url_of (cf_base_url c) (cf_allow_http c) \<and> url_allowed url_of (cf_catalog_url c) (cf_allow_http c)
      \<and> cf_keys c \<noteq> [] \<and> [] \<notin> set (cf_keys c) \<and> distinct (cf_keys c)
      \<and> minute \<le> cf_refresh c \<and> 0 < cf_max_bytes c \<and> cf_compat c \<in> {''cpa'', ''strict''}
      \<and> list_all (\<lambda>(_, r). override_ok r) (cf_overrides c)
      \<and> (cf_prefix_enabled c \<longrightarrow> valid_prefix (cf_prefix c)))"

lemma validate_config_ok: "validate_config url_of c = Inr u \<Longrightarrow> timeouts_ok c \<Longrightarrow> config_ok url_of c"
  unfolding validate_config_def config_ok_def
  by (auto simp: bind_cfg_Inr guard_cfg_Inr dest!: validate_predictor_ok validate_url_ok check_keys_ok check_overrides_ok)

lemma positive_duration_ok: "positive_duration dur_of nm p d = Inr v \<Longrightarrow> 0 < v"
  by (auto simp: positive_duration_def bind_cfg_Inr guard_cfg_Inr)

lemma load_timeouts:
  assumes "load dur_of url_of expand raw = Inr c"
  shows "timeouts_ok c" "\<exists>u. validate_config url_of c = Inr u"
  using assms unfolding load_def
  by (auto simp: bind_cfg_Inr guard_cfg_Inr Let_def timeouts_ok_def assemble_config_def dest!: positive_duration_ok)

text \<open>
  C31. Every configuration that loads is well formed, whatever the document says: timeouts positive
  and ordered (finish grace within idle, first data and idle within total), the sampler bounds when
  it is enabled, base and catalog URL on https (http only when allowed) without credentials, at
  least one key, none empty and none twice, overrides on a known protocol with an absolute path,
  and a valid model prefix.
\<close>

theorem loaded_config_well_formed:
  assumes "load dur_of url_of expand raw = Inr c"
  shows "config_ok url_of c"
  using load_timeouts [OF assms] validate_config_ok by blast

definition bare_config :: "string list \<Rightarrow> raw_config" where
  "bare_config ks =
     \<lparr>rc_base_url = None, rc_catalog_url = None, rc_prefix_enabled = None, rc_prefix = None, rc_keys = ks,
      rc_refresh = None, rc_stale = None, rc_chat = None, rc_messages = None, rc_responses = None,
      rc_predictor = \<lparr>rp_enabled = None, rp_persistence = None, rp_sample = None, rp_budget = None, rp_history = None,
        rp_horizon = None, rp_dir = None, rp_peers = None\<rparr>,
      rc_overrides = [], rc_allow_http = False, rc_request_timeout = None, rc_first = None, rc_idle = None,
      rc_total = None, rc_grace = None, rc_max_bytes = None, rc_compat = None\<rparr>"

definition https_url :: "string \<Rightarrow> url option" where
  "https_url t = Some \<lparr>u_scheme = ''https'', u_host = ''h'', u_query = [], u_fragment = [], u_user = False\<rparr>"

lemma bare_config_loads: "\<exists>c. load (\<lambda>_. None) https_url id (bare_config [''k'']) = Inr c"
  by (simp add: load_def bare_config_def parse_duration_def positive_duration_def guard_cfg_def load_predictor_def
      Let_def validate_config_def assemble_config_def or_default_def validate_predictor_def validate_url_def https_url_def
      default_first_def default_idle_def default_total_def default_grace_def default_request_def default_refresh_def
      default_sample_def default_budget_def default_history_def default_horizon_def default_max_bytes_def) code_simp

lemma loaded_config_well_formed_witness:
  "\<exists>c. load (\<lambda>_. None) https_url id (bare_config [''k'']) = Inr c \<and> config_ok https_url c"
  using bare_config_loads loaded_config_well_formed by blast

section \<open>Errors and secrets\<close>

lemma map_bind_cfg: "map_sum id f (bind_cfg m g) = bind_cfg m (\<lambda>x. map_sum id f (g x))"
  by (cases m) simp_all

lemma check_keys_shape:
  "list_all2 (\<lambda>k l. (k = []) = (l = [])) ks ls \<Longrightarrow> check_keys i ks = check_keys i ls"
  by (induction ks ls arbitrary: i rule: list_all2_induct) simp_all

lemma validate_config_shape:
  assumes "list_all2 (\<lambda>k l. (k = []) = (l = [])) (cf_keys c) ls" "distinct (cf_keys c) = distinct ls"
  shows "validate_config url_of (c\<lparr>cf_keys := ls\<rparr>) = validate_config url_of c"
proof -
  have "(cf_keys c = []) = (ls = [])" using assms(1) by auto
  then show ?thesis using check_keys_shape [OF assms(1)] assms(2) by (simp add: validate_config_def)
qed

lemma load_shape:
  assumes "list_all2 (\<lambda>k l. (expand k = []) = (expand l = [])) (rc_keys raw) ls"
    "distinct (map expand (rc_keys raw)) = distinct (map expand ls)"
  shows "load dur_of url_of expand (raw\<lparr>rc_keys := ls\<rparr>)
    = map_sum id (\<lambda>c. c\<lparr>cf_keys := map expand ls\<rparr>) (load dur_of url_of expand raw)"
proof -
  have a: "assemble_config expand (raw\<lparr>rc_keys := ls\<rparr>) p q r f i t g
      = (assemble_config expand raw p q r f i t g)\<lparr>cf_keys := map expand ls\<rparr>" for p q r f i t g
    by (simp add: assemble_config_def Let_def)
  have "cf_keys (assemble_config expand raw p q r f i t g) = map expand (rc_keys raw)" for p q r f i t g
    by (simp add: assemble_config_def Let_def)
  then have "validate_config url_of ((assemble_config expand raw p q r f i t g)\<lparr>cf_keys := map expand ls\<rparr>)
      = validate_config url_of (assemble_config expand raw p q r f i t g)" for p q r f i t g
    using assms by (intro validate_config_shape) (simp_all add: list_all2_map1 list_all2_map2)
  then show ?thesis by (simp add: load_def a map_bind_cfg Let_def)
qed

text \<open>
  No error of loading depends on the secret keys beyond which of them expand to nothing and
  whether two are equal: two documents that differ only in key values with the same pattern give
  the same error text.
\<close>

theorem config_errors_hide_keys:
  assumes "load dur_of url_of expand raw = Inl e"
    "list_all2 (\<lambda>k l. (expand k = []) = (expand l = [])) (rc_keys raw) ls"
    "distinct (map expand (rc_keys raw)) = distinct (map expand ls)"
  shows "load dur_of url_of expand (raw\<lparr>rc_keys := ls\<rparr>) = Inl e"
  using load_shape [OF assms(2,3)] assms(1) by simp

lemma config_errors_hide_keys_witness:
  "load (\<lambda>_. None) https_url id (bare_config [''secret'', ''secret''])
   = Inl ''api-keys: duplicate key values are not allowed''"
proof -
  have "load (\<lambda>_. None) https_url id (bare_config [''a'', ''a'']) = Inl ''api-keys: duplicate key values are not allowed''"
    by (simp add: load_def bare_config_def parse_duration_def positive_duration_def guard_cfg_def load_predictor_def
        Let_def validate_config_def assemble_config_def or_default_def validate_predictor_def validate_url_def https_url_def
        default_first_def default_idle_def default_total_def default_grace_def default_request_def default_refresh_def
        default_sample_def default_budget_def default_history_def default_horizon_def default_max_bytes_def
        default_base_url_def trim_right_slash_def)
  from config_errors_hide_keys [OF this, of "[''secret'', ''secret'']"]
  show ?thesis by (simp add: bare_config_def)
qed

end
