(* ===== verification/Controller.thy ===== *)
theory Controller
  imports Config
begin

text \<open>
  \<open>internal/plugin/stream_controller.go\<close>: the timers of one stream. A timer is armed
  (\<open>time.AfterFunc\<close>), stopped in time, or expires; an expired timer's callback is a
  goroutine of its own that takes the mutex (\<open>fire\<close>) and, when it claims the cause of the
  end, closes the upstream stream after releasing it. The step relation interleaves the owner (the
  pump) with the expiry of timers and with the callbacks in every order; durations only decide when
  a timer may expire, so that every expiry is possible. The generation counts in \<open>nat\<close>: the
  \<open>uint64\<close> of the code wraps after 2^64 arms of one stream.
\<close>

section \<open>Limits\<close>

record limits =
  lm_first :: int
  lm_idle :: int
  lm_total :: int
  lm_grace :: int

definition positive_or :: "int \<Rightarrow> int \<Rightarrow> int" where
  "positive_or d x = (if x \<le> 0 then d else x)"

definition limits_from_config :: "config \<Rightarrow> limits" where
  "limits_from_config c =
     \<lparr>lm_first = positive_or default_first (cf_first c), lm_idle = positive_or default_idle (cf_idle c),
      lm_total = positive_or default_total (cf_total c), lm_grace = positive_or default_grace (cf_grace c)\<rparr>"

section \<open>State and operations\<close>

text \<open>A pending \<open>AfterFunc\<close>: its delay and the arguments of \<open>fire\<close> it captured.\<close>

record timer =
  tm_gen :: nat
  tm_cause :: string
  tm_delay :: int

text \<open>
  \<open>ct_phase\<close> and \<open>ct_total\<close> are the timers \<open>Stop\<close> would still stop: None when
  nil, stopped or expired. \<open>ct_running\<close> are the callbacks before the mutex,
  \<open>ct_closing\<close> counts those that still have to close the upstream, \<open>ct_closes\<close> the
  calls of \<open>StreamClose\<close> they made, \<open>ct_wg\<close> is the wait group, and
  \<open>ct_stopped\<close> says that \<open>stop\<close> released the mutex and waits.
\<close>

record controller =
  ct_active :: bool
  ct_cause :: string
  ct_gen :: nat
  ct_phase :: "timer option"
  ct_total :: "timer option"
  ct_running :: "timer list"
  ct_closing :: nat
  ct_closes :: nat
  ct_wg :: int
  ct_stopped :: bool

definition delay :: "int \<Rightarrow> int" where
  "delay d = (if d < 0 then 0 else d)"

definition stopped_in_time :: "timer option \<Rightarrow> int" where
  "stopped_in_time t = (if t = None then 0 else 1)"

definition arm_total :: "int \<Rightarrow> controller \<Rightarrow> controller" where
  "arm_total d s =
     s\<lparr>ct_wg := ct_wg s + 1, ct_total := Some \<lparr>tm_gen = 0, tm_cause = ''total'', tm_delay = delay d\<rparr>\<rparr>"

definition new_controller :: "int \<Rightarrow> controller" where
  "new_controller d = arm_total d
     \<lparr>ct_active = True, ct_cause = [], ct_gen = 0, ct_phase = None, ct_total = None, ct_running = [],
      ct_closing = 0, ct_closes = 0, ct_wg = 0, ct_stopped = False\<rparr>"

definition arm_phase :: "int \<Rightarrow> string \<Rightarrow> controller \<Rightarrow> controller" where
  "arm_phase d cause s =
     (let g = ct_gen s + 1 in
      s\<lparr>ct_gen := g, ct_wg := ct_wg s - stopped_in_time (ct_phase s) + 1,
        ct_phase := Some \<lparr>tm_gen = g, tm_cause = cause, tm_delay = delay d\<rparr>\<rparr>)"

definition fire :: "timer \<Rightarrow> controller \<Rightarrow> controller" where
  "fire t s =
     (if \<not> ct_active s \<or> (tm_gen t \<noteq> 0 \<and> tm_gen t \<noteq> ct_gen s) \<or> ct_cause s \<noteq> []
      then s\<lparr>ct_wg := ct_wg s - 1\<rparr>
      else s\<lparr>ct_cause := tm_cause t, ct_active := False, ct_closing := ct_closing s + 1\<rparr>)"

definition close_upstream :: "controller \<Rightarrow> controller" where
  "close_upstream s = s\<lparr>ct_closing := ct_closing s - 1, ct_closes := ct_closes s + 1, ct_wg := ct_wg s - 1\<rparr>"

definition stop :: "controller \<Rightarrow> controller" where
  "stop s =
     s\<lparr>ct_active := False, ct_gen := ct_gen s + 1,
       ct_wg := ct_wg s - stopped_in_time (ct_phase s) - stopped_in_time (ct_total s),
       ct_phase := None, ct_total := None, ct_stopped := True\<rparr>"

text \<open>The three phases the pump arms.\<close>

definition first_data :: "int \<Rightarrow> controller \<Rightarrow> controller" where
  "first_data d = arm_phase d ''first_data''"

definition progressed :: "limits \<Rightarrow> controller \<Rightarrow> controller" where
  "progressed l = arm_phase (lm_idle l) ''idle''"

definition finished :: "limits \<Rightarrow> controller \<Rightarrow> controller" where
  "finished l = arm_phase (lm_grace l) ''finish_grace''"

section \<open>Interleavings\<close>

datatype action = Arm int string | ExpirePhase | ExpireTotal | Fire timer | CloseUpstream | Stop

inductive ctl_step :: "action \<Rightarrow> controller \<Rightarrow> controller \<Rightarrow> bool" where
  arm: "\<not> ct_stopped s \<Longrightarrow> cause \<noteq> [] \<Longrightarrow> ctl_step (Arm d cause) s (arm_phase d cause s)"
| expire_phase: "ct_phase s = Some t \<Longrightarrow>
    ctl_step ExpirePhase s (s\<lparr>ct_phase := None, ct_running := ct_running s @ [t]\<rparr>)"
| expire_total: "ct_total s = Some t \<Longrightarrow>
    ctl_step ExpireTotal s (s\<lparr>ct_total := None, ct_running := ct_running s @ [t]\<rparr>)"
| fire: "t \<in> set (ct_running s) \<Longrightarrow>
    ctl_step (Fire t) s (fire t (s\<lparr>ct_running := remove1 t (ct_running s)\<rparr>))"
| close: "0 < ct_closing s \<Longrightarrow> ctl_step CloseUpstream s (close_upstream s)"
| stop: "\<not> ct_stopped s \<Longrightarrow> ctl_step Stop s (stop s)"

inductive_cases ArmE: "ctl_step (Arm d cause) s s'"
inductive_cases FireE: "ctl_step (Fire t) s s'"
inductive_cases StopE: "ctl_step Stop s s'"
inductive_simps fire_step_iff: "ctl_step (Fire t) s s'"
inductive_simps close_step_iff: "ctl_step CloseUpstream s s'"

inductive ctl_run :: "action list \<Rightarrow> controller \<Rightarrow> controller \<Rightarrow> bool" where
  none: "ctl_run [] s s"
| snoc: "ctl_run as s s' \<Longrightarrow> ctl_step a s' s'' \<Longrightarrow> ctl_run (as @ [a]) s s''"

inductive_cases run_snocE: "ctl_run (as @ [a]) s s''"

section \<open>The invariant\<close>

definition pending :: "controller \<Rightarrow> int" where
  "pending s = stopped_in_time (ct_phase s) + stopped_in_time (ct_total s) + int (length (ct_running s)) + int (ct_closing s)"

definition live_timers :: "controller \<Rightarrow> timer set" where
  "live_timers s = set (ct_running s) \<union> set_option (ct_phase s) \<union> set_option (ct_total s)"

definition accountable :: "controller \<Rightarrow> bool" where
  "accountable s =
     (ct_wg s = pending s
      \<and> ct_closes s + ct_closing s = (if ct_cause s = [] then 0 else 1)
      \<and> (ct_active s \<longrightarrow> ct_cause s = [] \<and> \<not> ct_stopped s)
      \<and> (ct_stopped s \<longrightarrow> ct_phase s = None \<and> ct_total s = None)
      \<and> (\<forall>t \<in> live_timers s. tm_cause t \<noteq> [] \<and> tm_gen t \<le> ct_gen s))"

lemma accountable_new: "accountable (new_controller d)"
  by (simp add: accountable_def new_controller_def arm_total_def pending_def stopped_in_time_def live_timers_def)

lemma length_remove1_in: "t \<in> set xs \<Longrightarrow> length xs = Suc (length (remove1 t xs))"
  by (induction xs) auto

lemma set_remove1_le: "x \<in> set (remove1 t xs) \<Longrightarrow> x \<in> set xs"
  using set_remove1_subset by fast

lemma accountable_step: "ctl_step a s s' \<Longrightarrow> accountable s \<Longrightarrow> accountable s'"
proof (induction rule: ctl_step.induct)
  case (arm s cause d)
  then show ?case
    by (auto simp: accountable_def arm_phase_def Let_def pending_def live_timers_def stopped_in_time_def
        intro: le_SucI)
next
  case (expire_phase s t)
  then show ?case by (auto simp: accountable_def pending_def live_timers_def stopped_in_time_def)
next
  case (expire_total s t)
  then show ?case by (auto simp: accountable_def pending_def live_timers_def stopped_in_time_def)
next
  case (fire t s)
  then have l: "length (ct_running s) = Suc (length (remove1 t (ct_running s)))"
    by (intro length_remove1_in)
  have "tm_cause t \<noteq> []" using fire by (auto simp: accountable_def live_timers_def)
  then show ?case using fire l
    by (auto simp: accountable_def pending_def live_timers_def fire_def dest: set_remove1_le)
next
  case (close s)
  then show ?case by (auto simp: accountable_def pending_def live_timers_def close_upstream_def split: if_splits)
next
  case (stop s)
  then show ?case by (auto simp: accountable_def pending_def live_timers_def stop_def stopped_in_time_def intro: le_SucI)
qed

lemma accountable_run: "ctl_run as s s' \<Longrightarrow> accountable s \<Longrightarrow> accountable s'"
  by (induction rule: ctl_run.induct) (simp_all add: accountable_step)

text \<open>A cause once claimed stays.\<close>

lemma cause_step: "ctl_step a s s' \<Longrightarrow> ct_cause s \<noteq> [] \<Longrightarrow> ct_cause s' = ct_cause s"
  by (induction rule: ctl_step.induct)
    (auto simp: arm_phase_def Let_def fire_def close_upstream_def stop_def)

lemma cause_run: "ctl_run as s s' \<Longrightarrow> ct_cause s \<noteq> [] \<Longrightarrow> ct_cause s' = ct_cause s"
  by (induction rule: ctl_run.induct) (auto simp: cause_step)

text \<open>The cause of the phase timer of the current generation is that of the last arm.\<close>

primrec last_arm :: "action list \<Rightarrow> string \<Rightarrow> string" where
  "last_arm [] c = c"
| "last_arm (a # as) c = last_arm as (case a of Arm _ d \<Rightarrow> d | _ \<Rightarrow> c)"

lemma last_arm_snoc: "last_arm (as @ [a]) c = (case a of Arm _ d \<Rightarrow> d | _ \<Rightarrow> last_arm as c)"
  by (induction as arbitrary: c) (simp_all split: action.split)

definition current :: "string \<Rightarrow> controller \<Rightarrow> bool" where
  "current c s =
     (\<forall>t \<in> live_timers s. tm_gen t \<le> ct_gen s
        \<and> (tm_gen t = 0 \<longrightarrow> tm_cause t = ''total'')
        \<and> (\<not> ct_stopped s \<and> tm_gen t \<noteq> 0 \<and> tm_gen t = ct_gen s \<longrightarrow> tm_cause t = c))"

lemma current_fewer: "current c s \<Longrightarrow> live_timers s' \<subseteq> live_timers s \<Longrightarrow> ct_gen s' = ct_gen s \<Longrightarrow>
    ct_stopped s' = ct_stopped s \<Longrightarrow> current c s'"
  by (auto simp: current_def)

lemma current_step:
  assumes "ctl_step a s s'" "current c s"
  shows "current (case a of Arm _ d \<Rightarrow> d | _ \<Rightarrow> c) s'"
  using assms
proof (induction rule: ctl_step.induct)
  case (arm s cause d)
  let ?n = "\<lparr>tm_gen = ct_gen s + 1, tm_cause = cause, tm_delay = delay d\<rparr>"
  have "t = ?n \<or> t \<in> live_timers s" if "t \<in> live_timers (arm_phase d cause s)" for t
    using that by (auto simp: arm_phase_def Let_def live_timers_def)
  moreover have old: "tm_gen t < ct_gen s + 1" "tm_gen t = 0 \<Longrightarrow> tm_cause t = ''total''" if "t \<in> live_timers s" for t
    using arm(3) that by (auto simp: current_def)
  have new: "ct_gen (arm_phase d cause s) = ct_gen s + 1" by (simp add: arm_phase_def Let_def)
  show ?case unfolding current_def action.case new
  proof
    fix t assume "t \<in> live_timers (arm_phase d cause s)"
    then consider "t = ?n" | "t \<in> live_timers s" using calculation by blast
    then show "tm_gen t \<le> ct_gen s + 1 \<and> (tm_gen t = 0 \<longrightarrow> tm_cause t = ''total'')
        \<and> (\<not> ct_stopped (arm_phase d cause s) \<and> tm_gen t \<noteq> 0 \<and> tm_gen t = ct_gen s + 1 \<longrightarrow> tm_cause t = cause)"
    proof cases
      case 2
      then show ?thesis using old [OF 2] by linarith
    qed simp
  qed
next
  case (fire t s)
  have "live_timers (Controller.fire t (s\<lparr>ct_running := remove1 t (ct_running s)\<rparr>)) \<subseteq> live_timers s"
    by (auto simp: live_timers_def fire_def dest: set_remove1_le)
  then have "current c (Controller.fire t (s\<lparr>ct_running := remove1 t (ct_running s)\<rparr>))"
    by (rule current_fewer [OF fire(2)]) (simp_all add: fire_def)
  then show ?case by simp
next
  case (expire_phase s t)
  have "current c (s\<lparr>ct_phase := None, ct_running := ct_running s @ [t]\<rparr>)"
    by (rule current_fewer [OF expire_phase(2)]) (use expire_phase(1) in \<open>auto simp: live_timers_def\<close>)
  then show ?case by simp
next
  case (expire_total s t)
  have "current c (s\<lparr>ct_total := None, ct_running := ct_running s @ [t]\<rparr>)"
    by (rule current_fewer [OF expire_total(2)]) (use expire_total(1) in \<open>auto simp: live_timers_def\<close>)
  then show ?case by simp
next
  case (close s)
  have "current c (close_upstream s)"
    by (rule current_fewer [OF close(2)]) (simp_all add: live_timers_def close_upstream_def)
  then show ?case by simp
next
  case (stop s)
  then show ?case by (auto simp: current_def live_timers_def stop_def intro: le_SucI)
qed

lemma current_run: "ctl_run as s s' \<Longrightarrow> current c s \<Longrightarrow> current (last_arm as c) s'"
proof (induction rule: ctl_run.induct)
  case (snoc as s s' a s'')
  then show ?case using current_step [OF snoc(2), of "last_arm as c"] by (simp add: last_arm_snoc split: action.splits)
qed simp

lemma current_new: "current c (new_controller d)"
  by (simp add: current_def new_controller_def arm_total_def live_timers_def)

section \<open>Stopping\<close>

definition callback :: "action \<Rightarrow> bool" where
  "callback a = (case a of Fire _ \<Rightarrow> True | CloseUpstream \<Rightarrow> True | _ \<Rightarrow> False)"

text \<open>Work the callbacks of a stopped controller still have: a callback at the mutex may claim nothing.\<close>

definition work :: "controller \<Rightarrow> nat" where
  "work s = length (ct_running s) + ct_closing s"

lemma stopped_inactive: "accountable s \<Longrightarrow> ct_stopped s \<Longrightarrow> \<not> ct_active s"
  by (auto simp: accountable_def)

lemma stopped_step:
  assumes "ctl_step a s s'" "accountable s" "ct_stopped s"
  shows "callback a \<and> ct_stopped s' \<and> work s = Suc (work s')"
  using assms
proof (induction rule: ctl_step.induct)
  case (fire t s)
  moreover have "length (ct_running s) = Suc (length (remove1 t (ct_running s)))"
    using fire(1) by (rule length_remove1_in)
  ultimately show ?case by (auto simp: fire_def work_def callback_def accountable_def)
qed (auto simp: work_def callback_def accountable_def close_upstream_def)

lemma stopped_waits: "accountable s \<Longrightarrow> ct_stopped s \<Longrightarrow> ct_wg s = int (work s)"
  by (auto simp: accountable_def pending_def stopped_in_time_def work_def)

lemma stopped_progress:
  assumes "work s \<noteq> 0"
  shows "\<exists>a s'. ctl_step a s s'"
proof (cases "ct_running s")
  case Nil
  then have "0 < ct_closing s" using assms by (simp add: work_def)
  then show ?thesis using ctl_step.close by blast
next
  case (Cons t ts)
  then have "t \<in> set (ct_running s)" by simp
  then show ?thesis using ctl_step.fire by blast
qed

lemma stopped_run:
  "ctl_run as s s' \<Longrightarrow> accountable s \<Longrightarrow> ct_stopped s \<Longrightarrow>
     ct_stopped s' \<and> accountable s' \<and> work s = length as + work s' \<and> list_all callback as"
proof (induction rule: ctl_run.induct)
  case (snoc as s s' a s'')
  then show ?case using stopped_step [OF snoc(2)] accountable_step [OF snoc(2)] by auto
qed simp

lemma stopped_drains:
  assumes "accountable s" "ct_stopped s"
  shows "\<exists>as s'. ctl_run as s s' \<and> work s' = 0"
proof -
  have "\<exists>as s'. ctl_run as s s' \<and> work s' = work s - k" for k
  proof (induction k)
    case 0
    then show ?case using ctl_run.none by fastforce
  next
    case (Suc k)
    then obtain as s' where r: "ctl_run as s s'" "work s' = work s - k" by blast
    show ?case
    proof (cases "work s' = 0")
      case True
      then show ?thesis using r by (intro exI [of _ as] exI [of _ s']) simp
    next
      case False
      then obtain a s'' where a: "ctl_step a s' s''" using stopped_progress by blast
      have "work s' = Suc (work s'')" using stopped_step [OF a] stopped_run [OF r(1) assms] by blast
      then show ?thesis using r ctl_run.snoc [OF r(1) a] by (intro exI [of _ "as @ [a]"] exI [of _ s'']) simp
    qed
  qed
  from this [of "work s"] show ?thesis by simp
qed

section \<open>Properties\<close>

definition sample_timer :: timer where
  "sample_timer = \<lparr>tm_gen = 1, tm_cause = ''idle'', tm_delay = 5\<rparr>"

definition sample_expired :: controller where
  "sample_expired = (arm_phase 5 ''idle'' (new_controller 9))\<lparr>ct_phase := None, ct_running := [sample_timer]\<rparr>"

lemma sample_run: "ctl_run [Arm 5 ''idle'', ExpirePhase] (new_controller 9) sample_expired"
proof -
  let ?s = "arm_phase 5 ''idle'' (new_controller 9)"
  have "ctl_step (Arm 5 ''idle'') (new_controller 9) ?s"
    by (rule ctl_step.arm) (simp_all add: new_controller_def arm_total_def)
  then have "ctl_run [Arm 5 ''idle''] (new_controller 9) ?s" using ctl_run.snoc [OF ctl_run.none] by fastforce
  moreover have "ct_phase ?s = Some sample_timer" "ct_running ?s = []"
    by (simp_all add: arm_phase_def Let_def new_controller_def arm_total_def sample_timer_def delay_def)
  then have "ctl_step ExpirePhase ?s sample_expired"
    using ctl_step.expire_phase [of ?s sample_timer] by (simp add: sample_expired_def)
  ultimately show ?thesis using ctl_run.snoc by fastforce
qed

lemma sample_fire: "ctl_step (Fire sample_timer) sample_expired (fire sample_timer (sample_expired\<lparr>ct_running := []\<rparr>))"
  using ctl_step.fire [of sample_timer sample_expired] by (simp add: sample_expired_def)

lemma sample_claims:
  "ct_cause sample_expired = []" "ct_cause (fire sample_timer (sample_expired\<lparr>ct_running := []\<rparr>)) = ''idle''"
  by (simp_all add: sample_expired_def sample_timer_def fire_def arm_phase_def Let_def new_controller_def arm_total_def)

text \<open>
  C27. In every interleaving of the pump, the timers and their callbacks, the callbacks close the
  upstream stream at most once, and only after one of them claimed the cause of the end; the cause
  never changes once claimed; and the wait group never goes negative.
\<close>

theorem timers_close_once:
  assumes "ctl_run as (new_controller d) s" "ctl_run bs s s'"
  shows "ct_closes s + ct_closing s = (if ct_cause s = [] then 0 else 1) \<and> 0 \<le> ct_wg s
    \<and> (ct_cause s = [] \<or> ct_cause s' = ct_cause s)"
proof -
  have "accountable s" using accountable_run [OF assms(1) accountable_new] .
  then show ?thesis using cause_run [OF assms(2)]
    by (auto simp: accountable_def pending_def stopped_in_time_def)
qed

lemma timers_close_once_witness:
  "ct_closes sample_expired + ct_closing sample_expired = 0 \<and> 0 \<le> ct_wg sample_expired"
  using timers_close_once [OF sample_run ctl_run.none] sample_claims(1) by simp

text \<open>
  C26. A timer that was replaced cannot end the stream: the cause a callback claims is total, or
  the phase that was armed last, in every interleaving.
\<close>

theorem claimed_cause_current:
  assumes "ctl_run as (new_controller d) s" "ctl_step (Fire t) s s'" "ct_cause s = []" "ct_cause s' \<noteq> []"
  shows "ct_cause s' \<in> {''total'', last_arm as []}"
proof -
  have a: "accountable s" using accountable_run [OF assms(1) accountable_new] .
  have t: "t \<in> live_timers s" and s': "s' = fire t (s\<lparr>ct_running := remove1 t (ct_running s)\<rparr>)"
    using assms(2) by (auto simp: fire_step_iff live_timers_def)
  then have c: "ct_cause s' = tm_cause t" "ct_active s" "tm_gen t = 0 \<or> tm_gen t = ct_gen s"
    using assms(3,4) by (auto simp: fire_def split: if_splits)
  then show ?thesis using current_run [OF assms(1) current_new, of "[]"] t a
    by (auto simp: current_def accountable_def)
qed

lemma claimed_cause_current_witness:
  "ct_cause (fire sample_timer (sample_expired\<lparr>ct_running := []\<rparr>)) \<in> {''total'', ''idle''}"
  using claimed_cause_current [OF sample_run sample_fire] sample_claims by simp

text \<open>
  C0. \<open>stop\<close> returns: once it has marked the controller, every interleaving of the callbacks
  is finite, one is left to move until the wait group is zero, and then nothing can move any more:
  no timer closes a stream after \<open>stop\<close> returned.
\<close>

theorem stop_returns:
  assumes "ctl_run as (new_controller d) s" "ct_stopped s"
  shows "(\<exists>bs s'. ctl_run bs s s' \<and> ct_wg s' = 0)
    \<and> (\<forall>bs s'. ctl_run bs s s' \<longrightarrow> length bs \<le> work s \<and> (ct_wg s' = 0 \<longleftrightarrow> (\<nexists>a s''. ctl_step a s' s'')))"
proof -
  have a: "accountable s" using accountable_run [OF assms(1) accountable_new] .
  have "ct_wg s' = 0 \<longleftrightarrow> (\<nexists>b s''. ctl_step b s' s'')" if "ctl_run bs s s'" for bs s'
  proof -
    have s': "accountable s'" "ct_stopped s'" using stopped_run [OF that a assms(2)] by auto
    then show ?thesis using stopped_waits [OF s'] stopped_progress [of s'] stopped_step [OF _ s'] by fastforce
  qed
  moreover have "length bs \<le> work s" if "ctl_run bs s s'" for bs s'
    using stopped_run [OF that a assms(2)] by simp
  moreover obtain bs s' where r: "ctl_run bs s s'" "work s' = 0" using stopped_drains [OF a assms(2)] by blast
  moreover have "ct_wg s' = 0" using stopped_run [OF r(1) a assms(2)] stopped_waits r(2) by simp
  ultimately show ?thesis by blast
qed

lemma stop_returns_witness:
  "\<exists>bs s'. ctl_run bs (stop (new_controller 9)) s' \<and> ct_wg s' = 0"
proof -
  have "ctl_step Stop (new_controller 9) (stop (new_controller 9))"
    by (rule ctl_step.stop) (simp add: new_controller_def arm_total_def)
  then have "ctl_run ([] @ [Stop]) (new_controller 9) (stop (new_controller 9))" by (rule ctl_run.snoc [OF ctl_run.none])
  from stop_returns [OF this] show ?thesis by (simp add: stop_def)
qed

end
