(* ===== verification/Kernel.thy ===== *)
theory Kernel
  imports Errclass
begin

text \<open>
  The pure kernels of \<open>internal/adapter/shared/shared.go\<close>: presence tests, the mapping
  tables between the three protocols, usage arithmetic, flattening of text and content parts,
  image sources, the decoding of Claude requests, and the shared error shapes.

  A \<open>json.RawMessage\<close> is a \<open>raw\<close>: \<open>None\<close> when the field is absent. The text of an
  error of \<open>encoding/json\<close> is an argument \<open>diag\<close> of the operations that quote it.
\<close>

type_synonym 'a result = "err + 'a"

section \<open>Raw fields\<close>

definition has_content :: "raw \<Rightarrow> bool" where
  "has_content r = (case r of None \<Rightarrow> False | Some j \<Rightarrow> j \<noteq> JNull)"

text \<open>\<open>json.Unmarshal\<close> of a raw field into a fresh variable: the value when there is no error.\<close>

definition raw_as :: "'a dec \<Rightarrow> 'a \<Rightarrow> raw \<Rightarrow> 'a option" where
  "raw_as d z r =
     (case r of
        None \<Rightarrow> None
      | Some j \<Rightarrow> (let (v, ok) = d j z in if ok then Some v else None))"

definition rewrite_model_id :: "string \<Rightarrow> string \<Rightarrow> string \<Rightarrow> string \<Rightarrow> string result" where
  "rewrite_model_id diag upstream body format_label =
     (case unmarshal dec_raw_map body None of
        (_, False) \<Rightarrow> Inl (translation (''malformed '' @ format_label @ '' request JSON: '' @ diag))
      | (None, True) \<Rightarrow> Inl (translation ''malformed request body: JSON null is not a valid request'')
      | (Some req, True) \<Rightarrow>
          (if map_of req ''model'' = Some (JStr upstream) then Inr body
           else if wf_lit upstream
           then Inr (marshal (GMap (map (\<lambda>(k, v). (k, GRaw v)) (AList.update ''model'' (JStr upstream) req))))
           else Inl (translation ''model id cannot be represented as JSON'')))"

definition default_args :: "string \<Rightarrow> string" where
  "default_args args =
     (let s = trim_space args in
      if s = [] \<or> s = ''null'' then [CHR 0x7B, CHR 0x7D] else args)"

definition empty_object_schema :: json where
  "empty_object_schema = JObj [(''type'', JStr ''object''), (''properties'', JObj [])]"

fun ensure_object_type :: "json \<Rightarrow> json" where
  "ensure_object_type (JObj kvs) =
     (let m = raw_map kvs in
      if map_of m ''type'' \<noteq> None then JObj kvs
      else encode (GMap (map (\<lambda>(k, v). (k, GRaw v)) (m @ [(''type'', JStr ''object'')]))))"
| "ensure_object_type j = j"

definition object_schema :: "raw \<Rightarrow> json" where
  "object_schema r =
     (case r of Some j \<Rightarrow> if j = JNull then empty_object_schema else ensure_object_type j
      | None \<Rightarrow> empty_object_schema)"

section \<open>Tool choice\<close>

datatype tool_choice_kind = ChoiceAbsent | ChoiceAuto | ChoiceAny | ChoiceNone | ChoiceNamed

record tc_name =
  tcn_name :: string
  tcn_namespace :: string

record tc_wire =
  tc_type :: string
  tc_own :: string
  tc_namespace :: string
  tc_function :: tc_name
  tc_custom :: tc_name

definition tc_name_fields :: "(string \<times> tc_name dec) list" where
  "tc_name_fields =
     [(''name'', field tcn_name tcn_name_update dec_string),
      (''namespace'', field tcn_namespace tcn_namespace_update dec_string)]"

definition tc_fields :: "(string \<times> tc_wire dec) list" where
  "tc_fields =
     [(''type'', field tc_type tc_type_update dec_string),
      (''name'', field tc_own tc_own_update dec_string),
      (''namespace'', field tc_namespace tc_namespace_update dec_string),
      (''function'', field tc_function tc_function_update (dec_struct tc_name_fields)),
      (''custom'', field tc_custom tc_custom_update (dec_struct tc_name_fields))]"

definition tc_zero :: tc_wire where
  "tc_zero = \<lparr>tc_type = [], tc_own = [], tc_namespace = [],
     tc_function = \<lparr>tcn_name = [], tcn_namespace = []\<rparr>, tc_custom = \<lparr>tcn_name = [], tcn_namespace = []\<rparr>\<rparr>"

text \<open>The string forms are compared as raw text: a string literal written with escapes is not one of them.\<close>

definition decode_tool_choice_identity :: "string \<Rightarrow> raw \<Rightarrow> (tool_choice_kind \<times> string \<times> string) result" where
  "decode_tool_choice_identity diag r =
     (if \<not> has_content r then Inr (ChoiceAbsent, [], [])
      else (case raw_as (dec_struct tc_fields) tc_zero r of
        None \<Rightarrow>
          (if r = Some (JStr ''auto'') then Inr (ChoiceAuto, [], [])
           else if r = Some (JStr ''any'') \<or> r = Some (JStr ''required'') then Inr (ChoiceAny, [], [])
           else if r = Some (JStr ''none'') then Inr (ChoiceNone, [], [])
           else Inl (translation (''malformed tool_choice: '' @ diag)))
      | Some tc \<Rightarrow>
          (let nm0 = tcn_name (tc_function tc);
               ns0 = tcn_namespace (tc_function tc);
               (nm1, ns1) = (if nm0 = [] then (tcn_name (tc_custom tc), tcn_namespace (tc_custom tc)) else (nm0, ns0));
               nm = (if nm1 = [] then tc_own tc else nm1);
               ns = (if ns1 = [] then tc_namespace tc else ns1);
               ty = tc_type tc
           in if ty = ''auto'' then Inr (ChoiceAuto, [], [])
              else if ty = ''any'' \<or> ty = ''required'' then Inr (ChoiceAny, [], [])
              else if ty = ''none'' then Inr (ChoiceNone, [], [])
              else if ty = ''tool'' \<or> ty = ''function'' \<or> ty = ''custom'' then
                (if nm = [] then Inl (translation ''malformed tool_choice: named tool requires a name'')
                 else Inr (ChoiceNamed, nm, ns))
              else Inl (translation (''unsupported tool_choice type '' @ go_q ty)))))"

definition decode_tool_choice :: "string \<Rightarrow> raw \<Rightarrow> (tool_choice_kind \<times> string) result" where
  "decode_tool_choice diag r =
     (case decode_tool_choice_identity diag r of
        Inl e \<Rightarrow> Inl e
      | Inr (k, nm, ns) \<Rightarrow> Inr (k, if ns \<noteq> [] \<and> nm \<noteq> [] then ns @ ''__'' @ nm else nm))"

section \<open>Images\<close>

datatype image_ref =
    ImgBase64 (img_media: string) (img_data: string)
  | ImgUrl (img_url: string)

text \<open>The Anthropic block \<open>{type:image, source:{...}}\<close>.\<close>

fun image_block :: "image_ref \<Rightarrow> gv" where
  "image_block (ImgBase64 m d) =
     GMap [(''type'', GStr ''image''),
       (''source'', GMap [(''type'', GStr ''base64''), (''media_type'', GStr m), (''data'', GStr d)])]"
| "image_block (ImgUrl u) =
     GMap [(''type'', GStr ''image''), (''source'', GMap [(''type'', GStr ''url''), (''url'', GStr u)])]"

definition octet_stream :: string where
  "octet_stream = ''application/octet-stream''"

definition image_source :: "string \<Rightarrow> image_ref result" where
  "image_source url =
     (case cut_prefix ''data:'' url of
        None \<Rightarrow> Inr (ImgUrl url)
      | Some rest \<Rightarrow>
          (case split_at CHR '','' rest of
             None \<Rightarrow> Inl (translation (''malformed data URL: missing '' @ [CHR 0x27, CHR '','', CHR 0x27] @ '' separator''))
           | Some (meta, body) \<Rightarrow>
               (if has_suffix meta '';base64''
                then (let media = trim_suffix meta '';base64'' in
                      Inr (ImgBase64 (if media = [] then octet_stream else media) body))
                else Inr (ImgUrl url))))"

definition claude_image_url :: "string \<Rightarrow> string \<Rightarrow> string \<Rightarrow> string \<Rightarrow> string result" where
  "claude_image_url src_type url media_type data =
     (if src_type = ''url'' then
        (if url = [] then Inl (translation ''image source missing url'') else Inr url)
      else if src_type = ''base64'' then
        (if data = [] then Inl (translation ''base64 image source missing data'')
         else Inr (''data:'' @ (if media_type = [] then octet_stream else media_type) @ '';base64,'' @ data))
      else Inl (translation (''unsupported image source type '' @ go_q src_type)))"

section \<open>Stop reasons\<close>

definition claude_stop_to_finish :: "string \<Rightarrow> string" where
  "claude_stop_to_finish stop =
     (if stop = ''tool_use'' then ''tool_calls''
      else if stop = ''max_tokens'' then ''length''
      else if stop = ''refusal'' then ''content_filter''
      else ''stop'')"

definition finish_to_claude_stop :: "string \<Rightarrow> string" where
  "finish_to_claude_stop finish =
     (if finish = ''tool_calls'' then ''tool_use''
      else if finish = ''length'' then ''max_tokens''
      else if finish = ''content_filter'' then ''refusal''
      else ''end_turn'')"

definition terminal_reason :: "bool \<Rightarrow> string \<Rightarrow> string \<Rightarrow> string" where
  "terminal_reason seen tool_reason status_reason = (if seen then tool_reason else status_reason)"

definition response_status_from_cc_finish :: "string \<Rightarrow> string" where
  "response_status_from_cc_finish finish = (if finish = ''length'' then ''incomplete'' else ''completed'')"

definition response_status_from_claude_stop :: "string \<Rightarrow> string" where
  "response_status_from_claude_stop stop = (if stop = ''max_tokens'' then ''incomplete'' else ''completed'')"

definition cc_finish_from_response_status :: "string \<Rightarrow> string" where
  "cc_finish_from_response_status status = (if status = ''incomplete'' then ''length'' else ''stop'')"

definition claude_stop_from_response_status :: "string \<Rightarrow> string" where
  "claude_stop_from_response_status status = (if status = ''incomplete'' then ''max_tokens'' else ''end_turn'')"

definition claude_max_tokens :: "int \<Rightarrow> int" where
  "claude_max_tokens n = (if 0 < n then n else 4096)"

section \<open>Flattening text\<close>

record text_part =
  tp_type :: string
  tp_text :: string

definition text_part_zero :: text_part where
  "text_part_zero = \<lparr>tp_type = [], tp_text = []\<rparr>"

definition text_part_fields :: "(string \<times> text_part dec) list" where
  "text_part_fields =
     [(''type'', field tp_type tp_type_update dec_string), (''text'', field tp_text tp_text_update dec_string)]"

definition dec_text_parts :: "text_part list dec" where
  "dec_text_parts = dec_list text_part_zero (dec_struct text_part_fields)"

text \<open>The loops over the parts, with the string builder as accumulator.\<close>

fun join_system :: "text_part list \<Rightarrow> string \<Rightarrow> string result" where
  "join_system [] b = Inr b"
| "join_system (p # ps) b =
     (if tp_type p \<noteq> ''text'' then Inl (translation (''unsupported system block type '' @ go_q (tp_type p)))
      else join_system ps ((if b \<noteq> [] then b @ [nl, nl] else b) @ tp_text p))"

definition claude_system_text :: "raw \<Rightarrow> string result" where
  "claude_system_text r =
     (if \<not> has_content r then Inr []
      else (case raw_as dec_string [] r of
        Some s \<Rightarrow> Inr s
      | None \<Rightarrow>
          (case raw_as dec_text_parts [] r of
             None \<Rightarrow> Inl (translation ''malformed system field'')
           | Some blocks \<Rightarrow> join_system blocks [])))"

fun join_output :: "text_part list \<Rightarrow> string \<Rightarrow> string result" where
  "join_output [] b = Inr b"
| "join_output (p # ps) b =
     (if tp_type p \<in> {''text'', ''input_text'', ''output_text''} then join_output ps (b @ tp_text p)
      else Inl (translation (''unsupported tool content part type '' @ go_q (tp_type p)
                 @ ''; function_call_output carries text only'')))"

definition function_call_output_text :: "string \<Rightarrow> raw \<Rightarrow> string result" where
  "function_call_output_text diag r =
     (if \<not> has_content r then Inr []
      else (case raw_as dec_string [] r of
        Some s \<Rightarrow> Inr s
      | None \<Rightarrow>
          (case raw_as dec_text_parts [] r of
             None \<Rightarrow> Inl (translation
               (''function_call_output.output must be a string or an array of text parts: '' @ diag))
           | Some parts \<Rightarrow> join_output parts [])))"

fun join_tool_result :: "string \<Rightarrow> text_part list \<Rightarrow> string \<Rightarrow> string result" where
  "join_tool_result noun [] b = Inr b"
| "join_tool_result noun (p # ps) b =
     (if tp_type p \<noteq> ''text''
      then Inl (translation (''unsupported tool_result block type '' @ go_q (tp_type p) @ ''; '' @ noun))
      else join_tool_result noun ps (b @ tp_text p))"

definition tool_result_text :: "raw \<Rightarrow> string \<Rightarrow> string result" where
  "tool_result_text r noun =
     (if \<not> has_content r then Inr []
      else (case raw_as dec_string [] r of
        Some s \<Rightarrow> Inr s
      | None \<Rightarrow>
          (case raw_as dec_text_parts [] r of
             None \<Rightarrow> Inl (translation ''tool_result content must be a string or an array of blocks'')
           | Some blocks \<Rightarrow> join_tool_result noun blocks [])))"

definition is_sse_done :: "string \<Rightarrow> bool" where
  "is_sse_done payload = (trim_space payload = ''[DONE]'')"

section \<open>Reasoning text\<close>

record reasoning_fields =
  r_reasoning :: string
  r_content :: string
  r_details :: "string list"

definition reasoning_text :: "reasoning_fields \<Rightarrow> string \<times> bool" where
  "reasoning_text f =
     (let parts = filter (\<lambda>t. trim_space t \<noteq> []) (r_details f) in
      if parts \<noteq> [] then (concat parts, True)
      else if trim_space (r_reasoning f) \<noteq> [] then (r_reasoning f, True)
      else if trim_space (r_content f) \<noteq> [] then (r_content f, True)
      else ([], False))"

definition dec_detail :: "string dec" where
  "dec_detail = dec_struct [(''text'', dec_string)]"

section \<open>Upstream errors\<close>

definition redacted_snippet :: "string \<Rightarrow> string" where
  "redacted_snippet s = (let r = redact s in if 80 < length r then take 80 r @ ''...'' else r)"

definition snippet_bound :: nat where
  "snippet_bound = 4096"

definition upstream_status_error :: "int \<Rightarrow> string \<Rightarrow> err" where
  "upstream_status_error status body =
     from_status status (redacted_snippet (if snippet_bound < length body then take snippet_bound body else body))"

section \<open>Usage\<close>

record usage_details =
  u_cached :: "int option"
  u_cache_write :: "int option"
  u_reasoning :: "int option"

definition no_details :: usage_details where
  "no_details = \<lparr>u_cached = None, u_cache_write = None, u_reasoning = None\<rparr>"

fun clamp_subtract_loop :: "int \<Rightarrow> int option list \<Rightarrow> int" where
  "clamp_subtract_loop v [] = v"
| "clamp_subtract_loop v (None # ps) = clamp_subtract_loop v ps"
| "clamp_subtract_loop v (Some p # ps) = clamp_subtract_loop (wrap64 (v - p)) ps"

definition clamp_subtract :: "int \<Rightarrow> int option list \<Rightarrow> int" where
  "clamp_subtract value parts = (let v = clamp_subtract_loop value parts in if v < 0 then 0 else v)"

record responses_usage =
  ru_input :: int
  ru_output :: int
  ru_total :: int
  ru_input_details :: "(int option \<times> int option) option"
  ru_output_details :: "int option option"

definition new_responses_usage_from :: "int \<Rightarrow> int \<Rightarrow> usage_details \<Rightarrow> responses_usage" where
  "new_responses_usage_from input output d =
     \<lparr>ru_input = input, ru_output = output, ru_total = wrap64 (input + output),
      ru_input_details =
        (if u_cached d \<noteq> None \<or> u_cache_write d \<noteq> None then Some (u_cached d, u_cache_write d) else None),
      ru_output_details = (if u_reasoning d \<noteq> None then Some (u_reasoning d) else None)\<rparr>"

definition opt_field :: "string \<Rightarrow> int option \<Rightarrow> (string \<times> gv) list" where
  "opt_field k v = (case v of None \<Rightarrow> [] | Some n \<Rightarrow> [(k, GInt n)])"

definition gv_responses_usage :: "responses_usage \<Rightarrow> gv" where
  "gv_responses_usage u =
     GStruct ([(''input_tokens'', GInt (ru_input u)), (''output_tokens'', GInt (ru_output u)),
       (''total_tokens'', GInt (ru_total u))]
       @ (case ru_input_details u of None \<Rightarrow> []
          | Some (c, w) \<Rightarrow> [(''input_tokens_details'',
              GStruct (opt_field ''cached_tokens'' c @ opt_field ''cache_write_tokens'' w))])
       @ (case ru_output_details u of None \<Rightarrow> []
          | Some r \<Rightarrow> [(''output_tokens_details'', GStruct (opt_field ''reasoning_tokens'' r))]))"

definition cc_usage_from :: "int \<Rightarrow> int \<Rightarrow> usage_details \<Rightarrow> gv" where
  "cc_usage_from prompt completion d =
     GMap ([(''prompt_tokens'', GInt prompt), (''completion_tokens'', GInt completion),
       (''total_tokens'', GInt (wrap64 (prompt + completion)))]
       @ (case u_cached d of None \<Rightarrow> []
          | Some n \<Rightarrow> [(''prompt_tokens_details'', GMap [(''cached_tokens'', GInt n)])])
       @ (case u_reasoning d of None \<Rightarrow> []
          | Some n \<Rightarrow> [(''completion_tokens_details'', GMap [(''reasoning_tokens'', GInt n)])]))"

definition claude_usage :: "int \<Rightarrow> int \<Rightarrow> int option \<Rightarrow> int option \<Rightarrow> gv" where
  "claude_usage input output cache_read cache_write =
     GMap ([(''input_tokens'', GInt input), (''output_tokens'', GInt output)]
       @ opt_field ''cache_read_input_tokens'' cache_read
       @ opt_field ''cache_creation_input_tokens'' cache_write)"

section \<open>Result envelopes\<close>

definition cc_tool_call_opening_entry :: "int \<Rightarrow> string \<Rightarrow> string \<Rightarrow> string \<Rightarrow> gv" where
  "cc_tool_call_opening_entry index call_id nm args_delta =
     GMap [(''index'', GInt index), (''id'', GStr call_id), (''type'', GStr ''function''),
       (''function'', GMap [(''name'', GStr nm), (''arguments'', GStr args_delta)])]"

definition completion_envelope :: "string \<Rightarrow> string \<Rightarrow> int \<Rightarrow> gv list \<Rightarrow> gv \<Rightarrow> gv" where
  "completion_envelope i model created choices usage =
     GMap [(''id'', GStr i), (''object'', GStr ''chat.completion''), (''created'', GInt created),
       (''model'', GStr model), (''choices'', GArr choices), (''usage'', usage)]"

text \<open>A nil content list is an empty array here already.\<close>

definition new_claude_result ::
    "string \<Rightarrow> string \<Rightarrow> string \<Rightarrow> int \<Rightarrow> int \<Rightarrow> int option \<Rightarrow> int option \<Rightarrow> gv list \<Rightarrow> gv" where
  "new_claude_result i model stop_reason input output cache_read cache_creation content =
     GMap [(''id'', GStr i), (''type'', GStr ''message''), (''role'', GStr ''assistant''),
       (''model'', GStr model), (''content'', GArr content), (''stop_reason'', GStr stop_reason),
       (''usage'', claude_usage input output cache_read cache_creation)]"

section \<open>Properties\<close>

text \<open>
  The stop-reason tables of the two protocols are inverse to each other on every reason they
  know, an unknown reason falls back to a plain stop on both sides, and the Responses status
  derived on either side of the table is the same.
\<close>

theorem stop_reasons_inverse:
  "claude_stop_to_finish (finish_to_claude_stop f)
     = (if f \<in> {''tool_calls'', ''length'', ''content_filter''} then f else ''stop'')
   \<and> finish_to_claude_stop (claude_stop_to_finish s)
     = (if s \<in> {''tool_use'', ''max_tokens'', ''refusal''} then s else ''end_turn'')
   \<and> response_status_from_claude_stop (finish_to_claude_stop f) = response_status_from_cc_finish f
   \<and> claude_stop_from_response_status (response_status_from_claude_stop s)
     = (if s = ''max_tokens'' then s else ''end_turn'')"
  by (auto simp: claude_stop_to_finish_def finish_to_claude_stop_def response_status_from_claude_stop_def
    response_status_from_cc_finish_def claude_stop_from_response_status_def)

lemma clamp_loop_sum:
  assumes "\<forall>p \<in> set (map (\<lambda>p. case p of None \<Rightarrow> 0 | Some n \<Rightarrow> n) ps). 0 \<le> p"
    and "v < 2 ^ 63" "sum_list (map (\<lambda>p. case p of None \<Rightarrow> 0 | Some n \<Rightarrow> n) ps) \<le> v + 2 ^ 63"
  shows "clamp_subtract_loop v ps = v - sum_list (map (\<lambda>p. case p of None \<Rightarrow> 0 | Some n \<Rightarrow> n) ps)"
  using assms
proof (induction v ps rule: clamp_subtract_loop.induct)
  case (3 v p ps)
  let ?s = "sum_list (map (\<lambda>p. case p of None \<Rightarrow> 0 | Some n \<Rightarrow> n) ps)"
  have "0 \<le> ?s" using 3(2) by (intro sum_list_nonneg) auto
  moreover have "0 \<le> p" using 3(2) by simp
  ultimately have "int64 (v - p)" using 3(3,4) by (simp add: int64_def)
  then show ?case using 3 by simp
qed auto

text \<open>
  Token arithmetic: subtracting the cached parts never gives a negative count whatever wraps,
  and it is the exact truncated difference when the counts are non-negative and their sum fits;
  both usage builders report the same total, the exact sum when it fits in 64 bits.
\<close>

theorem usage_arithmetic:
  "0 \<le> clamp_subtract v ps
   \<and> ((\<forall>p \<in> set ps. \<forall>n. p = Some n \<longrightarrow> 0 \<le> n) \<longrightarrow> 0 \<le> v \<longrightarrow> v < 2 ^ 63
        \<longrightarrow> sum_list (map (\<lambda>p. case p of None \<Rightarrow> 0 | Some n \<Rightarrow> n) ps) \<le> 2 ^ 63
      \<longrightarrow> clamp_subtract v ps = max 0 (v - sum_list (map (\<lambda>p. case p of None \<Rightarrow> 0 | Some n \<Rightarrow> n) ps)))
   \<and> (int64 (input + output) \<longrightarrow> ru_total (new_responses_usage_from input output d) = input + output)
   \<and> (\<exists>rest. cc_usage_from input output d = GMap ([(''prompt_tokens'', GInt input), (''completion_tokens'', GInt output),
          (''total_tokens'', GInt (ru_total (new_responses_usage_from input output d)))] @ rest))"
proof (intro conjI impI)
  show "0 \<le> clamp_subtract v ps" by (simp add: clamp_subtract_def Let_def)
next
  assume a: "\<forall>p \<in> set ps. \<forall>n. p = Some n \<longrightarrow> 0 \<le> n" "0 \<le> v" "v < 2 ^ 63"
    "sum_list (map (\<lambda>p. case p of None \<Rightarrow> 0 | Some n \<Rightarrow> n) ps) \<le> 2 ^ 63"
  have "\<forall>p \<in> set (map (\<lambda>p. case p of None \<Rightarrow> 0 | Some n \<Rightarrow> n) ps). 0 \<le> p"
    using a(1) by (auto split: option.splits)
  then show "clamp_subtract v ps = max 0 (v - sum_list (map (\<lambda>p. case p of None \<Rightarrow> 0 | Some n \<Rightarrow> n) ps))"
    using clamp_loop_sum [of ps v] a by (simp add: clamp_subtract_def Let_def max_def)
next
  assume "int64 (input + output)"
  then show "ru_total (new_responses_usage_from input output d) = input + output"
    by (simp add: new_responses_usage_from_def)
next
  show "\<exists>rest. cc_usage_from input output d = GMap ([(''prompt_tokens'', GInt input), (''completion_tokens'', GInt output),
          (''total_tokens'', GInt (ru_total (new_responses_usage_from input output d)))] @ rest)"
    by (simp add: cc_usage_from_def new_responses_usage_from_def)
qed

lemma usage_arithmetic_witness:
  "clamp_subtract 10 [Some 4, None, Some 9] = max 0 (10 - 13)"
proof -
  have "(\<forall>p \<in> set [Some (4 :: int), None, Some 9]. \<forall>n. p = Some n \<longrightarrow> 0 \<le> n) \<longrightarrow> 0 \<le> (10 :: int) \<longrightarrow> (10 :: int) < 2 ^ 63
      \<longrightarrow> sum_list (map (\<lambda>p. case p of None \<Rightarrow> 0 | Some n \<Rightarrow> n) [Some 4, None, Some 9]) \<le> (2 :: int) ^ 63
      \<longrightarrow> clamp_subtract 10 [Some 4, None, Some 9]
          = max 0 (10 - sum_list (map (\<lambda>p. case p of None \<Rightarrow> 0 | Some n \<Rightarrow> n) [Some 4, None, Some 9]))"
    by (rule usage_arithmetic [THEN conjunct2, THEN conjunct1])
  then show ?thesis by simp
qed

text \<open>
  Images survive the trip between the protocols: the data URL made from a base64 source is
  split back into the same media type and data when the media type has no comma, and a URL
  source comes back as it was unless it is a base64 data URL.
\<close>

theorem image_round_trip:
  assumes "claude_image_url ty u media body = Inr url"
  shows "(ty = ''base64'' \<longrightarrow> CHR '','' \<notin> set media \<longrightarrow>
            image_source url = Inr (ImgBase64 (if media = [] then octet_stream else media) body))
    \<and> (ty = ''url'' \<longrightarrow> cut_prefix ''data:'' u = None \<longrightarrow> image_source url = Inr (ImgUrl u))"
proof (intro conjI impI)
  define m where "m = (if media = [] then octet_stream else media)"
  assume "ty = ''base64''" "CHR '','' \<notin> set media"
  then have url: "url = ''data:'' @ m @ '';base64,'' @ body" and c: "CHR '','' \<notin> set (m @ '';base64'')"
    using assms by (auto simp: m_def claude_image_url_def octet_stream_def split: if_splits)
  from c have "split_at CHR '','' ((m @ '';base64'') @ CHR '','' # body) = Some (m @ '';base64'', body)"
    by (rule split_at_append)
  moreover have "has_suffix (m @ '';base64'') '';base64''"
    by (simp add: has_suffix_def has_prefix_iff)
  moreover have "(m = []) = False" by (simp add: m_def octet_stream_def)
  moreover have "cut_prefix ''data:'' url = Some ((m @ '';base64'') @ CHR '','' # body)"
    unfolding url by (simp add: cut_prefix_Some)
  moreover have "trim_suffix (m @ '';base64'') '';base64'' = m" by (rule trim_suffix_append)
  ultimately have "image_source url = Inr (ImgBase64 m body)"
    unfolding image_source_def by (simp only: option.case prod.case if_True if_False Let_def)
  then show "image_source url = Inr (ImgBase64 (if media = [] then octet_stream else media) body)"
    by (simp only: m_def)
next
  assume "ty = ''url''" "cut_prefix ''data:'' u = None"
  then show "image_source url = Inr (ImgUrl u)"
    using assms by (simp add: claude_image_url_def image_source_def split: if_splits)
qed

lemma image_round_trip_witness:
  "image_source ''data:image/png;base64,QUJD'' = Inr (ImgBase64 ''image/png'' ''QUJD'')"
proof -
  have "claude_image_url ''base64'' [] ''image/png'' ''QUJD'' = Inr ''data:image/png;base64,QUJD''"
    by (simp add: claude_image_url_def)
  from image_round_trip [OF this] show ?thesis by simp
qed

end
