(* ===== verification/Framer.thy ===== *)
theory Framer
  imports Kernel
begin

text \<open>
  \<open>SSEFramer\<close> and \<open>SSEEvent\<close> of \<open>internal/adapter/shared/shared.go\<close>, the
  interface of a component fed with network chunks (\<open>chunked\<close>) and the progress state of
  \<open>stream_state.go\<close>.
\<close>

section \<open>The framer\<close>

record framer =
  fr_buf :: string
  fr_event :: string
  fr_data :: string
  fr_saw :: bool
  fr_want_raw :: bool
  fr_raw :: string

text \<open>A frame: event type, joined data, raw block.\<close>

type_synonym frame = "string \<times> string \<times> string"

definition new_framer :: "bool \<Rightarrow> framer" where
  "new_framer want_raw = \<lparr>fr_buf = [], fr_event = [], fr_data = [], fr_saw = False, fr_want_raw = want_raw, fr_raw = []\<rparr>"

definition push :: "framer \<Rightarrow> string \<Rightarrow> framer" where
  "push f chunk = f\<lparr>fr_buf := fr_buf f @ chunk\<rparr>"

text \<open>One iteration of the loop of \<open>Next\<close> on a complete line.\<close>

definition line_step :: "framer \<Rightarrow> string \<Rightarrow> framer \<times> frame option" where
  "line_step f0 line =
     (let f = (if fr_want_raw f0 then f0\<lparr>fr_raw := fr_raw f0 @ line @ [nl]\<rparr> else f0);
          text = trim_suffix line [cr]
      in if text = [] then
           (if \<not> fr_saw f then (f, None)
            else (f\<lparr>fr_event := [], fr_data := [], fr_saw := False, fr_raw := []\<rparr>,
                  Some (fr_event f, fr_data f, fr_raw f)))
         else if has_prefix text '':'' then (f, None)
         else if has_prefix text ''event:'' then
           (f\<lparr>fr_event := trim_space (trim_prefix text ''event:''), fr_saw := True\<rparr>, None)
         else if has_prefix text ''data:'' then
           (f\<lparr>fr_data := (if fr_data f \<noteq> [] then fr_data f @ [nl] else [])
                @ trim_prefix (trim_prefix text ''data:'') [CHR 0x20],
              fr_saw := True\<rparr>, None)
         else (f, None))"

lemma line_step_buf [simp]: "fr_buf (fst (line_step f line)) = fr_buf f"
  by (simp add: line_step_def Let_def)

lemma line_step_bufD: "(g, x) = line_step f line \<Longrightarrow> fr_buf g = fr_buf f"
  by (metis fst_conv line_step_buf)

function frame_next :: "framer \<Rightarrow> framer \<times> frame option" where
  "frame_next f =
     (case split_at nl (fr_buf f) of
        None \<Rightarrow> (f, None)
      | Some (line, rest) \<Rightarrow>
          (case line_step (f\<lparr>fr_buf := rest\<rparr>) line of
             (f', None) \<Rightarrow> frame_next f'
           | (f', Some fr) \<Rightarrow> (f', Some fr)))"
  by pat_completeness auto
termination
  by (relation "measure (\<lambda>f. length (fr_buf f))") (auto dest!: line_step_bufD split_at_length)

declare frame_next.simps [simp del]

lemma frame_next_shorter: "frame_next f = (f', Some fr) \<Longrightarrow> length (fr_buf f') < length (fr_buf f)"
proof (induction f rule: frame_next.induct)
  case (1 f)
  then obtain line rest where s: "split_at nl (fr_buf f) = Some (line, rest)"
    by (subst (asm) (2) frame_next.simps) (auto split: option.splits)
  obtain g o' where g: "line_step (f\<lparr>fr_buf := rest\<rparr>) line = (g, o')" by (cases "line_step (f\<lparr>fr_buf := rest\<rparr>) line")
  then have b: "fr_buf g = rest" using line_step_buf [of "f\<lparr>fr_buf := rest\<rparr>" line] by simp
  have l: "length rest < length (fr_buf f)" using s by (rule split_at_length)
  show ?case
  proof (cases o')
    case None
    then have "frame_next g = (f', Some fr)" using 1(2) s g by (simp add: frame_next.simps [of f])
    then have "length (fr_buf f') < length (fr_buf g)" using 1(1) s g None by simp
    then show ?thesis using b l by simp
  next
    case (Some x)
    then have "f' = g" using 1(2) s g by (simp add: frame_next.simps [of f])
    then show ?thesis using b l by simp
  qed
qed

text \<open>The \<open>for\<close> loop of the consumers: every complete frame of the buffer.\<close>

function drain :: "framer \<Rightarrow> framer \<times> frame list" where
  "drain f =
     (case frame_next f of
        (f', None) \<Rightarrow> (f', [])
      | (f', Some fr) \<Rightarrow> (let (g, frs) = drain f' in (g, fr # frs)))"
  by pat_completeness auto
termination
  by (relation "measure (\<lambda>f. length (fr_buf f))") (auto dest: frame_next_shorter [OF sym])

declare drain.simps [simp del]

section \<open>Chunked components\<close>

text \<open>
  A monitor of a stream of events: it reads a list of events from a state, refusing it with None,
  and reading is compositional. What it accepts it accepts prefix by prefix.
\<close>

locale acceptor =
  fixes run :: "'e list \<Rightarrow> 'm \<Rightarrow> 'm option"
  assumes run_Nil: "run [] m = Some m"
    and run_append: "run (xs @ ys) m = Option.bind (run xs m) (run ys)"
begin

lemma run_prefix: "run (xs @ ys) m \<noteq> None \<Longrightarrow> run xs m \<noteq> None"
  by (cases "run xs m") (simp_all add: run_append)

lemma run_snoc: "run xs m = Some m1 \<Longrightarrow> run ys m1 = Some m2 \<Longrightarrow> run (xs @ ys) m = Some m2"
  by (simp add: run_append)

end

text \<open>
  A component that is fed with chunks and gives outputs: it must not matter how the bytes are
  cut into chunks.
\<close>

locale chunked =
  fixes feed :: "'s \<Rightarrow> string \<Rightarrow> 's \<times> 'o list"
  assumes feed_Nil: "feed (fst (feed s a)) [] = (fst (feed s a), [])"
    and feed_append: "feed s (a @ b) =
      (fst (feed (fst (feed s a)) b), snd (feed s a) @ snd (feed (fst (feed s a)) b))"
begin

primrec feed_all :: "'s \<Rightarrow> string list \<Rightarrow> 's \<times> 'o list" where
  "feed_all s [] = (s, [])"
| "feed_all s (c # cs) = (let (s1, x) = feed s c; (s2, y) = feed_all s1 cs in (s2, x @ y))"

lemma feed_all_Cons: "feed_all s (c # cs) = feed s (concat (c # cs))"
proof (induction cs arbitrary: s c)
  case Nil
  then show ?case by (simp add: split_beta Let_def)
next
  case (Cons d ds)
  have "feed_all s (c # d # ds) = (let (s1, x) = feed s c; (s2, y) = feed s1 (concat (d # ds)) in (s2, x @ y))"
    using Cons.IH by simp
  also have "\<dots> = feed s (c @ concat (d # ds))" by (simp only: feed_append Let_def split_beta)
  finally show ?case by simp
qed

theorem chunking_irrelevant:
  "concat cs = concat ds \<Longrightarrow> cs \<noteq> [] \<Longrightarrow> ds \<noteq> [] \<Longrightarrow> feed_all s cs = feed_all s ds"
  by (cases cs; cases ds) (simp_all only: feed_all_Cons)

end

section \<open>The framer is chunked\<close>

definition feed_framer :: "framer \<Rightarrow> string \<Rightarrow> framer \<times> frame list" where
  "feed_framer f chunk = drain (push f chunk)"

lemma drain_None: "split_at nl (fr_buf f) = None \<Longrightarrow> drain f = (f, [])"
  by (subst drain.simps, subst frame_next.simps) simp

lemma drain_cong:
  assumes "frame_next f = frame_next g"
  shows "drain f = drain g"
  by (rule trans [OF trans [OF drain.simps] drain.simps [symmetric]]) (simp only: assms)

lemma drain_line:
  assumes "split_at nl (fr_buf f) = Some (line, rest)"
  shows "drain f =
    (let (f', o') = line_step (f\<lparr>fr_buf := rest\<rparr>) line; (g, frs) = drain f'
     in (g, case o' of None \<Rightarrow> frs | Some fr \<Rightarrow> fr # frs))"
proof (cases "snd (line_step (f\<lparr>fr_buf := rest\<rparr>) line)")
  case None
  then have "frame_next f = frame_next (fst (line_step (f\<lparr>fr_buf := rest\<rparr>) line))"
    using assms by (subst frame_next.simps) (simp add: split_beta)
  then have "drain f = drain (fst (line_step (f\<lparr>fr_buf := rest\<rparr>) line))" by (rule drain_cong)
  then show ?thesis using None by (simp add: split_beta Let_def)
next
  case (Some fr)
  then have "frame_next f = (fst (line_step (f\<lparr>fr_buf := rest\<rparr>) line), Some fr)"
    using assms by (subst frame_next.simps) (simp add: split_beta)
  then show ?thesis using Some by (subst drain.simps) (simp add: split_beta Let_def)
qed

lemma split_at_more: "split_at d a = Some (l, r) \<Longrightarrow> split_at d (a @ b) = Some (l, r @ b)"
  by (simp add: split_at_Some)

lemma line_step_push:
  "line_step (f\<lparr>fr_buf := b\<rparr>) line = (let (g, o') = line_step (f\<lparr>fr_buf := a\<rparr>) line in (g\<lparr>fr_buf := b\<rparr>, o'))"
  by (simp add: line_step_def Let_def)

lemma drain_induct [case_names stop line]:
  assumes "\<And>f. split_at nl (fr_buf f) = None \<Longrightarrow> P f"
    and "\<And>f line rest. split_at nl (fr_buf f) = Some (line, rest) \<Longrightarrow>
      P (fst (line_step (f\<lparr>fr_buf := rest\<rparr>) line)) \<Longrightarrow> P f"
  shows "P f"
proof (induction "length (fr_buf f)" arbitrary: f rule: less_induct)
  case less
  show ?case
  proof (cases "split_at nl (fr_buf f)")
    case None
    then show ?thesis by (rule assms(1))
  next
    case (Some lr)
    obtain line rest where lr: "lr = (line, rest)" by (cases lr)
    have "length rest < length (fr_buf f)" using Some lr split_at_length by fast
    then have "P (fst (line_step (f\<lparr>fr_buf := rest\<rparr>) line))" by (intro less) simp
    then show ?thesis using assms(2) Some lr by blast
  qed
qed

lemma drain_push:
  "drain (push f b) =
    (fst (drain (push (fst (drain f)) b)), snd (drain f) @ snd (drain (push (fst (drain f)) b)))"
proof (induction f rule: drain_induct)
  case (stop f)
  then show ?case by (simp add: drain_None)
next
  case (line f l r)
  let ?g = "line_step (f\<lparr>fr_buf := r\<rparr>) l"
  have more: "split_at nl (fr_buf (push f b)) = Some (l, r @ b)"
    using line(1) by (simp add: push_def split_at_more)
  have step: "line_step ((push f b)\<lparr>fr_buf := r @ b\<rparr>) l = (push (fst ?g) b, snd ?g)"
    using line_step_push [where f = f and b = "r @ b" and a = r and line = l]
    by (simp add: push_def split_beta Let_def)
  show ?case using line(2)
    by (cases "snd ?g") (simp_all add: drain_line [OF line(1)] drain_line [OF more] step split_beta Let_def)
qed

lemma drain_done: "split_at nl (fr_buf (fst (drain f))) = None"
proof (induction f rule: drain_induct)
  case (stop f)
  then show ?case by (simp add: drain_None)
next
  case (line f l r)
  then show ?case by (simp add: drain_line split_beta Let_def)
qed

lemma drain_again: "drain (fst (drain f)) = (fst (drain f), [])"
  by (rule drain_None) (rule drain_done)

interpretation framer: chunked feed_framer
proof
  fix s a b
  show "feed_framer (fst (feed_framer s a)) [] = (fst (feed_framer s a), [])"
    by (simp add: feed_framer_def push_def drain_again)
  have "push s (a @ b) = push (push s a) b" by (simp add: push_def)
  then show "feed_framer s (a @ b) = (fst (feed_framer (fst (feed_framer s a)) b),
      snd (feed_framer s a) @ snd (feed_framer (fst (feed_framer s a)) b))"
    using drain_push [of "push s a" b] by (simp add: feed_framer_def)
qed

section \<open>Rendered events\<close>

definition sse_event :: "string \<Rightarrow> gv \<Rightarrow> string" where
  "sse_event nm v = ''event: '' @ nm @ [nl] @ ''data: '' @ marshal v @ [nl, nl]"

text \<open>An event name as every emitter writes it: ASCII, not empty, no surrounding space, one line.\<close>

definition plain_name :: "string \<Rightarrow> bool" where
  "plain_name n =
     (n \<noteq> [] \<and> nl \<notin> set n \<and> cr \<notin> set n \<and> \<not> ascii_space (hd n) \<and> byte (hd n) < 128
      \<and> \<not> ascii_space (last n) \<and> byte (last n) < 128)"

lemma trim_suffix_other: "s = [] \<or> last s \<noteq> c \<Longrightarrow> trim_suffix s [c] = s"
  by (cases s rule: rev_cases) (auto simp: trim_suffix_def trim_prefix_def)

lemma trim_space_lead:
  assumes "plain_name n"
  shows "trim_space (CHR 0x20 # n) = n"
proof -
  have "trim_left_space (CHR 0x20 # n) = trim_left_space n"
    by (subst trim_left_space.simps) (simp add: ascii_space_def)
  moreover have "trim_left_space n = n" using assms by (cases n) (auto simp: plain_name_def)
  ultimately have "trim_space (CHR 0x20 # n) = trim_space n" by (simp add: trim_space_def)
  then show ?thesis using trim_space_tight [of n] assms by (simp add: plain_name_def)
qed

definition idle :: "framer \<Rightarrow> bool" where
  "idle f = (fr_buf f = [] \<and> fr_event f = [] \<and> fr_data f = [] \<and> \<not> fr_saw f \<and> fr_raw f = [])"

lemma line_event:
  assumes "plain_name n"
  shows "line_step f (''event: '' @ n) =
    (f\<lparr>fr_event := n, fr_saw := True, fr_raw := (if fr_want_raw f then fr_raw f @ ''event: '' @ n @ [nl] else fr_raw f)\<rparr>, None)"
proof -
  have l: "last (''event: '' @ n) = last n" using assms by (simp add: plain_name_def)
  then have "last (''event: '' @ n) \<noteq> cr" using assms by (auto simp: plain_name_def ascii_space_def)
  then have "trim_suffix (''event: '' @ n) [cr] = ''event: '' @ n" by (intro trim_suffix_other) blast
  moreover have "trim_prefix (''event: '' @ n) ''event:'' = CHR 0x20 # n" by (simp add: trim_prefix_def)
  ultimately show ?thesis using trim_space_lead [OF assms]
    by (simp add: line_step_def Let_def has_prefix_def)
qed

lemma line_data:
  assumes "cr \<notin> set d"
  shows "line_step f (''data: '' @ d) =
    (f\<lparr>fr_data := (if fr_data f \<noteq> [] then fr_data f @ [nl] else []) @ d, fr_saw := True,
       fr_raw := (if fr_want_raw f then fr_raw f @ ''data: '' @ d @ [nl] else fr_raw f)\<rparr>, None)"
proof -
  have "last (''data: '' @ d) \<noteq> cr" using assms by (cases d rule: rev_cases) auto
  then have "trim_suffix (''data: '' @ d) [cr] = ''data: '' @ d" by (intro trim_suffix_other) blast
  moreover have "trim_prefix (trim_prefix (''data: '' @ d) ''data:'') [CHR 0x20] = d" by (simp add: trim_prefix_def)
  ultimately show ?thesis by (simp add: line_step_def Let_def has_prefix_def)
qed

lemma line_blank: "fr_saw f \<Longrightarrow> line_step f [] =
    (f\<lparr>fr_event := [], fr_data := [], fr_saw := False, fr_raw := []\<rparr>,
     Some (fr_event f, fr_data f, if fr_want_raw f then fr_raw f @ [nl] else fr_raw f))"
  by (simp add: line_step_def Let_def trim_suffix_def trim_prefix_def)

lemma drain_push_line:
  assumes "fr_buf f = []" "nl \<notin> set l"
  shows "drain (push f (l @ nl # r)) =
    (let (g, x) = line_step f l; (h, frs) = drain (push g r) in (h, case x of None \<Rightarrow> frs | Some fr \<Rightarrow> fr # frs))"
proof -
  have "split_at nl (fr_buf (push f (l @ nl # r))) = Some (l, r)" using assms by (simp add: push_def)
  moreover have "line_step ((push f (l @ nl # r))\<lparr>fr_buf := r\<rparr>) l = (push (fst (line_step f l)) r, snd (line_step f l))"
  proof -
    have "f\<lparr>fr_buf := []\<rparr> = f" using assms(1) by (cases f) simp
    note step = line_step_push [where f = f and b = r and a = "[]" and line = l, unfolded this]
    show ?thesis using step assms(1) by (simp add: push_def split_beta Let_def)
  qed
  ultimately show ?thesis
    by (cases "snd (line_step f l)") (simp_all add: drain_line split_beta Let_def)
qed

lemma feed_event:
  assumes "idle f" "plain_name n" "wf_gv v"
  shows "feed_framer f (sse_event n v) = (f, [(n, marshal v, if fr_want_raw f then sse_event n v else [])])"
proof -
  have e: "sse_event n v = (''event: '' @ n) @ nl # (''data: '' @ marshal v) @ nl # [] @ nl # []"
    by (simp add: sse_event_def)
  have nls: "nl \<notin> set (''event: '' @ n)" "nl \<notin> set (''data: '' @ marshal v)" "cr \<notin> set (marshal v)"
    using assms(2) marshal_one_line [OF assms(3)] by (auto simp: plain_name_def)
  have "split_at nl (fr_buf f) = None" using assms(1) by (simp add: idle_def)
  then have d: "drain (push f []) = (f, [])" by (simp add: push_def drain_None)
  have eta: "f\<lparr>fr_event := [], fr_data := [], fr_saw := False, fr_raw := []\<rparr> = f"
    using assms(1) by (cases f) (simp add: idle_def)
  define f1 where "f1 = f\<lparr>fr_event := n, fr_saw := True,
     fr_raw := (if fr_want_raw f then fr_raw f @ ''event: '' @ n @ [nl] else fr_raw f)\<rparr>"
  define f2 where "f2 = f1\<lparr>fr_data := marshal v, fr_saw := True,
     fr_raw := (if fr_want_raw f1 then fr_raw f1 @ ''data: '' @ marshal v @ [nl] else fr_raw f1)\<rparr>"
  have b: "fr_buf f = []" "fr_buf f1 = []" "fr_buf f2 = []" "fr_data f1 = []" "fr_saw f2"
    using assms(1) by (auto simp: idle_def f1_def f2_def)
  have s1: "drain (push f ((''event: '' @ n) @ nl # r)) = drain (push f1 r)" for r
    unfolding drain_push_line [OF b(1) nls(1)] line_event [OF assms(2)] f1_def by (simp add: split_beta)
  have s2: "drain (push f1 ((''data: '' @ marshal v) @ nl # r)) = drain (push f2 r)" for r
    unfolding drain_push_line [OF b(2) nls(2)] line_data [OF nls(3)] f2_def by (simp add: split_beta b(4))
  have s3: "drain (push f2 ([] @ nl # [])) = (f, [(n, marshal v, if fr_want_raw f then sse_event n v else [])])"
  proof -
    have e: "drain (push f2 ([] @ nl # [])) = (f, [(n, marshal v, if fr_want_raw f2 then fr_raw f2 @ [nl] else fr_raw f2)])"
    proof -
      have g: "f2\<lparr>fr_event := [], fr_data := [], fr_saw := False, fr_raw := []\<rparr> = f"
        using eta assms(1) by (cases f) (simp add: f1_def f2_def idle_def)
      show ?thesis
        by (subst drain_push_line [OF b(3)]) (simp_all add: line_blank [OF b(5)] g d, simp add: f1_def f2_def)
    qed
    show ?thesis unfolding e using assms(1) by (simp add: f1_def f2_def idle_def sse_event_def)
  qed
  have "drain (push f (sse_event n v)) = (f, [(n, marshal v, if fr_want_raw f then sse_event n v else [])])"
    by (subst e) (simp only: s1 s2 s3)
  then show ?thesis by (simp only: feed_framer_def)
qed

definition render_events :: "(string \<times> gv) list \<Rightarrow> string" where
  "render_events evs = concat (map (\<lambda>(n, v). sse_event n v) evs)"

lemma feed_events:
  assumes "idle f" "\<forall>(n, v) \<in> set evs. plain_name n \<and> wf_gv v"
  shows "feed_framer f (render_events evs)
    = (f, map (\<lambda>(n, v). (n, marshal v, if fr_want_raw f then sse_event n v else [])) evs)"
  using assms(2)
proof (induction evs)
  case Nil
  have "split_at nl (fr_buf f) = None" using assms(1) by (simp add: idle_def)
  then show ?case by (simp add: render_events_def feed_framer_def push_def drain_None)
next
  case (Cons e evs)
  obtain n v where e: "e = (n, v)" by (cases e)
  then have "render_events (e # evs) = sse_event n v @ render_events evs" by (simp add: render_events_def)
  then show ?case using Cons e feed_event [OF assms(1), of n v] by (simp add: framer.feed_append)
qed

section \<open>Stream progress\<close>

text \<open>\<open>StreamSnapshot\<close> and the methods of \<open>StreamState\<close>; the counter is a \<open>uint64\<close>.\<close>

record snapshot =
  s_progress :: int
  s_started :: bool
  s_finish :: bool
  s_done :: bool
  s_terminal :: bool
  s_kind :: string

definition snapshot_zero :: snapshot where
  "snapshot_zero = \<lparr>s_progress = 0, s_started = False, s_finish = False, s_done = False,
     s_terminal = False, s_kind = []\<rparr>"

definition st_advance :: "snapshot \<Rightarrow> snapshot" where
  "st_advance s = s\<lparr>s_progress := (s_progress s + 1) mod 2 ^ 64\<rparr>"

definition st_start :: "snapshot \<Rightarrow> snapshot" where
  "st_start s = st_advance (s\<lparr>s_started := True\<rparr>)"

definition st_finish :: "snapshot \<Rightarrow> snapshot" where
  "st_finish s = st_advance (s\<lparr>s_finish := True\<rparr>)"

definition st_done :: "snapshot \<Rightarrow> snapshot" where
  "st_done s = st_advance (s\<lparr>s_done := True\<rparr>)"

definition st_terminal :: "string \<Rightarrow> snapshot \<Rightarrow> snapshot" where
  "st_terminal kind s = st_advance (s\<lparr>s_terminal := True, s_kind := kind\<rparr>)"

lemmas stream_state [model_defs] = st_advance_def st_start_def st_finish_def st_done_def st_terminal_def

section \<open>Properties\<close>

text \<open>
  C24. The network may cut a stream anywhere: any two chunkings of the same bytes give the same
  frames and leave the framer in the same state, from every state it can be in.
\<close>

theorem framer_chunking_irrelevant:
  assumes "concat cs = concat ds" "cs \<noteq> []" "ds \<noteq> []"
  shows "framer.feed_all f cs = framer.feed_all f ds"
  using assms by (rule framer.chunking_irrelevant)

lemma framer_chunking_irrelevant_witness:
  "framer.feed_all (new_framer False) [''da'', ''ta: x'', [nl, nl]] = framer.feed_all (new_framer False) [''data: x'' @ [nl, nl]]"
  by (rule framer_chunking_irrelevant) simp_all

text \<open>
  C25. What the emitters write, the framer reads: any sequence of rendered events, fed to an idle
  framer, comes back as exactly those frames, name and JSON payload unchanged, with the verbatim
  bytes as raw blocks when they are asked for, and leaves the framer idle.
\<close>

theorem rendered_events_framed_back:
  assumes "list_all (\<lambda>(n, v). plain_name n \<and> wf_gv v) evs"
  shows "feed_framer (new_framer want) (render_events evs)
    = (new_framer want, map (\<lambda>(n, v). (n, marshal v, if want then sse_event n v else [])) evs)"
  using feed_events [of "new_framer want" evs] assms
  by (simp add: new_framer_def idle_def list_all_iff)

lemma rendered_events_framed_back_witness:
  "feed_framer (new_framer True) (render_events [(''message_stop'', GMap [(''type'', GStr ''message_stop'')])])
    = (new_framer True, [(''message_stop'', marshal (GMap [(''type'', GStr ''message_stop'')]),
        sse_event ''message_stop'' (GMap [(''type'', GStr ''message_stop'')]))])"
  using rendered_events_framed_back [of "[(''message_stop'', GMap [(''type'', GStr ''message_stop'')])]" True]
  by (simp add: plain_name_def ascii_space_def byte_def)

end
