(* ===== verification/Pump.thy ===== *)
theory Pump
  imports Controller Framer
begin

text \<open>
  The reading and emitting loop of \<open>internal/plugin/executor.go\<close>: \<open>pumpStream\<close>,
  \<open>emitAll\<close> and \<open>streamCauseError\<close>, for any converter. A turn of the loop is a
  function of what \<open>StreamRead\<close> returned and of the cause the controller showed after it;
  what the turn does to the host and to the timers is recorded in order. Whether the host takes an
  event is a parameter (\<open>px_sink\<close>) that may depend on everything delivered before. The
  instants of the diagnostic log are not modelled; the byte total is unbounded, it is compared
  with the limit after every read.
\<close>

section \<open>Model\<close>

text \<open>
  The converter as the pump calls it: \<open>Feed\<close>, \<open>StreamSnapshot\<close>,
  \<open>FinalizeStream\<close> and \<open>FlushWithError\<close>. All three converters have the four
  methods, so that the interface assertions of the code always succeed.
\<close>

record ('s, 'e) conv_ops =
  op_feed :: "string \<Rightarrow> 's \<Rightarrow> 'e list \<times> bool \<times> err option \<times> 's"
  op_snap :: "'s \<Rightarrow> snapshot"
  op_final :: "'s \<Rightarrow> 'e list \<times> err option \<times> 's"
  op_flush :: "'s \<Rightarrow> 'e list \<times> err option \<times> 's"

record ('s, 'e) pump_env =
  px_ops :: "('s, 'e) conv_ops"
  px_limits :: limits
  px_max :: int
  px_sink :: "'e list \<Rightarrow> 'e \<Rightarrow> string option"

record reading =
  rd_payload :: string
  rd_msg :: string
  rd_closed :: bool
  rd_err :: "string option"
  rd_cause :: string

datatype 'e act = Deliver 'e | CloseUp | CloseDown string | Timer action | LogDone string bool

record ('s, 'e) pump =
  p_conv :: 's
  p_last :: snapshot
  p_total :: int
  p_chunks :: int
  p_done :: bool
  p_closed :: bool
  p_logged :: bool
  p_over :: bool
  p_acts :: "'e act list"

definition start_pump :: "int \<Rightarrow> 's \<Rightarrow> ('s, 'e) pump" where
  "start_pump d c = \<lparr>p_conv = c, p_last = snapshot_zero, p_total = 0, p_chunks = 0, p_done = False,
     p_closed = False, p_logged = False, p_over = False, p_acts = [Timer (Arm d ''first_data'')]\<rparr>"

definition act :: "'e act \<Rightarrow> ('s, 'e) pump \<Rightarrow> ('s, 'e) pump" where
  "act a s = s\<lparr>p_acts := p_acts s @ [a]\<rparr>"

definition delivered :: "'e act list \<Rightarrow> 'e list" where
  "delivered as = List.map_filter (\<lambda>a. case a of Deliver e \<Rightarrow> Some e | _ \<Rightarrow> None) as"

definition close_streams :: "string \<Rightarrow> ('s, 'e) pump \<Rightarrow> ('s, 'e) pump" where
  "close_streams msg s =
     (if p_closed s then s else act (CloseDown msg) (act CloseUp (s\<lparr>p_closed := True\<rparr>)))"

definition log_done :: "string \<Rightarrow> bool \<Rightarrow> ('s, 'e) pump \<Rightarrow> ('s, 'e) pump" where
  "log_done cause eof s = (if p_logged s then s else act (LogDone cause eof) (s\<lparr>p_logged := True\<rparr>))"

fun emit_all :: "('e list \<Rightarrow> 'e \<Rightarrow> string option) \<Rightarrow> 'e list \<Rightarrow> ('s, 'e) pump \<Rightarrow> string option \<times> ('s, 'e) pump" where
  "emit_all sink [] s = (None, s)"
| "emit_all sink (e # es) s =
     (case sink (delivered (p_acts s)) e of
        Some msg \<Rightarrow> (Some msg, s)
      | None \<Rightarrow> emit_all sink es (act (Deliver e) s))"

definition stream_cause_error :: "string \<Rightarrow> string" where
  "stream_cause_error cause =
     (if cause = ''first_data'' then ''stream first data timeout''
      else if cause = ''idle'' then ''stream idle timeout''
      else if cause = ''total'' then ''stream total timeout''
      else if cause = ''finish_grace'' then ''stream terminal incomplete''
      else ''stream truncated'')"

text \<open>Closing with an error and logging, then returning.\<close>

definition fail_with :: "string \<Rightarrow> string \<Rightarrow> bool \<Rightarrow> ('s, 'e) pump \<Rightarrow> ('s, 'e) pump" where
  "fail_with msg cause eof s = log_done cause eof (close_streams msg s)"

text \<open>The events of a finalized converter, or its error.\<close>

definition emit_final ::
  "('s, 'e) pump_env \<Rightarrow> string \<Rightarrow> string \<Rightarrow> bool \<Rightarrow> 'e list \<times> err option \<times> 's \<Rightarrow> ('s, 'e) pump \<Rightarrow> ('s, 'e) pump" where
  "emit_final x bad good eof r s =
     (case r of
        (_, Some e, c) \<Rightarrow> fail_with (redact (e_message e)) bad eof (s\<lparr>p_conv := c\<rparr>)
      | (evs, None, c) \<Rightarrow>
          (case emit_all (px_sink x) evs (s\<lparr>p_conv := c\<rparr>) of
             (Some m, s') \<Rightarrow> fail_with (redact m) ''emit_error'' eof s'
           | (None, s') \<Rightarrow> log_done good eof s'))"

definition on_cause :: "('s, 'e) pump_env \<Rightarrow> reading \<Rightarrow> ('s, 'e) pump \<Rightarrow> ('s, 'e) pump" where
  "on_cause x r s =
     (if rd_cause r = ''finish_grace''
      then emit_final x ''terminal_error'' ''finish_grace'' (rd_closed r) (op_final (px_ops x) (p_conv s)) s
      else fail_with (stream_cause_error (rd_cause r)) (rd_cause r) (rd_closed r) s)"

definition observe_progress :: "limits \<Rightarrow> snapshot \<Rightarrow> ('s, 'e) pump \<Rightarrow> ('s, 'e) pump" where
  "observe_progress l snap s =
     (if s_progress (p_last s) < s_progress snap
      then (let s1 = act (Timer (Arm (lm_idle l) ''idle'')) s;
                s2 = (if s_finish snap \<and> \<not> s_finish (p_last s)
                      then act (Timer (Arm (lm_grace l) ''finish_grace'')) s1 else s1)
            in s2\<lparr>p_last := snap\<rparr>)
      else s)"

datatype flow = Again | Broke | Returned

definition count_bytes :: "string \<Rightarrow> ('s, 'e) pump \<Rightarrow> ('s, 'e) pump" where
  "count_bytes payload s =
     s\<lparr>p_total := p_total s + int (length payload), p_chunks := p_chunks s + (if payload = [] then 0 else 1)\<rparr>"

definition convert :: "('s, 'e) pump_env \<Rightarrow> reading \<Rightarrow> ('s, 'e) pump \<Rightarrow> flow \<times> ('s, 'e) pump" where
  "convert x r s =
     (case op_feed (px_ops x) (rd_payload r) (p_conv s) of
        (evs, d, e, c) \<Rightarrow>
          (let s1 = observe_progress (px_limits x) (op_snap (px_ops x) c) (s\<lparr>p_conv := c\<rparr>) in
           case e of
             Some y \<Rightarrow> (Returned, fail_with (redact (e_message y)) ''terminal_error'' (rd_closed r) s1)
           | None \<Rightarrow>
               (case emit_all (px_sink x) evs s1 of
                  (Some m, s2) \<Rightarrow> (Returned, fail_with (redact m) ''emit_error'' (rd_closed r) s2)
                | (None, s2) \<Rightarrow> (if d \<or> rd_closed r then Broke else Again, s2\<lparr>p_done := d\<rparr>))))"

definition turn :: "('s, 'e) pump_env \<Rightarrow> reading \<Rightarrow> ('s, 'e) pump \<Rightarrow> flow \<times> ('s, 'e) pump" where
  "turn x r s =
     (if rd_cause r \<noteq> [] then (Returned, on_cause x r s)
      else (case rd_err r of
              Some m \<Rightarrow> (Returned, fail_with (redact m) ''read_error'' (rd_closed r) s)
            | None \<Rightarrow>
                (if rd_msg r \<noteq> [] then (Returned, fail_with (redact (rd_msg r)) ''upstream_error'' (rd_closed r) s)
                 else (let s1 = count_bytes (rd_payload r) s in
                       if px_max x < p_total s1
                       then (Returned, fail_with (redact ''stream exceeded max-response-bytes'') ''max_bytes'' (rd_closed r) s1)
                       else convert x r s1))))"

text \<open>After the loop: what a converter still holds when the upstream ended first.\<close>

definition after_loop :: "('s, 'e) pump_env \<Rightarrow> bool \<Rightarrow> ('s, 'e) pump \<Rightarrow> ('s, 'e) pump" where
  "after_loop x closed s =
     (if \<not> p_done s \<and> closed
      then emit_final x ''truncated'' ''eof'' True (op_flush (px_ops x) (p_conv s)) s
      else log_done (if closed then ''eof'' else ''terminal'') closed s)"

text \<open>The deferred calls: \<open>controller.stop\<close>, then \<open>closeStreams\<close>.\<close>

definition deferred :: "('s, 'e) pump \<Rightarrow> ('s, 'e) pump" where
  "deferred s = (close_streams [] (act (Timer Stop) s))\<lparr>p_over := True\<rparr>"

definition pump_turn :: "('s, 'e) pump_env \<Rightarrow> reading \<Rightarrow> ('s, 'e) pump \<Rightarrow> ('s, 'e) pump" where
  "pump_turn x r s =
     (case turn x r s of
        (Again, s') \<Rightarrow> s'
      | (Broke, s') \<Rightarrow> deferred (after_loop x (rd_closed r) s')
      | (Returned, s') \<Rightarrow> deferred s')"

fun pump_run :: "('s, 'e) pump_env \<Rightarrow> reading list \<Rightarrow> ('s, 'e) pump \<Rightarrow> ('s, 'e) pump" where
  "pump_run x [] s = s"
| "pump_run x (r # rs) s = (if p_over s then s else pump_run x rs (pump_turn x r s))"

section \<open>Shapes of a stream\<close>

text \<open>What the pump does before anything ends.\<close>

definition working :: "'e act \<Rightarrow> bool" where
  "working a = (case a of Deliver _ \<Rightarrow> True | Timer (Arm _ cause) \<Rightarrow> cause \<noteq> [] | _ \<Rightarrow> False)"

definition live_pump :: "('s, 'e) pump \<Rightarrow> bool" where
  "live_pump s = (\<not> p_closed s \<and> \<not> p_logged s \<and> \<not> p_over s \<and> list_all working (p_acts s))"

text \<open>A failure closes both streams with its message and logs; a clean end only logs.\<close>

definition failed :: "('s, 'e) pump \<Rightarrow> bool" where
  "failed s = (p_closed s \<and> (\<exists>pre m c b. p_acts s = pre @ [CloseUp, CloseDown m, LogDone c b] \<and> list_all working pre))"

definition clean_cause :: "string \<Rightarrow> bool" where
  "clean_cause c = (c \<in> {''terminal'', ''eof'', ''finish_grace''})"

definition concluded :: "('s, 'e) pump \<Rightarrow> bool" where
  "concluded s = (\<not> p_closed s \<and> (\<exists>pre c b. p_acts s = pre @ [LogDone c b] \<and> clean_cause c \<and> list_all working pre))"

lemma live_start: "live_pump (start_pump d c)"
  by (simp add: live_pump_def start_pump_def working_def)

lemma act_fields [simp]:
  "p_conv (act a s) = p_conv s" "p_last (act a s) = p_last s" "p_total (act a s) = p_total s"
  "p_done (act a s) = p_done s" "p_closed (act a s) = p_closed s" "p_logged (act a s) = p_logged s"
  "p_over (act a s) = p_over s" "p_acts (act a s) = p_acts s @ [a]"
  by (simp_all add: act_def)

lemma live_act: "working a \<Longrightarrow> live_pump s \<Longrightarrow> live_pump (act a s)"
  by (simp add: live_pump_def)

lemma live_fields [simp]:
  "live_pump (s\<lparr>p_conv := c\<rparr>) = live_pump s" "live_pump (s\<lparr>p_last := l\<rparr>) = live_pump s"
  "live_pump (s\<lparr>p_done := d\<rparr>) = live_pump s" "live_pump (count_bytes b s) = live_pump s"
  by (simp_all add: live_pump_def count_bytes_def)

lemma live_emit: "emit_all sink evs s = (e, s') \<Longrightarrow> live_pump s \<Longrightarrow> live_pump s'"
  by (induction sink evs s rule: emit_all.induct) (auto simp: live_act working_def split: option.splits)

lemma live_observe [simp]: "live_pump s \<Longrightarrow> live_pump (observe_progress l snap s)"
  by (simp add: observe_progress_def Let_def live_act working_def)

lemma failed_fail: "live_pump s \<Longrightarrow> failed (fail_with m c b s)"
  by (simp add: live_pump_def failed_def fail_with_def log_done_def close_streams_def)

lemma concluded_log: "live_pump s \<Longrightarrow> clean_cause c \<Longrightarrow> concluded (log_done c b s)"
  by (auto simp: live_pump_def concluded_def log_done_def)

lemma clean_causes [simp]: "clean_cause ''terminal''" "clean_cause ''eof''" "clean_cause ''finish_grace''"
  by (simp_all add: clean_cause_def)

lemma settled_final:
  "live_pump s \<Longrightarrow> clean_cause good \<Longrightarrow> failed (emit_final x bad good b r s) \<or> concluded (emit_final x bad good b r s)"
  by (auto simp: emit_final_def failed_fail concluded_log live_emit split: prod.splits option.splits)

lemma live_turn:
  assumes "live_pump s" "turn x r s = (f, s')"
  shows "case f of Returned \<Rightarrow> failed s' \<or> concluded s' | _ \<Rightarrow> live_pump s'"
proof -
  have "failed (on_cause x r s) \<or> concluded (on_cause x r s)"
    using assms(1) settled_final [OF assms(1), of "''finish_grace''" x] by (simp add: on_cause_def failed_fail)
  moreover have "case f of Returned \<Rightarrow> failed s' \<or> concluded s' | _ \<Rightarrow> live_pump s'"
    if "convert x r (count_bytes (rd_payload r) s) = (f, s')"
    using that assms(1) by (auto simp: convert_def Let_def failed_fail live_emit split: prod.splits option.splits if_splits)
  ultimately show ?thesis using assms
    by (auto simp: turn_def Let_def failed_fail split: option.splits if_splits)
qed

text \<open>A pump that returned, after the deferred calls.\<close>

definition released :: "'e act list \<Rightarrow> bool" where
  "released as = (\<exists>pre c b. list_all working pre \<and>
     ((\<exists>m. as = pre @ [CloseUp, CloseDown m, LogDone c b, Timer Stop])
      \<or> (clean_cause c \<and> as = pre @ [LogDone c b, Timer Stop, CloseUp, CloseDown []])))"

lemma released_deferred:
  assumes "failed s \<or> concluded s"
  shows "released (p_acts (deferred s)) \<and> p_over (deferred s)"
  using assms
proof
  assume "failed s"
  then show ?thesis by (auto simp: failed_def deferred_def close_streams_def released_def)
next
  assume "concluded s"
  then show ?thesis by (auto simp: concluded_def deferred_def close_streams_def released_def)
qed

lemma settled_after_loop: "live_pump s \<Longrightarrow> failed (after_loop x b s) \<or> concluded (after_loop x b s)"
  using settled_final [of s "''eof''" x] by (simp add: after_loop_def concluded_log)

lemma turn_shape:
  assumes "live_pump s"
  shows "(p_over (pump_turn x r s) \<and> released (p_acts (pump_turn x r s))) \<or> live_pump (pump_turn x r s)"
proof -
  obtain f s' where t: "turn x r s = (f, s')" by fastforce
  then show ?thesis using live_turn [OF assms t] released_deferred settled_after_loop
    by (auto simp: pump_turn_def split: flow.splits)
qed

lemma run_shape:
  "live_pump s \<or> (p_over s \<and> released (p_acts s)) \<Longrightarrow>
     live_pump (pump_run x rs s) \<or> (p_over (pump_run x rs s) \<and> released (p_acts (pump_run x rs s)))"
proof (induction rs arbitrary: s)
  case (Cons r rs)
  then show ?case using turn_shape [of s x r] by (auto simp: live_pump_def)
qed simp

text \<open>A turn only adds to what was done.\<close>

lemma acts_emit: "emit_all sink evs s = (e, s') \<Longrightarrow> prefix (p_acts s) (p_acts s')"
proof (induction sink evs s rule: emit_all.induct)
  case (2 sink e es s)
  then show ?case by (auto split: option.splits dest: append_prefixD)
qed simp

lemma acts_outcome [simp]:
  "prefix (p_acts s) (p_acts (fail_with m c b s))" "prefix (p_acts s) (p_acts (log_done c b s))"
  "prefix (p_acts s) (p_acts (deferred s))" "prefix (p_acts s) (p_acts (observe_progress l snap s))"
  "p_acts (count_bytes y s) = p_acts s"
  by (simp_all add: fail_with_def log_done_def close_streams_def deferred_def observe_progress_def Let_def count_bytes_def)

lemma acts_final: "prefix (p_acts s) (p_acts (emit_final x bad good b r s))"
proof -
  obtain evs e c where r: "r = (evs, e, c)" by (cases r)
  obtain y s' where s': "emit_all (px_sink x) evs (s\<lparr>p_conv := c\<rparr>) = (y, s')" by fastforce
  then have "prefix (p_acts s) (p_acts s')" using acts_emit by fastforce
  then show ?thesis using r s' acts_outcome(1) [of "s\<lparr>p_conv := c\<rparr>"] acts_outcome(1,2) [of s']
    by (cases e; cases y) (auto simp: emit_final_def intro: prefix_order.trans)
qed

lemma acts_turn: "prefix (p_acts s) (p_acts (pump_turn x r s))"
proof -
  have c: "prefix (p_acts t) (p_acts t')" if "convert x r t = (f, t')" for t f t'
  proof -
    obtain evs d e c where fd: "op_feed (px_ops x) (rd_payload r) (p_conv t) = (evs, d, e, c)"
      by (cases "op_feed (px_ops x) (rd_payload r) (p_conv t)")
    let ?o = "observe_progress (px_limits x) (op_snap (px_ops x) c) (t\<lparr>p_conv := c\<rparr>)"
    obtain y u where u: "emit_all (px_sink x) evs ?o = (y, u)" by fastforce
    have o: "prefix (p_acts t) (p_acts ?o)" using acts_outcome(4) [of "t\<lparr>p_conv := c\<rparr>"] by simp
    have "prefix (p_acts t) (p_acts u)" using o acts_emit [OF u] by (rule prefix_order.trans)
    then show ?thesis using that fd u o acts_outcome(1) [of ?o] acts_outcome(1) [of u]
      by (cases e; cases y) (auto simp: convert_def Let_def intro: prefix_order.trans)
  qed
  have t: "prefix (p_acts s) (p_acts s')" if "turn x r s = (f, s')" for f s'
    using that c [of "count_bytes (rd_payload r) s" f s'] acts_outcome(1) [of "count_bytes (rd_payload r) s"]
    by (auto simp: turn_def on_cause_def acts_final Let_def split: option.splits if_splits)
  obtain f s' where s': "turn x r s = (f, s')" by fastforce
  have "prefix (p_acts s') (p_acts (after_loop x b s'))" for b
    by (simp add: after_loop_def acts_final)
  then have "prefix (p_acts s') (p_acts (deferred (after_loop x b s')))" for b
    by (rule prefix_order.trans [OF _ acts_outcome(3)])
  then show ?thesis using t [OF s'] s' acts_outcome(3) by (cases f) (auto simp: pump_turn_def intro: prefix_order.trans)
qed

section \<open>Returning\<close>

text \<open>What ends the loop besides the converter.\<close>

definition ending :: "reading \<Rightarrow> bool" where
  "ending r = (rd_cause r \<noteq> [] \<or> rd_err r \<noteq> None \<or> rd_msg r \<noteq> [] \<or> rd_closed r)"

lemma total_emit: "emit_all sink evs s = (e, s') \<Longrightarrow> p_total s' = p_total s"
  by (induction sink evs s rule: emit_all.induct) (auto split: option.splits)

lemma total_observe [simp]: "p_total (observe_progress l snap s) = p_total s"
  by (simp add: observe_progress_def Let_def)

lemma again_turn:
  assumes "turn x r s = (Again, s')"
  shows "\<not> ending r \<and> p_total s' = p_total s + int (length (rd_payload r)) \<and> p_total s' \<le> px_max x"
proof -
  have c: "\<not> rd_closed r \<and> p_total t' = p_total t" if "convert x r t = (Again, t')" for t t'
    using that total_emit by (fastforce simp: convert_def Let_def split: prod.splits option.splits if_splits)
  show ?thesis using assms c [of "count_bytes (rd_payload r) s" s']
    by (auto simp: turn_def ending_def Let_def count_bytes_def split: option.splits if_splits)
qed

lemma pump_turn_live:
  assumes "live_pump s" "\<not> p_over (pump_turn x r s)"
  shows "turn x r s = (Again, pump_turn x r s)"
proof -
  obtain f s' where t: "turn x r s = (f, s')" by fastforce
  then show ?thesis using assms live_turn [OF assms(1) t] released_deferred settled_after_loop
    by (cases f) (auto simp: pump_turn_def)
qed

lemma run_live:
  "live_pump s \<Longrightarrow> \<not> p_over (pump_run x rs s) \<Longrightarrow> p_total s \<le> px_max x \<or> rs \<noteq> [] \<Longrightarrow>
     \<not> list_ex ending rs \<and> p_total s + int (length (concat (map rd_payload rs))) \<le> px_max x"
proof (induction rs arbitrary: s)
  case (Cons r rs)
  have "\<not> p_over s" using Cons.prems(1) by (simp add: live_pump_def)
  then have r: "\<not> p_over (pump_run x rs (pump_turn x r s))" using Cons.prems(2) by simp
  have "\<not> p_over (pump_turn x r s)" using r by (cases rs) (auto split: if_splits)
  then have t: "turn x r s = (Again, pump_turn x r s)" by (rule pump_turn_live [OF Cons.prems(1)])
  have "live_pump (pump_turn x r s)" using live_turn [OF Cons.prems(1) t] by simp
  then show ?case using Cons.IH [OF _ r] again_turn [OF t] by simp
qed simp

section \<open>Bounds\<close>

text \<open>
  A converter that writes down what \<open>Feed\<close> is called with, and does what the converter it
  wraps does otherwise. The payloads a run of the pump hands to \<open>Feed\<close> are those such a
  converter has written down.
\<close>

definition recording :: "('s, 'e) conv_ops \<Rightarrow> ('s \<times> string list, 'e) conv_ops" where
  "recording ops =
     \<lparr>op_feed = (\<lambda>b (c, bs). case op_feed ops b c of (evs, d, e, c') \<Rightarrow> (evs, d, e, c', bs @ [b])),
      op_snap = (\<lambda>(c, _). op_snap ops c),
      op_final = (\<lambda>(c, bs). case op_final ops c of (evs, e, c') \<Rightarrow> (evs, e, c', bs)),
      op_flush = (\<lambda>(c, bs). case op_flush ops c of (evs, e, c') \<Rightarrow> (evs, e, c', bs))\<rparr>"

definition recorder :: "('s, 'e) pump_env \<Rightarrow> ('s \<times> string list, 'e) pump_env" where
  "recorder x = \<lparr>px_ops = recording (px_ops x), px_limits = px_limits x, px_max = px_max x, px_sink = px_sink x\<rparr>"

definition fed :: "('s, 'e) pump_env \<Rightarrow> reading list \<Rightarrow> int \<Rightarrow> 's \<Rightarrow> string list" where
  "fed x rs d c = snd (p_conv (pump_run (recorder x) rs (start_pump d (c, []))))"

text \<open>The pump without the record.\<close>

definition forget :: "('s \<times> string list, 'e) pump \<Rightarrow> ('s, 'e) pump" where
  "forget s = \<lparr>p_conv = fst (p_conv s), p_last = p_last s, p_total = p_total s, p_chunks = p_chunks s, p_done = p_done s,
     p_closed = p_closed s, p_logged = p_logged s, p_over = p_over s, p_acts = p_acts s\<rparr>"

lemma forget_fields [simp]:
  "p_conv (forget s) = fst (p_conv s)" "p_last (forget s) = p_last s" "p_total (forget s) = p_total s"
  "p_done (forget s) = p_done s" "p_closed (forget s) = p_closed s" "p_logged (forget s) = p_logged s"
  "p_over (forget s) = p_over s" "p_acts (forget s) = p_acts s" "p_chunks (forget s) = p_chunks s"
  by (simp_all add: forget_def)

lemma forget_ops [simp]:
  "forget (act a s) = act a (forget s)" "forget (close_streams m s) = close_streams m (forget s)"
  "forget (log_done cause b s) = log_done cause b (forget s)" "forget (fail_with m cause b s) = fail_with m cause b (forget s)"
  "forget (count_bytes y s) = count_bytes y (forget s)" "forget (deferred s) = deferred (forget s)"
  "forget (observe_progress l snap s) = observe_progress l snap (forget s)"
  "forget (s\<lparr>p_conv := (c, bs)\<rparr>) = (forget s)\<lparr>p_conv := c\<rparr>" "forget (s\<lparr>p_done := d\<rparr>) = (forget s)\<lparr>p_done := d\<rparr>"
  by (simp_all add: forget_def act_def close_streams_def log_done_def fail_with_def count_bytes_def deferred_def
      observe_progress_def Let_def)

text \<open>The record is only changed with the state of the converter.\<close>

lemma conv_kept [simp]:
  "p_conv (close_streams m s) = p_conv s" "p_conv (log_done cause b s) = p_conv s" "p_conv (fail_with m cause b s) = p_conv s"
  "p_conv (count_bytes y s) = p_conv s" "p_conv (deferred s) = p_conv s"
  "p_conv (observe_progress l snap s) = p_conv s"
  by (simp_all add: close_streams_def log_done_def fail_with_def count_bytes_def deferred_def observe_progress_def Let_def)

lemma forget_emit:
  "emit_all sink evs s = (y, s') \<Longrightarrow> emit_all sink evs (forget s) = (y, forget s') \<and> p_conv s' = p_conv s"
  by (induction sink evs s rule: emit_all.induct) (auto split: option.splits)

lemma forget_final:
  assumes "snd (p_conv s) = bs" "r = (evs, e, c)"
  shows "forget (emit_final (recorder x) bad good b (evs, e, c, bs) s) = emit_final x bad good b r (forget s)
    \<and> snd (p_conv (emit_final (recorder x) bad good b (evs, e, c, bs) s)) = bs"
proof -
  obtain y s' where "emit_all (px_sink x) evs (s\<lparr>p_conv := (c, bs)\<rparr>) = (y, s')" by fastforce
  with forget_emit [OF this] show ?thesis using assms(2)
    by (auto simp: emit_final_def recorder_def split: option.splits)
qed

lemma total_count: "p_total (count_bytes y s) = p_total s + int (length y)"
  by (simp add: count_bytes_def)

text \<open>What a turn passes on, read off its guards: the lemma that ties it to the record is below.\<close>

definition feeds :: "('s, 'e) pump_env \<Rightarrow> reading \<Rightarrow> ('s, 'e) pump \<Rightarrow> bool" where
  "feeds x r s = (rd_cause r = [] \<and> rd_err r = None \<and> rd_msg r = []
     \<and> p_total s + int (length (rd_payload r)) \<le> px_max x)"

lemma forget_convert:
  assumes "convert (recorder x) r s = (g, s')"
  shows "convert x r (forget s) = (g, forget s') \<and> snd (p_conv s') = snd (p_conv s) @ [rd_payload r]"
proof -
  obtain c bs where p: "p_conv s = (c, bs)" by fastforce
  obtain evs d e c' where f: "op_feed (px_ops x) (rd_payload r) c = (evs, d, e, c')"
    by (cases "op_feed (px_ops x) (rd_payload r) c")
  let ?o = "observe_progress (px_limits x) (op_snap (px_ops x) c') (s\<lparr>p_conv := (c', bs @ [rd_payload r])\<rparr>)"
  obtain y u where u: "emit_all (px_sink x) evs ?o = (y, u)" by fastforce
  show ?thesis using assms p f u forget_emit [OF u]
    by (auto simp: convert_def recorder_def recording_def Let_def split: option.splits)
qed

lemma forget_turn:
  assumes "turn (recorder x) r s = (g, s')"
  shows "turn x r (forget s) = (g, forget s')
    \<and> snd (p_conv s') = snd (p_conv s) @ (if feeds x r (forget s) then [rd_payload r] else [])"
proof -
  obtain c bs where p: "p_conv s = (c, bs)" by fastforce
  obtain evs e c' where f: "op_final (px_ops x) c = (evs, e, c')" by (cases "op_final (px_ops x) c")
  have o: "forget (on_cause (recorder x) r s) = on_cause x r (forget s) \<and> snd (p_conv (on_cause (recorder x) r s)) = bs"
    using forget_final [of s bs "op_final (px_ops x) c" evs e c' x] p f
    by (simp add: on_cause_def) (simp add: recorder_def recording_def)
  have m: "px_max (recorder x) = px_max x" by (simp add: recorder_def)
  show ?thesis
  proof (cases "feeds x r (forget s)")
    case True
    then have t: "rd_cause r = []" "rd_err r = None" "rd_msg r = []" "\<not> px_max x < p_total s + int (length (rd_payload r))"
      by (simp_all add: feeds_def)
    then have "convert (recorder x) r (count_bytes (rd_payload r) s) = (g, s')" using assms m by (simp add: turn_def total_count)
    from forget_convert [OF this] show ?thesis using True t by (simp add: turn_def total_count)
  next
    case False
    then show ?thesis using assms o p m
      by (auto simp: turn_def feeds_def Let_def total_count split: option.splits if_splits)
  qed
qed

lemma forget_pump_turn:
  "pump_turn x r (forget s) = forget (pump_turn (recorder x) r s)
   \<and> snd (p_conv (pump_turn (recorder x) r s)) = snd (p_conv s) @ (if feeds x r (forget s) then [rd_payload r] else [])"
proof -
  obtain g s' where t: "turn (recorder x) r s = (g, s')" by fastforce
  obtain c bs where p: "p_conv s' = (c, bs)" by fastforce
  obtain evs e c' where f: "op_flush (px_ops x) c = (evs, e, c')" by (cases "op_flush (px_ops x) c")
  have o: "op_flush (px_ops (recorder x)) (c, bs) = (evs, e, c', bs)"
    by (simp add: recorder_def recording_def f)
  have "forget (after_loop (recorder x) b s') = after_loop x b (forget s')
      \<and> snd (p_conv (after_loop (recorder x) b s')) = bs" for b
    using forget_final [of s' bs "op_flush (px_ops x) c" evs e c' x] p f by (simp add: after_loop_def o)
  then show ?thesis using forget_turn [OF t] t p by (cases g) (simp_all add: pump_turn_def)
qed

text \<open>The record, computed beside a run without one.\<close>

fun taken :: "('s, 'e) pump_env \<Rightarrow> reading list \<Rightarrow> ('s, 'e) pump \<Rightarrow> string list" where
  "taken x [] s = []"
| "taken x (r # rs) s =
     (if p_over s then []
      else (if feeds x r s then [rd_payload r] else []) @ taken x rs (pump_turn x r s))"

lemma forget_run:
  "pump_run x rs (forget s) = forget (pump_run (recorder x) rs s)
   \<and> snd (p_conv (pump_run (recorder x) rs s)) = snd (p_conv s) @ taken x rs (forget s)"
proof (induction rs arbitrary: s)
  case (Cons r rs)
  show ?case using Cons.IH [of "pump_turn (recorder x) r s"] forget_pump_turn [of x r s]
    by (cases "p_over s") simp_all
qed simp

lemma forget_start: "forget (start_pump d (c, bs)) = start_pump d c"
  by (simp add: forget_def start_pump_def)

lemma fed_taken: "fed x rs d c = taken x rs (start_pump d c)"
  using forget_run [of x rs "start_pump d (c, [])"] by (simp add: fed_def forget_start) (simp add: start_pump_def)

lemma run_over: "p_over s \<Longrightarrow> pump_run x rs s = s"
  by (cases rs) simp_all

lemma taken_over: "p_over s \<Longrightarrow> taken x rs s = []"
  by (cases rs) simp_all

lemma over_unless_taken: "live_pump s \<Longrightarrow> \<not> feeds x r s \<Longrightarrow> p_over (pump_turn x r s)"
  using pump_turn_live [of s x r] again_turn [of x r s] by (force simp: feeds_def ending_def)

lemma taken_prefix: "live_pump s \<or> p_over s \<Longrightarrow> \<exists>ys. map rd_payload rs = taken x rs s @ ys"
proof (induction rs arbitrary: s)
  case (Cons r rs)
  show ?case
  proof (cases "p_over s \<or> \<not> feeds x r s")
    case True
    then show ?thesis using over_unless_taken [of s x r] Cons.prems by (auto simp: taken_over)
  next
    case False
    then have "live_pump (pump_turn x r s) \<or> p_over (pump_turn x r s)" using turn_shape Cons.prems by blast
    then show ?thesis using Cons.IH False by auto
  qed
qed simp

lemma taken_bounded:
  "live_pump s \<Longrightarrow> p_total s \<le> px_max x \<Longrightarrow> p_total s + int (length (concat (taken x rs s))) \<le> px_max x"
proof (induction rs arbitrary: s)
  case (Cons r rs)
  have o: "\<not> p_over s" using Cons.prems(1) by (simp add: live_pump_def)
  show ?case
  proof (cases "p_over (pump_turn x r s)")
    case True
    then show ?thesis using o Cons.prems(2) by (auto simp: taken_over feeds_def)
  next
    case False
    then have t: "turn x r s = (Again, pump_turn x r s)" by (rule pump_turn_live [OF Cons.prems(1)])
    have "live_pump (pump_turn x r s)" using live_turn [OF Cons.prems(1) t] by simp
    moreover have "feeds x r s" using over_unless_taken [OF Cons.prems(1)] False by blast
    ultimately show ?thesis using Cons.IH [of "pump_turn x r s"] again_turn [OF t] o by simp
  qed
qed simp

section \<open>Transparency\<close>

text \<open>The events and the state of a converter fed with a list of payloads.\<close>

fun convert_all :: "('s, 'e) conv_ops \<Rightarrow> string list \<Rightarrow> 's \<Rightarrow> 'e list \<times> 's" where
  "convert_all ops [] c = ([], c)"
| "convert_all ops (b # bs) c =
     (case op_feed ops b c of (evs, _, _, c') \<Rightarrow> (case convert_all ops bs c' of (es, c'') \<Rightarrow> (evs @ es, c'')))"

lemma delivered_simps [simp]:
  "delivered [] = []" "delivered (as @ bs) = delivered as @ delivered bs"
  "delivered (Deliver e # as) = e # delivered as" "delivered (CloseUp # as) = delivered as"
  "delivered (CloseDown m # as) = delivered as" "delivered (Timer t # as) = delivered as"
  "delivered (LogDone c b # as) = delivered as"
  by (simp_all add: delivered_def List.map_filter_def)

lemma emit_delivers:
  "emit_all sink evs s = (y, s') \<Longrightarrow>
     \<exists>es. prefix es evs \<and> delivered (p_acts s') = delivered (p_acts s) @ es \<and> (y = None \<longrightarrow> es = evs) \<and> p_conv s' = p_conv s"
proof (induction sink evs s rule: emit_all.induct)
  case (2 sink e es s)
  show ?case
  proof (cases "sink (delivered (p_acts s)) e")
    case None
    then obtain zs where "prefix zs es" "delivered (p_acts s') = delivered (p_acts s) @ e # zs"
        "p_conv s' = p_conv s" "y = None \<longrightarrow> zs = es"
      using 2 by fastforce
    then show ?thesis by (intro exI [of _ "e # zs"]) auto
  next
    case (Some m)
    then have "s' = s" "y = Some m" using 2(2) by simp_all
    then show ?thesis by simp
  qed
qed simp

lemma outcome_fields [simp]:
  "delivered (p_acts (fail_with m c b s)) = delivered (p_acts s)" "delivered (p_acts (log_done c b s)) = delivered (p_acts s)"
  "delivered (p_acts (deferred s)) = delivered (p_acts s)"
  "delivered (p_acts (observe_progress l snap s)) = delivered (p_acts s)"
  "p_conv (observe_progress l snap s) = p_conv s"
  by (simp_all add: fail_with_def log_done_def close_streams_def deferred_def observe_progress_def Let_def)

lemma start_fields [simp]: "p_conv (start_pump d c) = c" "delivered (p_acts (start_pump d c)) = []"
  by (simp_all add: start_pump_def)

lemma final_delivers:
  "\<exists>es. prefix es (fst r) \<and> delivered (p_acts (emit_final x bad good b r s)) = delivered (p_acts s) @ es"
proof -
  obtain evs e c where r: "r = (evs, e, c)" by (cases r)
  obtain y s' where s': "emit_all (px_sink x) evs (s\<lparr>p_conv := c\<rparr>) = (y, s')" by fastforce
  show ?thesis using emit_delivers [OF s'] r s'
    by (cases e; cases y) (auto simp: emit_final_def intro: exI [of _ "[]"])
qed

lemma convert_delivers:
  assumes "op_feed (px_ops x) (rd_payload r) (p_conv s) = (evs, d, e, c)" "convert x r s = (f, s')"
  shows "(f = Again \<longrightarrow> e = None \<and> \<not> d) \<and> (f \<noteq> Returned \<longrightarrow> delivered (p_acts s') = delivered (p_acts s) @ evs \<and> p_conv s' = c
      \<and> e = None \<and> p_done s' = d)
    \<and> (\<exists>es. prefix es evs \<and> delivered (p_acts s') = delivered (p_acts s) @ es)"
proof (cases e)
  case (Some y)
  then show ?thesis using assms by (auto simp: convert_def Let_def intro: exI [of _ "[]"])
next
  case None
  let ?s = "observe_progress (px_limits x) (op_snap (px_ops x) c) (s\<lparr>p_conv := c\<rparr>)"
  obtain y s1 where s1: "emit_all (px_sink x) evs ?s = (y, s1)" by fastforce
  show ?thesis using emit_delivers [OF s1] assms None s1
    by (cases y) (auto simp: convert_def Let_def split: if_splits)
qed

lemma early_delivers:
  assumes "\<not> feeds x r s"
  shows "\<exists>es. prefix es (fst (op_final (px_ops x) (p_conv s)))
    \<and> delivered (p_acts (pump_turn x r s)) = delivered (p_acts s) @ es"
proof -
  have "\<exists>es. prefix es (fst (op_final (px_ops x) (p_conv s)))
      \<and> delivered (p_acts (on_cause x r s)) = delivered (p_acts s) @ es"
    using final_delivers [of "op_final (px_ops x) (p_conv s)" x "''terminal_error''" "''finish_grace''" "rd_closed r" s]
    by (auto simp: on_cause_def intro: exI [of _ "[]"])
  then show ?thesis using assms
    by (auto simp: feeds_def pump_turn_def turn_def Let_def count_bytes_def intro: exI [of _ "[]"] split: option.splits)
qed

lemma taken_delivers:
  assumes f: "feeds x r s" "op_feed (px_ops x) (rd_payload r) (p_conv s) = (evs, d, e, c)" and l: "live_pump s"
  shows "if p_over (pump_turn x r s)
    then \<exists>zs. (zs = [] \<or> zs = fst (op_flush (px_ops x) c)) \<and> prefix (delivered (p_acts (pump_turn x r s))) (delivered (p_acts s) @ evs @ zs)
    else delivered (p_acts (pump_turn x r s)) = delivered (p_acts s) @ evs \<and> p_conv (pump_turn x r s) = c"
proof -
  let ?s = "count_bytes (rd_payload r) s"
  obtain g s' where t: "convert x r ?s = (g, s')" by fastforce
  have tr: "turn x r s = (g, s')" using f(1) t by (simp add: turn_def feeds_def Let_def count_bytes_def)
  have "op_feed (px_ops x) (rd_payload r) (p_conv ?s) = (evs, d, e, c)" using f(2) by (simp add: count_bytes_def)
  note cd = convert_delivers [OF this t]
  have base: "delivered (p_acts ?s) = delivered (p_acts s)" by (simp add: count_bytes_def)
  have lv: "case g of Returned \<Rightarrow> failed s' \<or> concluded s' | _ \<Rightarrow> live_pump s'" by (rule live_turn [OF l tr])
  show ?thesis
  proof (cases g)
    case Again
    then show ?thesis using cd lv tr base by (simp add: pump_turn_def live_pump_def)
  next
    case Broke
    then have d': "delivered (p_acts s') = delivered (p_acts s) @ evs" "p_conv s' = c" using cd base by simp_all
    have "\<exists>zs. (zs = [] \<or> zs = fst (op_flush (px_ops x) c))
        \<and> prefix (delivered (p_acts (after_loop x (rd_closed r) s'))) (delivered (p_acts s) @ evs @ zs)"
      using final_delivers [of "op_flush (px_ops x) c" x "''truncated''" "''eof''" True s'] d'
      by (auto simp: after_loop_def)
    then show ?thesis using Broke tr using lv
      by (simp add: pump_turn_def released_deferred [OF settled_after_loop])
  next
    case Returned
    then have "\<exists>es. prefix es evs \<and> delivered (p_acts s') = delivered (p_acts s) @ es" using cd base by simp
    then show ?thesis using Returned tr released_deferred [of s'] lv
      by (auto simp: pump_turn_def intro!: exI [of _ "[]"])
  qed
qed

lemma run_delivers:
  "live_pump s \<Longrightarrow> convert_all (px_ops x) (taken x rs s) (p_conv s) = (evs, c) \<Longrightarrow>
     if p_over (pump_run x rs s)
     then \<exists>zs. zs \<in> {[], fst (op_flush (px_ops x) c), fst (op_final (px_ops x) c)}
            \<and> prefix (delivered (p_acts (pump_run x rs s))) (delivered (p_acts s) @ evs @ zs)
     else delivered (p_acts (pump_run x rs s)) = delivered (p_acts s) @ evs \<and> p_conv (pump_run x rs s) = c"
proof (induction rs arbitrary: s evs)
  case (Cons r rs)
  let ?t = "pump_turn x r s"
  have o: "\<not> p_over s" using Cons.prems(1) by (simp add: live_pump_def)
  show ?case
  proof (cases "feeds x r s")
    case False
    then have "p_over ?t" using over_unless_taken [OF Cons.prems(1)] by blast
    then show ?thesis using early_delivers [OF False] Cons.prems(2) o False by (auto simp: taken_over run_over)
  next
    case True
    obtain es d e c1 where f: "op_feed (px_ops x) (rd_payload r) (p_conv s) = (es, d, e, c1)"
      by (cases "op_feed (px_ops x) (rd_payload r) (p_conv s)")
    note fd = taken_delivers [OF True f Cons.prems(1)]
    show ?thesis
    proof (cases "p_over ?t")
      case over: True
      then have "evs = es" "c = c1" using Cons.prems(2) True o f by (auto simp: taken_over)
      then show ?thesis using fd over o by (auto simp: run_over)
    next
      case False
      then have live: "live_pump ?t" using turn_shape [OF Cons.prems(1)] by blast
      obtain es2 where r: "convert_all (px_ops x) (taken x rs ?t) c1 = (es2, c)" "evs = es @ es2"
        using Cons.prems(2) True o f by (auto split: prod.splits)
      have "p_conv ?t = c1" "delivered (p_acts ?t) = delivered (p_acts s) @ es" using fd False by simp_all
      then show ?thesis using Cons.IH [OF live, of es2] r o by (auto split: if_splits)
    qed
  qed
qed (simp add: live_pump_def)

section \<open>Properties\<close>

text \<open>
  C8. Whatever the upstream, the converter, the timers and the host do, the pump closes nothing
  while it runs, and once it has returned it closed the upstream and then the downstream exactly
  once, logged exactly once and stopped the timers exactly once, in one of two orders: after a
  failure it closes with the error, then logs, then stops the timers; after a clean end it logs one
  of the clean causes, stops the timers and closes without an error. Nothing is delivered and no
  timer armed after the first of these.
\<close>

theorem pump_releases_once:
  "if p_over (pump_run x rs (start_pump d c)) then released (p_acts (pump_run x rs (start_pump d c)))
   else list_all working (p_acts (pump_run x rs (start_pump d c)))"
  using run_shape [OF disjI1 [OF live_start], of x rs d c] by (auto simp: live_pump_def)

text \<open>
  C9. The pump returns: a read that reports the upstream closed, an error, or a claimed cause ends
  it, and so does a total of payload bytes above the limit, whatever the converter does; it does
  not turn again afterwards.
\<close>

theorem pump_returns:
  assumes "list_ex ending rs \<or> px_max x < int (length (concat (map rd_payload rs)))" "0 \<le> px_max x"
  shows "p_over (pump_run x rs (start_pump d c)) \<and> pump_run x (rs @ qs) (start_pump d c) = pump_run x rs (start_pump d c)"
proof -
  have o: "p_over (pump_run x rs (start_pump d c))"
    using run_live [OF live_start, of x rs d c] assms by (force simp: start_pump_def)
  have "pump_run x (as @ bs) s = pump_run x bs (pump_run x as s)" for as bs and s :: "('a, 'b) pump"
    by (induction as arbitrary: s) (simp_all add: run_over)
  then show ?thesis using o by (simp add: run_over)
qed

text \<open>
  C11. The limit holds before the converter: the payloads \<open>Feed\<close> is called with are the first
  of those the upstream sent, in order, and together they never exceed max-response-bytes. They
  are what a recording converter has written down at the end of the run; the record changes
  nothing of what the pump does.
\<close>

theorem pump_bounded:
  "prefix (fed x rs d c) (map rd_payload rs)
   \<and> int (length (concat (fed x rs d c))) \<le> max 0 (px_max x)
   \<and> forget (pump_run (recorder x) rs (start_pump d (c, []))) = pump_run x rs (start_pump d c)"
proof (intro conjI)
  show "prefix (fed x rs d c) (map rd_payload rs)"
    using taken_prefix [OF disjI1 [OF live_start], of rs x d c] by (auto simp: prefix_def fed_taken)
  show "int (length (concat (fed x rs d c))) \<le> max 0 (px_max x)"
  proof (cases "0 \<le> px_max x")
    case True
    then show ?thesis using taken_bounded [OF live_start, of d c x rs] by (simp add: start_pump_def fed_taken)
  next
    case False
    then have "taken x rs (start_pump d c) = []"
    proof (cases rs)
      case (Cons r qs)
      then have "\<not> feeds x r (start_pump d c)" using False by (simp add: feeds_def start_pump_def)
      then show ?thesis using Cons over_unless_taken [OF live_start, of x r d c] by (simp add: taken_over)
    qed simp
    then show ?thesis by (simp add: fed_taken)
  qed
  show "forget (pump_run (recorder x) rs (start_pump d (c, []))) = pump_run x rs (start_pump d c)"
    using forget_run [of x rs "start_pump d (c, [])"] by (simp add: forget_start)
qed


end
