(* ===== verification/Requests.thy ===== *)
theory Requests
  imports Kernel
begin

text \<open>
  The decoding kernels of \<open>internal/adapter/shared/shared.go\<close>: content parts of
  OpenAI-style messages, Anthropic blocks and requests, Responses items, and the rejections
  they share. A \<open>*float64\<close> field keeps its number literal; magnitudes beyond the range of
  \<open>float64\<close>, which \<open>encoding/json\<close> rejects, are not distinguished.
\<close>

section \<open>Rejections\<close>

definition unsupported :: "string \<Rightarrow> err" where
  "unsupported m = mk_err ClassUnsupported m 0 False"

definition unsupported_format :: "string \<Rightarrow> string \<Rightarrow> err" where
  "unsupported_format fmt target =
     unsupported (''source protocol '' @ go_q fmt @ '' cannot be translated to '' @ target)"

definition unsupported_part_type :: "string \<Rightarrow> string \<Rightarrow> err" where
  "unsupported_part_type ty target =
     unsupported (''unsupported content block type '' @ go_q ty @ '' for '' @ target)"

definition unsupported_input_item_type :: "string \<Rightarrow> err" where
  "unsupported_input_item_type ty =
     mk_err ClassUnsupported (''unsupported Responses input item type '' @ go_q ty) 400 False"

definition is_content_part_type :: "string \<Rightarrow> bool" where
  "is_content_part_type ty =
     (ty \<in> {''text'', ''input_text'', ''output_text'', ''image_url'', ''input_image''})"

definition validate_content_part :: "string \<Rightarrow> string \<Rightarrow> err" where
  "validate_content_part ty target =
     unsupported (''unsupported content part type '' @ go_q ty @ '' for '' @ target)"

definition validate_role :: "string \<Rightarrow> string \<Rightarrow> err" where
  "validate_role role target =
     unsupported (''unsupported message role '' @ go_q role @ '' for '' @ target)"

definition system_image_rejected :: err where
  "system_image_rejected = translation ''system messages cannot carry image content''"

definition function_tool :: "string \<Rightarrow> string \<Rightarrow> err option" where
  "function_tool ty target =
     (if ty \<noteq> ''function''
      then Some (unsupported (''unsupported tool type '' @ go_q ty @ ''; only function tools translate to '' @ target))
      else None)"

section \<open>Content parts\<close>

definition dec_url :: "string dec" where
  "dec_url = dec_struct [(''url'', dec_string)]"

definition openai_image_url :: "raw \<Rightarrow> string result" where
  "openai_image_url r =
     (let url = (case r of None \<Rightarrow> []
                 | Some j \<Rightarrow> (case raw_as dec_url [] r of
                     Some u \<Rightarrow> if u \<noteq> [] then u else fst (dec_string j [])
                   | None \<Rightarrow> fst (dec_string j [])))
      in if url = [] then Inl (translation ''image content part missing url'') else Inr url)"

datatype content_part = TextPart (part_text: string) | ImagePart (part_url: string)

record wire_part =
  wp_type :: string
  wp_text :: string
  wp_image :: raw

definition wire_part_zero :: wire_part where
  "wire_part_zero = \<lparr>wp_type = [], wp_text = [], wp_image = None\<rparr>"

definition wire_part_fields :: "(string \<times> wire_part dec) list" where
  "wire_part_fields =
     [(''type'', field wp_type wp_type_update dec_string), (''text'', field wp_text wp_text_update dec_string),
      (''image_url'', field wp_image wp_image_update dec_raw)]"

fun parts_loop :: "string \<Rightarrow> wire_part list \<Rightarrow> content_part list result" where
  "parts_loop target [] = Inr []"
| "parts_loop target (p # ps) =
     (if \<not> is_content_part_type (wp_type p) then Inl (validate_content_part (wp_type p) target)
      else if wp_type p = ''image_url'' \<or> wp_type p = ''input_image'' then
        (case openai_image_url (wp_image p) of
           Inl e \<Rightarrow> Inl e
         | Inr url \<Rightarrow> map_sum id (\<lambda>out. ImagePart url # out) (parts_loop target ps))
      else map_sum id (\<lambda>out. if wp_text p \<noteq> [] then TextPart (wp_text p) # out else out) (parts_loop target ps))"

definition decode_string_or_parts :: "string \<Rightarrow> raw \<Rightarrow> string \<Rightarrow> content_part list result" where
  "decode_string_or_parts diag r target =
     (if \<not> has_content r then Inr []
      else (case raw_as dec_string [] r of
        Some s \<Rightarrow> Inr (if s = [] then [] else [TextPart s])
      | None \<Rightarrow>
          (case raw_as (dec_list wire_part_zero (dec_struct wire_part_fields)) [] r of
             None \<Rightarrow> Inl (translation (''malformed message content: '' @ diag))
           | Some parts \<Rightarrow> parts_loop target parts)))"

fun blocks_loop :: "content_part list \<Rightarrow> gv list result" where
  "blocks_loop [] = Inr []"
| "blocks_loop (ImagePart u # ps) =
     (case image_source u of
        Inl e \<Rightarrow> Inl e
      | Inr src \<Rightarrow> map_sum id (\<lambda>bs. image_block src # bs) (blocks_loop ps))"
| "blocks_loop (TextPart t # ps) =
     map_sum id (\<lambda>bs. GMap [(''type'', GStr ''text''), (''text'', GStr t)] # bs) (blocks_loop ps)"

definition claude_blocks_from_openai :: "string \<Rightarrow> raw \<Rightarrow> string \<Rightarrow> gv list result" where
  "claude_blocks_from_openai diag r target =
     (case decode_string_or_parts diag r target of Inl e \<Rightarrow> Inl e | Inr parts \<Rightarrow> blocks_loop parts)"

text \<open>\<open>JoinTexts\<close> over maps: the string values of the key text.\<close>

definition join_texts :: "(string \<times> gv) list list \<Rightarrow> string" where
  "join_texts parts =
     concat (map (\<lambda>p. case map_of p ''text'' of Some (GStr t) \<Rightarrow> t | _ \<Rightarrow> []) parts)"

section \<open>Claude requests\<close>

record claude_tool_decl =
  ct_name :: string
  ct_description :: string
  ct_input_schema :: raw

record thinking_conf =
  th_type :: string
  th_budget :: int

definition thinking_enabled :: "thinking_conf option \<Rightarrow> bool" where
  "thinking_enabled t = (case t of None \<Rightarrow> False | Some x \<Rightarrow> th_type x = ''enabled'')"

definition tool_result_error_prefix :: string where
  "tool_result_error_prefix = ''[error] ''"

record claude_block =
  cb_kind :: string
  cb_text :: string
  cb_url :: string
  cb_call_id :: string
  cb_name :: string
  cb_input :: raw
  cb_result :: raw
  cb_is_error :: bool

record claude_message =
  cm_role :: string
  cm_content :: string
  cm_blocks :: "claude_block list"

record wire_source =
  ws_type :: string
  ws_media :: string
  ws_data :: string
  ws_url :: string

record wire_block =
  wb_type :: string
  wb_text :: string
  wb_source :: "wire_source option"
  wb_id :: string
  wb_name :: string
  wb_input :: raw
  wb_tool_use_id :: string
  wb_content :: raw
  wb_is_error :: bool

definition wire_source_zero :: wire_source where
  "wire_source_zero = \<lparr>ws_type = [], ws_media = [], ws_data = [], ws_url = []\<rparr>"

definition wire_source_fields :: "(string \<times> wire_source dec) list" where
  "wire_source_fields =
     [(''type'', field ws_type ws_type_update dec_string), (''media_type'', field ws_media ws_media_update dec_string),
      (''data'', field ws_data ws_data_update dec_string), (''url'', field ws_url ws_url_update dec_string)]"

definition wire_block_zero :: wire_block where
  "wire_block_zero = \<lparr>wb_type = [], wb_text = [], wb_source = None, wb_id = [], wb_name = [],
     wb_input = None, wb_tool_use_id = [], wb_content = None, wb_is_error = False\<rparr>"

definition wire_block_fields :: "(string \<times> wire_block dec) list" where
  "wire_block_fields =
     [(''type'', field wb_type wb_type_update dec_string), (''text'', field wb_text wb_text_update dec_string),
      (''source'', field wb_source wb_source_update (dec_ptr wire_source_zero (dec_struct wire_source_fields))),
      (''id'', field wb_id wb_id_update dec_string), (''name'', field wb_name wb_name_update dec_string),
      (''input'', field wb_input wb_input_update dec_raw),
      (''tool_use_id'', field wb_tool_use_id wb_tool_use_id_update dec_string),
      (''content'', field wb_content wb_content_update dec_raw),
      (''is_error'', field wb_is_error wb_is_error_update dec_bool)]"

definition decode_claude_block :: "json \<Rightarrow> claude_block result" where
  "decode_claude_block elem =
     (case raw_as (dec_struct wire_block_fields) wire_block_zero (Some elem) of
        None \<Rightarrow> Inl (translation ''malformed content block'')
      | Some wb \<Rightarrow>
          (let blk = \<lparr>cb_kind = wb_type wb, cb_text = wb_text wb, cb_url = [], cb_call_id = [],
                      cb_name = wb_name wb, cb_input = wb_input wb, cb_result = wb_content wb,
                      cb_is_error = wb_is_error wb\<rparr>
           in if wb_type wb = ''image'' then
                (case wb_source wb of
                   None \<Rightarrow> Inl (translation ''image block missing source'')
                 | Some src \<Rightarrow>
                     (case claude_image_url (ws_type src) (ws_url src) (ws_media src) (ws_data src) of
                        Inl e \<Rightarrow> Inl e
                      | Inr url \<Rightarrow> Inr (blk\<lparr>cb_url := url\<rparr>)))
              else if wb_type wb = ''tool_use'' then Inr (blk\<lparr>cb_call_id := wb_id wb\<rparr>)
              else if wb_type wb = ''tool_result'' then Inr (blk\<lparr>cb_call_id := wb_tool_use_id wb\<rparr>)
              else Inr blk))"

text \<open>The loops of the decoders stop at the first error.\<close>

fun collect :: "('a \<Rightarrow> 'b result) \<Rightarrow> 'a list \<Rightarrow> 'b list result" where
  "collect f [] = Inr []"
| "collect f (x # xs) =
     (case f x of Inl e \<Rightarrow> Inl e | Inr y \<Rightarrow> map_sum id (\<lambda>ys. y # ys) (collect f xs))"

definition decode_claude_blocks :: "raw \<Rightarrow> claude_block list result" where
  "decode_claude_blocks r =
     (case raw_as (dec_list None dec_raw) [] r of
        None \<Rightarrow> Inl (translation ''message content must be a string or an array of blocks'')
      | Some elems \<Rightarrow> collect (\<lambda>e. decode_claude_block (case e of None \<Rightarrow> JNull | Some j \<Rightarrow> j)) elems)"

record wire_message =
  wm_role :: string
  wm_content :: raw

definition decode_claude_message :: "wire_message \<Rightarrow> claude_message result" where
  "decode_claude_message wm =
     (let m = \<lparr>cm_role = wm_role wm, cm_content = [], cm_blocks = []\<rparr> in
      if has_content (wm_content wm)
      then (case raw_as dec_string [] (wm_content wm) of
              Some s \<Rightarrow> Inr (m\<lparr>cm_content := s\<rparr>)
            | None \<Rightarrow>
                (case decode_claude_blocks (wm_content wm) of
                   Inl e \<Rightarrow> Inl e
                 | Inr blocks \<Rightarrow> Inr (m\<lparr>cm_blocks := blocks\<rparr>)))
      else Inr m)"

text \<open>A number literal under a pointer, for \<open>*float64\<close>.\<close>

fun dec_number :: "string dec" where
  "dec_number JNull a = (a, True)"
| "dec_number (JNum s) a = (s, True)"
| "dec_number _ a = (a, False)"

record claude_env =
  ce_max_tokens :: int
  ce_system :: raw
  ce_messages :: "wire_message list"
  ce_stop :: "string list"
  ce_tools :: "claude_tool_decl list"
  ce_tool_choice :: raw
  ce_thinking :: "thinking_conf option"
  ce_stream :: bool
  ce_temperature :: "string option"
  ce_top_p :: "string option"

definition claude_env_zero :: claude_env where
  "claude_env_zero = \<lparr>ce_max_tokens = 0, ce_system = None, ce_messages = [], ce_stop = [], ce_tools = [],
     ce_tool_choice = None, ce_thinking = None, ce_stream = False, ce_temperature = None, ce_top_p = None\<rparr>"

definition dec_wire_message :: "wire_message dec" where
  "dec_wire_message = dec_struct
     [(''role'', field wm_role wm_role_update dec_string), (''content'', field wm_content wm_content_update dec_raw)]"

definition dec_claude_tool :: "claude_tool_decl dec" where
  "dec_claude_tool = dec_struct
     [(''name'', field ct_name ct_name_update dec_string),
      (''description'', field ct_description ct_description_update dec_string),
      (''input_schema'', field ct_input_schema ct_input_schema_update dec_raw)]"

definition dec_claude_thinking :: "thinking_conf dec" where
  "dec_claude_thinking = dec_struct
     [(''type'', field th_type th_type_update dec_string), (''budget_tokens'', field th_budget th_budget_update dec_int64)]"

definition claude_env_fields :: "(string \<times> claude_env dec) list" where
  "claude_env_fields =
     [(''max_tokens'', field ce_max_tokens ce_max_tokens_update dec_int64),
      (''system'', field ce_system ce_system_update dec_raw),
      (''messages'', field ce_messages ce_messages_update
         (dec_list \<lparr>wm_role = [], wm_content = None\<rparr> dec_wire_message)),
      (''stop_sequences'', field ce_stop ce_stop_update (dec_list [] dec_string)),
      (''tools'', field ce_tools ce_tools_update
         (dec_list \<lparr>ct_name = [], ct_description = [], ct_input_schema = None\<rparr> dec_claude_tool)),
      (''tool_choice'', field ce_tool_choice ce_tool_choice_update dec_raw),
      (''thinking'', field ce_thinking ce_thinking_update
         (dec_ptr \<lparr>th_type = [], th_budget = 0\<rparr> dec_claude_thinking)),
      (''stream'', field ce_stream ce_stream_update dec_bool),
      (''temperature'', field ce_temperature ce_temperature_update (dec_ptr [] dec_number)),
      (''top_p'', field ce_top_p ce_top_p_update (dec_ptr [] dec_number))]"

record claude_request =
  cr_max_tokens :: int
  cr_system :: string
  cr_messages :: "claude_message list"
  cr_stop :: "string list"
  cr_tools :: "claude_tool_decl list"
  cr_choice_kind :: tool_choice_kind
  cr_choice_name :: string
  cr_thinking :: "thinking_conf option"
  cr_stream :: bool
  cr_temperature :: "string option"
  cr_top_p :: "string option"

definition decode_claude_messages :: "string \<Rightarrow> string \<Rightarrow> claude_request result" where
  "decode_claude_messages diag body =
     (case unmarshal (dec_struct claude_env_fields) body claude_env_zero of
        (_, False) \<Rightarrow> Inl (translation (''malformed claude request JSON: '' @ diag))
      | (env, True) \<Rightarrow>
          (case decode_tool_choice diag (ce_tool_choice env) of
             Inl e \<Rightarrow> Inl e
           | Inr (kind, nm) \<Rightarrow>
               (case claude_system_text (ce_system env) of
                  Inl e \<Rightarrow> Inl e
                | Inr system \<Rightarrow>
                    (case collect decode_claude_message (ce_messages env) of
                       Inl e \<Rightarrow> Inl e
                     | Inr msgs \<Rightarrow>
                         Inr \<lparr>cr_max_tokens = claude_max_tokens (ce_max_tokens env), cr_system = system,
                              cr_messages = msgs, cr_stop = ce_stop env, cr_tools = ce_tools env,
                              cr_choice_kind = kind, cr_choice_name = nm, cr_thinking = ce_thinking env,
                              cr_stream = ce_stream env, cr_temperature = ce_temperature env,
                              cr_top_p = ce_top_p env\<rparr>))))"

end
