(* ===== verification/Tool_Context.thy ===== *)
theory Tool_Context
  imports Requests
begin

text \<open>
  Responses tools of \<open>internal/adapter/shared/shared.go\<close>: the decoded declarations and
  items, the request-local tool context that maps namespaced declarations to Chat Completions
  names and back, and the transport wrapper of custom tools.

  The context keeps the order of declaration: the code's maps are association lists, one entry
  per key.
\<close>

section \<open>Declarations and items\<close>

datatype tool_decl =
  RespTool (rt_type: string) (rt_name: string) (rt_description: string) (rt_parameters: raw)
    (rt_format: raw) (rt_namespace: string) (rt_strict: "bool option") (rt_tools: "tool_decl list")

definition resp_tool_zero :: tool_decl where
  "resp_tool_zero = RespTool [] [] [] None None [] None []"

text \<open>
  A tool under construction, as a record so that each member has its update function; nested
  tools are decoded to a bounded depth, which the nesting limit of the parser provides.
\<close>

record tool_wire =
  tw_type :: string
  tw_name :: string
  tw_description :: string
  tw_parameters :: raw
  tw_format :: raw
  tw_namespace :: string
  tw_strict :: "bool option"
  tw_tools :: "tool_decl list"

definition tool_wire_of :: "tool_decl \<Rightarrow> tool_wire" where
  "tool_wire_of t = \<lparr>tw_type = rt_type t, tw_name = rt_name t, tw_description = rt_description t,
     tw_parameters = rt_parameters t, tw_format = rt_format t, tw_namespace = rt_namespace t,
     tw_strict = rt_strict t, tw_tools = rt_tools t\<rparr>"

definition tool_of_wire :: "tool_wire \<Rightarrow> tool_decl" where
  "tool_of_wire w = RespTool (tw_type w) (tw_name w) (tw_description w) (tw_parameters w) (tw_format w)
     (tw_namespace w) (tw_strict w) (tw_tools w)"

primrec dec_resp_tool :: "nat \<Rightarrow> tool_decl dec" where
  "dec_resp_tool 0 j t = (t, False)"
| "dec_resp_tool (Suc n) j t =
     (let (w, ok) = dec_struct
        [(''type'', field tw_type tw_type_update dec_string),
         (''name'', field tw_name tw_name_update dec_string),
         (''description'', field tw_description tw_description_update dec_string),
         (''parameters'', field tw_parameters tw_parameters_update dec_raw),
         (''format'', field tw_format tw_format_update dec_raw),
         (''namespace'', field tw_namespace tw_namespace_update dec_string),
         (''strict'', field tw_strict tw_strict_update (dec_ptr False dec_bool)),
         (''tools'', field tw_tools tw_tools_update (dec_list resp_tool_zero (dec_resp_tool n)))]
        j (tool_wire_of t)
      in (tool_of_wire w, ok))"

definition dec_tools :: "tool_decl list dec" where
  "dec_tools = dec_list resp_tool_zero (dec_resp_tool max_nesting)"

record resp_item =
  ri_type :: string
  ri_id :: string
  ri_role :: string
  ri_content :: raw
  ri_call_id :: string
  ri_name :: string
  ri_arguments :: string
  ri_input :: string
  ri_namespace :: string
  ri_status :: string
  ri_tools :: "tool_decl list"
  ri_output :: raw
  ri_summary :: "string list"

definition resp_item_zero :: resp_item where
  "resp_item_zero = \<lparr>ri_type = [], ri_id = [], ri_role = [], ri_content = None, ri_call_id = [], ri_name = [],
     ri_arguments = [], ri_input = [], ri_namespace = [], ri_status = [], ri_tools = [], ri_output = None,
     ri_summary = []\<rparr>"

definition dec_resp_item :: "resp_item dec" where
  "dec_resp_item = dec_struct
     [(''type'', field ri_type ri_type_update dec_string), (''id'', field ri_id ri_id_update dec_string),
      (''role'', field ri_role ri_role_update dec_string), (''content'', field ri_content ri_content_update dec_raw),
      (''call_id'', field ri_call_id ri_call_id_update dec_string),
      (''name'', field ri_name ri_name_update dec_string),
      (''arguments'', field ri_arguments ri_arguments_update dec_string),
      (''input'', field ri_input ri_input_update dec_string),
      (''namespace'', field ri_namespace ri_namespace_update dec_string),
      (''status'', field ri_status ri_status_update dec_string),
      (''tools'', field ri_tools ri_tools_update dec_tools),
      (''output'', field ri_output ri_output_update dec_raw),
      (''summary'', field ri_summary ri_summary_update (dec_list [] dec_detail))]"

text \<open>\<open>NormalizeResponsesItemType\<close>.\<close>

definition normalize_item_type :: "resp_item \<Rightarrow> string" where
  "normalize_item_type item =
     (let t = trim_space (ri_type item) in
      if t \<noteq> [] then t
      else if ri_role item \<noteq> [] \<or> has_content (ri_content item) then ''message'' else [])"

text \<open>The members of a Responses request that its decoding kernels read.\<close>

record responses_request =
  rq_instructions :: raw
  rq_input :: raw
  rq_max_output_tokens :: "int option"
  rq_tools :: "tool_decl list"
  rq_tool_choice :: raw
  rq_text_format :: "raw option"
  rq_stream_options :: raw
  rq_parallel :: "bool option"
  rq_stream :: bool
  rq_temperature :: "string option"
  rq_top_p :: "string option"
  rq_effort :: "string option"

definition responses_request_zero :: responses_request where
  "responses_request_zero = \<lparr>rq_instructions = None, rq_input = None, rq_max_output_tokens = None, rq_tools = [],
     rq_tool_choice = None, rq_text_format = None, rq_stream_options = None, rq_parallel = None,
     rq_stream = False, rq_temperature = None, rq_top_p = None, rq_effort = None\<rparr>"

definition dec_responses_request :: "responses_request dec" where
  "dec_responses_request = dec_struct
     [(''instructions'', field rq_instructions rq_instructions_update dec_raw),
      (''input'', field rq_input rq_input_update dec_raw),
      (''max_output_tokens'', field rq_max_output_tokens rq_max_output_tokens_update (dec_ptr 0 dec_int64)),
      (''tools'', field rq_tools rq_tools_update dec_tools),
      (''tool_choice'', field rq_tool_choice rq_tool_choice_update dec_raw),
      (''text'', field rq_text_format rq_text_format_update (dec_ptr None (dec_struct [(''format'', dec_raw)]))),
      (''stream_options'', field rq_stream_options rq_stream_options_update dec_raw),
      (''parallel_tool_calls'', field rq_parallel rq_parallel_update (dec_ptr False dec_bool)),
      (''stream'', field rq_stream rq_stream_update dec_bool),
      (''temperature'', field rq_temperature rq_temperature_update (dec_ptr [] dec_number)),
      (''top_p'', field rq_top_p rq_top_p_update (dec_ptr [] dec_number)),
      (''reasoning'', field rq_effort rq_effort_update (dec_ptr [] (dec_struct [(''effort'', dec_string)])))]"

definition decode_instructions :: "responses_request \<Rightarrow> string result" where
  "decode_instructions r =
     (if \<not> has_content (rq_instructions r) then Inr []
      else (case raw_as dec_string [] (rq_instructions r) of
              Some s \<Rightarrow> Inr s
            | None \<Rightarrow> Inl (translation ''instructions must be a string'')))"

definition decode_input_items :: "string \<Rightarrow> responses_request \<Rightarrow> resp_item list result" where
  "decode_input_items diag r =
     (if \<not> has_content (rq_input r) then Inr []
      else (case raw_as dec_string [] (rq_input r) of
        Some s \<Rightarrow> Inr [resp_item_zero\<lparr>ri_type := ''message'', ri_role := ''user'', ri_content := rq_input r\<rparr>]
      | None \<Rightarrow>
          (case raw_as (dec_list resp_item_zero dec_resp_item) [] (rq_input r) of
             Some items \<Rightarrow> Inr items
           | None \<Rightarrow> Inl (translation (''input must be a string or an array of items: '' @ diag)))))"

section \<open>Chat Completions tools\<close>

record cc_function =
  fn_name :: string
  fn_description :: string
  fn_parameters :: raw
  fn_strict :: "bool option"

definition gv_cc_function :: "cc_function \<Rightarrow> gv" where
  "gv_cc_function f =
     GStruct ([(''name'', GStr (fn_name f))]
       @ (if fn_description f = [] then [] else [(''description'', GStr (fn_description f))])
       @ (case fn_parameters f of None \<Rightarrow> [] | Some j \<Rightarrow> [(''parameters'', GRaw j)])
       @ (case fn_strict f of None \<Rightarrow> [] | Some b \<Rightarrow> [(''strict'', GBool b)]))"

record cc_tool =
  cct_type :: string
  cct_function :: cc_function

section \<open>The context\<close>

record identity =
  id_kind :: string
  id_name :: string
  id_namespace :: string
  id_chat_name :: string

text \<open>\<open>byIdentity\<close> and \<open>seenSchema\<close> are keyed by the namespace and the name joined with a NUL.\<close>

definition identity_key :: "string \<Rightarrow> string \<Rightarrow> string" where
  "identity_key namespace nm = namespace @ [CHR 0x00] @ nm"

record tool_context =
  x_kinds :: "(string \<times> string) list"
  x_by_chat :: "(string \<times> identity) list"
  x_by_identity :: "(string \<times> identity) list"
  x_local_count :: "(string \<times> nat) list"

definition empty_tool_context :: tool_context where
  "empty_tool_context = \<lparr>x_kinds = [], x_by_chat = [], x_by_identity = [], x_local_count = []\<rparr>"

definition unsupported_responses_tool :: "string \<Rightarrow> err" where
  "unsupported_responses_tool m = mk_err ClassUnsupported m 400 False"

definition local_count :: "tool_context \<Rightarrow> string \<Rightarrow> nat" where
  "local_count c nm = (case map_of (x_local_count c) nm of None \<Rightarrow> 0 | Some n \<Rightarrow> n)"

text \<open>The state of the building loop: the context, the schemas seen and the tools so far.\<close>

record builder =
  b_ctx :: tool_context
  b_seen :: "(string \<times> string) list"
  b_out :: "cc_tool list"

definition custom_schema :: json where
  "custom_schema = JObj [(''type'', JStr ''object''),
     (''properties'', JObj [(''input'', JObj [(''type'', JStr ''string'')])]), (''required'', JArr [JStr ''input''])]"

definition custom_format_ok :: "bool \<Rightarrow> raw \<Rightarrow> bool" where
  "custom_format_ok strict fmt =
     (\<not> has_content fmt \<or>
      (case raw_as (dec_struct [(''type'', dec_string)]) [] fmt of
         None \<Rightarrow> False | Some ty \<Rightarrow> \<not> strict \<or> ty = ''text''))"

text \<open>The end of \<open>add\<close>: duplicates, collisions, and the entry of a new declaration.\<close>

definition tool_insert :: "identity \<Rightarrow> cc_function \<Rightarrow> builder \<Rightarrow> builder result" where
  "tool_insert i fn b =
     (let key = identity_key (id_namespace i) (id_name i);
          encoded = marshal (gv_cc_function fn);
          c = b_ctx b
      in case map_of (b_seen b) key of
           Some previous \<Rightarrow>
             (if (case map_of (x_by_identity c) key of None \<Rightarrow> True | Some e \<Rightarrow> id_kind e \<noteq> id_kind i)
                 \<or> previous \<noteq> encoded
              then Inl (unsupported_responses_tool ''conflicting duplicate Responses tool declaration'')
              else Inr b)
         | None \<Rightarrow>
             (if (case map_of (x_by_chat c) (id_chat_name i) of
                    None \<Rightarrow> False
                  | Some e \<Rightarrow> id_namespace e \<noteq> id_namespace i \<or> id_name e \<noteq> id_name i)
              then Inl (unsupported_responses_tool ''Responses tool declarations collide after namespace flattening'')
              else Inr \<lparr>b_ctx = \<lparr>x_kinds = AList.update (id_chat_name i) (id_kind i) (x_kinds c),
                                  x_by_chat = AList.update (id_chat_name i) i (x_by_chat c),
                                  x_by_identity = AList.update key i (x_by_identity c),
                                  x_local_count = AList.update (id_name i) (local_count c (id_name i) + 1)
                                                    (x_local_count c)\<rparr>,
                         b_seen = AList.update key encoded (b_seen b),
                         b_out = b_out b @ [\<lparr>cct_type = ''function'', cct_function = fn\<rparr>]\<rparr>))"

definition tool_add :: "string \<Rightarrow> bool \<Rightarrow> tool_decl \<Rightarrow> string \<Rightarrow> builder \<Rightarrow> builder result" where
  "tool_add target strict tool namespace b =
     (let kind = trim_space (rt_type tool) in
      if kind \<noteq> ''function'' \<and> kind \<noteq> ''custom'' then
        (if \<not> strict then Inr b
         else Inl (unsupported_responses_tool
           (''unsupported Responses tool type '' @ go_q kind @ '' for '' @ target)))
      else (let nm = trim_space (rt_name tool) in
        if nm = [] then Inl (unsupported_responses_tool ''Responses tool name is required'')
        else (let chat = (if namespace \<noteq> [] then namespace @ ''__'' @ nm else nm) in
          if 64 < length chat
          then Inl (unsupported_responses_tool ''Responses tool name exceeds the 64-byte Chat Completions limit'')
          else if kind = ''custom'' \<and> \<not> custom_format_ok strict (rt_format tool)
          then Inl (unsupported_responses_tool
            ''custom tool format is unsupported; only text format translates to Chat Completions'')
          else tool_insert
            \<lparr>id_kind = kind, id_name = nm, id_namespace = namespace, id_chat_name = chat\<rparr>
            \<lparr>fn_name = chat, fn_description = rt_description tool,
              fn_parameters = Some (if kind = ''custom'' then custom_schema else object_schema (rt_parameters tool)),
              fn_strict = rt_strict tool\<rparr> b)))"

fun add_children :: "string \<Rightarrow> bool \<Rightarrow> string \<Rightarrow> tool_decl list \<Rightarrow> builder \<Rightarrow> builder \<times> err option" where
  "add_children target strict ns [] b = (b, None)"
| "add_children target strict ns (child # cs) b =
     (if rt_type child = ''namespace'' \<or> rt_tools child \<noteq> []
      then (b, Some (unsupported_responses_tool ''nested Responses namespaces are unsupported''))
      else (case tool_add target strict child ns b of
              Inl e \<Rightarrow> (b, Some e)
            | Inr b' \<Rightarrow> add_children target strict ns cs b'))"

fun add_declarations :: "string \<Rightarrow> bool \<Rightarrow> tool_decl list \<Rightarrow> builder \<Rightarrow> builder \<times> err option" where
  "add_declarations target strict [] b = (b, None)"
| "add_declarations target strict (tool # ts) b =
     (if rt_type tool = ''namespace'' then
        (let ns = trim_space (rt_name tool) in
         if ns = [] then (b, Some (unsupported_responses_tool ''Responses namespace name is required''))
         else (case add_children target strict ns (rt_tools tool) b of
                 (b', Some e) \<Rightarrow> (b', Some e)
               | (b', None) \<Rightarrow> add_declarations target strict ts b'))
      else if rt_tools tool \<noteq> []
      then (b, Some (unsupported_responses_tool ''builtin or nested Responses tools are unsupported''))
      else (case tool_add target strict tool [] b of
              Inl e \<Rightarrow> (b, Some e)
            | Inr b' \<Rightarrow> add_declarations target strict ts b'))"

definition builder_zero :: builder where
  "builder_zero = \<lparr>b_ctx = empty_tool_context, b_seen = [], b_out = []\<rparr>"

text \<open>The context built so far is returned with an error too; the tools are not.\<close>

definition build_responses_tool_context ::
    "string \<Rightarrow> responses_request option \<Rightarrow> string \<Rightarrow> bool \<Rightarrow> tool_context \<times> cc_tool list \<times> err option" where
  "build_responses_tool_context diag req target strict =
     (case req of
        None \<Rightarrow> (empty_tool_context, [], None)
      | Some r \<Rightarrow>
          (case decode_input_items diag r of
             Inl e \<Rightarrow> (empty_tool_context, [], Some e)
           | Inr items \<Rightarrow>
               (let decls = rq_tools r @ concat (map ri_tools (filter (\<lambda>i. ri_type i = ''additional_tools'') items));
                    (b, e) = add_declarations target strict decls builder_zero
                in (b_ctx b, if e = None then b_out b else [], e))))"

text \<open>\<open>NewResponsesToolContext\<close> ignores every error, a decoding error of the request included.\<close>

definition new_responses_tool_context :: "string \<Rightarrow> string \<Rightarrow> tool_context" where
  "new_responses_tool_context diag request =
     fst (build_responses_tool_context diag
       (Some (fst (unmarshal dec_responses_request request responses_request_zero))) ''Chat Completions'' False)"

section \<open>Lookups\<close>

definition resolve_call :: "tool_context \<Rightarrow> string \<Rightarrow> string \<Rightarrow> identity result" where
  "resolve_call c namespace nm =
     (if namespace = [] \<and> 1 < local_count c nm
      then Inl (unsupported_responses_tool ''ambiguous bare Responses tool name'')
      else (case map_of (x_by_identity c) (identity_key namespace nm) of
              Some i \<Rightarrow> Inr i
            | None \<Rightarrow>
                (case (if namespace = [] \<and> local_count c nm = 1
                       then List.find (\<lambda>i. id_name i = nm) (map snd (x_by_identity c)) else None) of
                   Some i \<Rightarrow> Inr i
                 | None \<Rightarrow> Inl (unsupported_responses_tool ''Responses tool call does not match a declaration''))))"

definition resolve_chat_name :: "tool_context \<Rightarrow> string \<Rightarrow> identity option" where
  "resolve_chat_name c nm = map_of (x_by_chat c) nm"

definition is_custom :: "tool_context \<Rightarrow> string \<Rightarrow> bool" where
  "is_custom c nm = (map_of (x_kinds c) nm = Some ''custom'')"

text \<open>The kind, whether the name is exactly declared, and whether more of it may come.\<close>

definition classify_streamed_name :: "tool_context \<Rightarrow> string \<Rightarrow> string \<times> bool \<times> bool" where
  "classify_streamed_name c nm =
     (case map_of (x_kinds c) nm of
        Some kind \<Rightarrow> (kind, True, False)
      | None \<Rightarrow>
          if list_ex (\<lambda>(cand, _). has_prefix cand nm \<and> cand \<noteq> nm) (x_kinds c)
          then ([], False, True) else ([], False, False))"

section \<open>The transport of custom tools\<close>

definition wrap_custom_tool_input :: "string \<Rightarrow> string" where
  "wrap_custom_tool_input input = marshal (GStruct [(''input'', GStr input)])"

definition unwrap_custom_tool_input :: "string \<Rightarrow> string result" where
  "unwrap_custom_tool_input arguments =
     (case unmarshal (dec_struct [(''input'', dec_ptr [] dec_string)]) arguments None of
        (Some s, True) \<Rightarrow> Inr s
      | _ \<Rightarrow> Inl (translation ''custom tool arguments must be an object with string input''))"

section \<open>The invariant of the building loop\<close>

text \<open>
  \<open>built b ids\<close>: the four tables and the emitted tools of the builder are the views of one
  list of identities, in the order of declaration, with distinct Chat names and distinct keys.
\<close>

definition wf_identity :: "identity \<Rightarrow> bool" where
  "wf_identity i =
     (id_name i \<noteq> [] \<and> length (id_chat_name i) \<le> 64 \<and> id_kind i \<in> {''function'', ''custom''}
      \<and> id_chat_name i = (if id_namespace i = [] then id_name i else id_namespace i @ ''__'' @ id_name i))"

definition id_key :: "identity \<Rightarrow> string" where
  "id_key i = identity_key (id_namespace i) (id_name i)"

definition context_of :: "tool_context \<Rightarrow> identity list \<Rightarrow> bool" where
  "context_of c ids =
     (x_by_chat c = map (\<lambda>i. (id_chat_name i, i)) ids
      \<and> x_by_identity c = map (\<lambda>i. (id_key i, i)) ids
      \<and> x_kinds c = map (\<lambda>i. (id_chat_name i, id_kind i)) ids
      \<and> distinct (map id_chat_name ids) \<and> distinct (map id_key ids) \<and> (\<forall>i \<in> set ids. wf_identity i)
      \<and> (\<forall>nm. local_count c nm = length (filter (\<lambda>i. id_name i = nm) ids)))"

definition built :: "builder \<Rightarrow> identity list \<Rightarrow> bool" where
  "built b ids =
     (context_of (b_ctx b) ids \<and> map fst (b_seen b) = map id_key ids
      \<and> map (\<lambda>t. fn_name (cct_function t)) (b_out b) = map id_chat_name ids
      \<and> (\<forall>t \<in> set (b_out b). cct_type t = ''function''))"

lemma built_zero: "built builder_zero []"
  by (simp add: built_def context_of_def builder_zero_def empty_tool_context_def local_count_def)

lemma update_new: "k \<notin> fst ` set xs \<Longrightarrow> AList.update k v xs = xs @ [(k, v)]"
  by (induction xs) auto

lemma map_of_keyed: "map_of (map (\<lambda>i. (f i, g i)) ids) k = None \<longleftrightarrow> k \<notin> f ` set ids"
  by (induction ids) auto

lemma map_of_views:
  "distinct (map f ids) \<Longrightarrow> map_of (map (\<lambda>i. (f i, i)) ids) k = Some i \<longleftrightarrow> i \<in> set ids \<and> f i = k"
  by (induction ids) (auto simp: image_iff)

lemma map_of_kinds:
  "distinct (map f ids) \<Longrightarrow> i \<in> set ids \<Longrightarrow> map_of (map (\<lambda>i. (f i, g i)) ids) (f i) = Some (g i)"
  by (induction ids) (auto simp: image_iff)

lemma local_count_update: "local_count (c\<lparr>x_local_count := AList.update nm n (x_local_count c)\<rparr>) k =
    (if k = nm then n else local_count c k)"
  by (simp add: local_count_def update_conv)

lemma context_of_snoc:
  assumes c: "context_of c ids" and new: "wf_identity i" "id_key i \<notin> id_key ` set ids" "id_chat_name i \<notin> id_chat_name ` set ids"
  shows "context_of \<lparr>x_kinds = AList.update (id_chat_name i) (id_kind i) (x_kinds c),
      x_by_chat = AList.update (id_chat_name i) i (x_by_chat c),
      x_by_identity = AList.update (id_key i) i (x_by_identity c),
      x_local_count = AList.update (id_name i) (local_count c (id_name i) + 1) (x_local_count c)\<rparr> (ids @ [i])"
proof -
  have "AList.update (id_chat_name i) (id_kind i) (x_kinds c) = x_kinds c @ [(id_chat_name i, id_kind i)]"
    and "AList.update (id_chat_name i) i (x_by_chat c) = x_by_chat c @ [(id_chat_name i, i)]"
    and "AList.update (id_key i) i (x_by_identity c) = x_by_identity c @ [(id_key i, i)]"
    using c new by (auto intro!: update_new simp: context_of_def)
  moreover have "local_count \<lparr>x_kinds = K, x_by_chat = B, x_by_identity = I,
      x_local_count = AList.update nm n (x_local_count c)\<rparr> k = (if k = nm then n else local_count c k)" for K B I nm n k
    by (simp add: local_count_def update_conv)
  ultimately show ?thesis using c new by (auto simp: context_of_def)
qed

lemma tool_insert_built:
  assumes b: "built b ids" and add: "tool_insert i fn b = Inr b'" and wf: "wf_identity i" "fn_name fn = id_chat_name i"
  shows "built b' ids \<or> built b' (ids @ [i])"
proof (cases "map_of (b_seen b) (id_key i)")
  case (Some p)
  then have "b' = b" using add by (auto simp: tool_insert_def id_key_def Let_def split: if_splits)
  then show ?thesis using b by simp
next
  case None
  let ?c = "b_ctx b"
  have free: "\<not> (case map_of (x_by_chat ?c) (id_chat_name i) of None \<Rightarrow> False
           | Some e \<Rightarrow> id_namespace e \<noteq> id_namespace i \<or> id_name e \<noteq> id_name i)"
    and b': "b' = \<lparr>b_ctx = \<lparr>x_kinds = AList.update (id_chat_name i) (id_kind i) (x_kinds ?c),
         x_by_chat = AList.update (id_chat_name i) i (x_by_chat ?c),
         x_by_identity = AList.update (id_key i) i (x_by_identity ?c),
         x_local_count = AList.update (id_name i) (local_count ?c (id_name i) + 1) (x_local_count ?c)\<rparr>,
       b_seen = AList.update (id_key i) (marshal (gv_cc_function fn)) (b_seen b),
       b_out = b_out b @ [\<lparr>cct_type = ''function'', cct_function = fn\<rparr>]\<rparr>"
    using add None by (auto simp: tool_insert_def id_key_def Let_def split: if_splits)
  have c: "context_of ?c ids" using b by (simp add: built_def)
  have seen: "id_key i \<notin> fst ` set (b_seen b)" using None by (simp add: map_of_eq_None_iff)
  moreover have "fst ` set (b_seen b) = id_key ` set ids"
    using b by (metis built_def image_set)
  ultimately have key: "id_key i \<notin> id_key ` set ids" by simp
  have "id_chat_name i \<notin> id_chat_name ` set ids"
  proof
    assume "id_chat_name i \<in> id_chat_name ` set ids"
    then obtain e where e: "e \<in> set ids" "id_chat_name e = id_chat_name i" by auto
    then have "map_of (x_by_chat ?c) (id_chat_name i) = Some e" using c by (auto simp: context_of_def map_of_views)
    then have "id_key e = id_key i" using free by (simp add: id_key_def)
    then show False using key imageI [OF e(1), of id_key] by simp
  qed
  then have "context_of (b_ctx b') (ids @ [i])"
    using context_of_snoc [OF c wf(1) key] b' by simp
  moreover have "b_seen b' = b_seen b @ [(id_key i, marshal (gv_cc_function fn))]"
    using update_new [OF seen] b' by simp
  ultimately have "built b' (ids @ [i])" using b b' wf(2) by (auto simp: built_def)
  then show ?thesis by blast
qed

lemma tool_add_built:
  assumes "built b ids" "tool_add target strict tool namespace b = Inr b'"
  shows "\<exists>ids'. built b' ids'"
proof -
  define kind where "kind = trim_space (rt_type tool)"
  define nm where "nm = trim_space (rt_name tool)"
  define chat where "chat = (if namespace \<noteq> [] then namespace @ ''__'' @ nm else nm)"
  define fn where "fn = \<lparr>fn_name = chat, fn_description = rt_description tool,
     fn_parameters = Some (if kind = ''custom'' then custom_schema else object_schema (rt_parameters tool)),
     fn_strict = rt_strict tool\<rparr>"
  note add = assms(2) [unfolded tool_add_def Let_def, folded kind_def nm_def, folded chat_def, folded fn_def]
  show ?thesis
  proof (cases "kind \<in> {''function'', ''custom''}")
    case False
    then have "b' = b" using add by (simp split: if_splits)
    then show ?thesis using assms(1) by blast
  next
    case True
    then have "\<not> (kind \<noteq> ''function'' \<and> kind \<noteq> ''custom'')" by blast
    note add' = add [unfolded if_not_P [OF this]]
    have nm: "nm \<noteq> []" using add' by (rule contrapos_pn) simp
    note add'' = add' [unfolded if_not_P [OF nm]]
    have len: "\<not> 64 < length chat" using add'' by (rule contrapos_pn) simp
    have "tool_insert \<lparr>id_kind = kind, id_name = nm, id_namespace = namespace, id_chat_name = chat\<rparr> fn b = Inr b'"
      using add'' [unfolded if_not_P [OF len]] by (simp split: if_splits)
    moreover have "wf_identity \<lparr>id_kind = kind, id_name = nm, id_namespace = namespace, id_chat_name = chat\<rparr>"
      using True nm len by (simp add: wf_identity_def chat_def)
    ultimately show ?thesis using tool_insert_built [OF assms(1)] by (fastforce simp: fn_def)
  qed
qed

lemma add_children_built: "built b ids \<Longrightarrow> \<exists>ids'. built (fst (add_children target strict ns cs b)) ids'"
proof (induction cs arbitrary: b ids)
  case (Cons c cs)
  then show ?case
    by (cases "tool_add target strict c ns b") (auto dest: tool_add_built)
qed auto

lemma add_declarations_built: "built b ids \<Longrightarrow> \<exists>ids'. built (fst (add_declarations target strict ts b)) ids'"
proof (induction ts arbitrary: b ids)
  case (Cons t ts)
  obtain ids1 where "built (fst (add_children target strict (trim_space (rt_name t)) (rt_tools t) b)) ids1"
    using add_children_built [OF Cons.prems] by blast
  then show ?case using Cons
    by (cases "tool_add target strict t [] b")
      (auto simp: Let_def split: prod.splits option.splits dest: tool_add_built)
qed auto

lemma build_context:
  "\<exists>b ids. built b ids \<and> fst (build_responses_tool_context diag req target strict) = b_ctx b
     \<and> fst (snd (build_responses_tool_context diag req target strict)) \<in> {[], b_out b}"
proof -
  have z: "b_ctx builder_zero = empty_tool_context" "b_out builder_zero = []" by (simp_all add: builder_zero_def)
  show ?thesis
  proof (cases "\<exists>r items. req = Some r \<and> decode_input_items diag r = Inr items")
    case True
    then obtain r items where r: "req = Some r" "decode_input_items diag r = Inr items" by blast
    let ?ds = "rq_tools r @ concat (map ri_tools (filter (\<lambda>i. ri_type i = ''additional_tools'') items))"
    obtain b e where be: "add_declarations target strict ?ds builder_zero = (b, e)" by (cases "add_declarations target strict ?ds builder_zero")
    then obtain ids where "built b ids" using add_declarations_built [OF built_zero, of target strict ?ds] by auto
    then show ?thesis using r be by (intro exI [of _ b] exI [of _ ids]) (simp add: build_responses_tool_context_def Let_def)
  next
    case False
    then have "build_responses_tool_context diag req target strict
        = (empty_tool_context, [], snd (snd (build_responses_tool_context diag req target strict)))"
      by (auto simp: build_responses_tool_context_def split: option.splits sum.splits)
    then show ?thesis using built_zero z by (metis fst_conv insertI1 snd_conv)
  qed
qed

lemma built_context: "built b ids \<Longrightarrow> context_of (b_ctx b) ids"
  by (simp add: built_def)

lemma context_lookups:
  assumes "context_of c ids"
  shows "resolve_chat_name c ch = Some i \<longleftrightarrow> i \<in> set ids \<and> id_chat_name i = ch"
    and "map_of (x_by_identity c) k = Some i \<longleftrightarrow> i \<in> set ids \<and> id_key i = k"
    and "i \<in> set ids \<Longrightarrow> map_of (x_kinds c) (id_chat_name i) = Some (id_kind i)"
    and "local_count c nm = length (filter (\<lambda>i. id_name i = nm) ids)"
  using assms by (auto simp: context_of_def resolve_chat_name_def map_of_views map_of_kinds)

lemma resolve_call_member:
  assumes c: "context_of c ids" and r: "resolve_call c ns nm = Inr i"
  shows "i \<in> set ids"
proof (cases "map_of (x_by_identity c) (identity_key ns nm)")
  case None
  then have "List.find (\<lambda>i. id_name i = nm) (map snd (x_by_identity c)) = Some i"
    using r by (auto simp: resolve_call_def split: if_splits option.splits)
  then have "i \<in> set (map snd (x_by_identity c))" using find_SomeD by fast
  then show ?thesis using c by (auto simp: context_of_def)
next
  case (Some j)
  then have "i = j" using r by (simp add: resolve_call_def split: if_splits)
  then show ?thesis using Some context_lookups(2) [OF c] by blast
qed

section \<open>Properties\<close>

text \<open>
  C34. Provenance is lossless: in the context built from any request, in either mode and even
  after an error, a call that resolves has a Chat name that resolves back to the very same
  declaration, and that name is the flattening of its namespace and name, at most 64 bytes long.
\<close>

theorem resolved_call_resolves_back:
  assumes "c = fst (build_responses_tool_context diag req target strict)"
    and "resolve_call c namespace nm = Inr i"
  shows "resolve_chat_name c (id_chat_name i) = Some i \<and> length (id_chat_name i) \<le> 64
    \<and> id_chat_name i = (if id_namespace i = [] then id_name i else id_namespace i @ ''__'' @ id_name i)
    \<and> is_custom c (id_chat_name i) = (id_kind i = ''custom'')"
proof -
  obtain b ids where b: "context_of c ids" using build_context built_context assms(1) by metis
  have i: "i \<in> set ids" using resolve_call_member [OF b assms(2)] .
  then have "wf_identity i" using b by (simp add: context_of_def)
  moreover have "resolve_chat_name c (id_chat_name i) = Some i" using context_lookups(1) [OF b] i by blast
  moreover have "is_custom c (id_chat_name i) = (id_kind i = ''custom'')"
    unfolding is_custom_def context_lookups(3) [OF b i] by simp
  ultimately show ?thesis unfolding wf_identity_def by blast
qed

definition sample_tools :: "tool_decl list" where
  "sample_tools = [RespTool ''function'' ''f'' [] None None [] None []]"

definition sample_request :: responses_request where
  "sample_request = responses_request_zero\<lparr>rq_tools := sample_tools\<rparr>"

definition sample_identity :: identity where
  "sample_identity = \<lparr>id_kind = ''function'', id_name = ''f'', id_namespace = [], id_chat_name = ''f''\<rparr>"

definition sample_context :: tool_context where
  "sample_context = \<lparr>x_kinds = [(''f'', ''function'')], x_by_chat = [(''f'', sample_identity)],
     x_by_identity = [([CHR 0x00, CHR ''f''], sample_identity)], x_local_count = [(''f'', 1)]\<rparr>"

lemma sample_trim: "trim_space ''f'' = ''f''" "trim_space ''function'' = ''function''"
  by (simp_all add: trim_space_tight ascii_space_def byte_def)

lemma sample_built: "fst (build_responses_tool_context [] (Some sample_request) [] True) = sample_context"
  by (simp add: build_responses_tool_context_def sample_request_def responses_request_zero_def sample_tools_def
    decode_input_items_def has_content_def tool_add_def tool_insert_def builder_zero_def empty_tool_context_def
    sample_context_def sample_identity_def sample_trim identity_key_def local_count_def Let_def)

lemma resolved_call_resolves_back_witness:
  "resolve_call sample_context [] ''f'' = Inr sample_identity
   \<and> resolve_chat_name sample_context (id_chat_name sample_identity) = Some sample_identity"
proof
  show r: "resolve_call sample_context [] ''f'' = Inr sample_identity"
    by (simp add: resolve_call_def sample_context_def local_count_def identity_key_def)
  show "resolve_chat_name sample_context (id_chat_name sample_identity) = Some sample_identity"
    using resolved_call_resolves_back [OF sample_built [symmetric] r] by blast
qed

text \<open>
  The tools sent upstream carry pairwise distinct function names, and each name resolves to
  the declaration it was made from, so every upstream tool call can be given back its identity.
\<close>

theorem emitted_tools_resolve:
  "let (c, tools, e) = build_responses_tool_context diag req target strict;
       names = map (\<lambda>t. fn_name (cct_function t)) tools
   in distinct names \<and> list_all (\<lambda>ch. \<exists>i. resolve_chat_name c ch = Some i \<and> id_chat_name i = ch) names"
proof -
  obtain b ids where b: "built b ids" "fst (build_responses_tool_context diag req target strict) = b_ctx b"
      "fst (snd (build_responses_tool_context diag req target strict)) \<in> {[], b_out b}"
    using build_context [of diag req target strict] by blast
  have "map (\<lambda>t. fn_name (cct_function t)) (b_out b) = map id_chat_name ids" "distinct (map id_chat_name ids)"
    using b(1) by (auto simp: built_def context_of_def)
  moreover have "list_all (\<lambda>ch. \<exists>i. resolve_chat_name (b_ctx b) ch = Some i \<and> id_chat_name i = ch) (map id_chat_name ids)"
    using context_lookups(1) [OF built_context [OF b(1)]] by (auto simp: list_all_iff)
  ultimately show ?thesis using b(2,3) by (auto simp: Let_def split: prod.splits)
qed

text \<open>
  A streamed function name is decided at the right moment: a declared name is exact, and
  every proper prefix of a declared name is either itself a declared name or told to wait, so
  a name that arrives in pieces is never taken for an unknown function before it is complete.
\<close>

theorem streamed_name_waits:
  assumes "map_of (x_kinds c) nm = Some kind" "nm = part @ rest"
  shows "classify_streamed_name c nm = (kind, True, False)
    \<and> (fst (snd (classify_streamed_name c part)) \<or> snd (snd (classify_streamed_name c part)))"
proof (cases "map_of (x_kinds c) part")
  case None
  then have "part \<noteq> nm" using assms(1) by auto
  moreover have "(nm, kind) \<in> set (x_kinds c)" using assms(1) by (rule map_of_SomeD)
  ultimately have "list_ex (\<lambda>(cand, _). has_prefix cand part \<and> cand \<noteq> part) (x_kinds c)"
    using assms(2) by (force simp: list_ex_iff has_prefix_iff prefix_def)
  then show ?thesis using None assms(1) by (simp add: classify_streamed_name_def)
qed (simp add: assms(1) classify_streamed_name_def)

lemma streamed_name_waits_witness:
  "classify_streamed_name sample_context ''f'' = (''function'', True, False)
   \<and> (fst (snd (classify_streamed_name sample_context [])) \<or> snd (snd (classify_streamed_name sample_context [])))"
  by (rule streamed_name_waits [of sample_context "''f''" "''function''" "[]" "''f''"])
    (simp_all add: sample_context_def)

text \<open>
  The transport of a custom tool's freeform input through the function-call wrapper gives the
  input back, with invalid UTF-8 replaced as the JSON encoder does; valid text is unchanged.
\<close>

theorem custom_input_round_trip:
  "unwrap_custom_tool_input (wrap_custom_tool_input s) = Inr (to_valid s)"
proof -
  have q: "to_valid ''input'' = ''input''"
    by (simp add: to_valid.simps(2) byte_def)
  have "depth (encode (GStruct [(''input'', GStr s)])) \<le> max_nesting" by (simp add: max_nesting_def)
  then have "unmarshal (dec_struct [(''input'', dec_ptr [] dec_string)]) (wrap_custom_tool_input s) None
      = dec_struct [(''input'', dec_ptr [] dec_string)] (encode (GStruct [(''input'', GStr s)])) None"
    unfolding wrap_custom_tool_input_def by (intro unmarshal_marshal) simp
  then show ?thesis
    by (simp add: unwrap_custom_tool_input_def q find_field_def dec_ptr_def unquote_quote_body)
qed

end
