(* ===== verification/Emitters.thy ===== *)
theory Emitters
  imports Framer Tool_Context
begin

text \<open>
  The event emitters of \<open>internal/adapter/shared/shared.go\<close>. A converter produces
  structured events; the functions here render them as the code does, through
  \<open>json.Marshal\<close> of maps (keys sorted) and structs. The clock is a parameter: the
  Responses events that carry a creation time read it when they are rendered.
\<close>

section \<open>Anthropic Messages events\<close>

datatype claude_blk = BText | BThinking | BTool (bt_id: string) (bt_name: string)

datatype claude_delta = DText string | DThinking string | DJson string

datatype claude_ev =
    CMessageStart string string int
  | CBlockStart int claude_blk
  | CBlockDelta int claude_delta
  | CBlockStop int
  | CMessageDelta "string option" "gv option"
  | CMessageStop

text \<open>\<open>ContentBlockStart\<close> with the extra members its callers pass, and the deltas they render.\<close>

fun gv_blk :: "claude_blk \<Rightarrow> gv" where
  "gv_blk BText = GMap [(''type'', GStr ''text''), (''text'', GStr [])]"
| "gv_blk BThinking = GMap [(''type'', GStr ''thinking''), (''thinking'', GStr [])]"
| "gv_blk (BTool i n) =
     GMap [(''type'', GStr ''tool_use''), (''id'', GStr i), (''name'', GStr n), (''input'', GMap [])]"

fun gv_delta :: "claude_delta \<Rightarrow> gv" where
  "gv_delta (DText t) = GMap [(''type'', GStr ''text_delta''), (''text'', GStr t)]"
| "gv_delta (DThinking t) = GMap [(''type'', GStr ''thinking_delta''), (''thinking'', GStr t)]"
| "gv_delta (DJson t) = GMap [(''type'', GStr ''input_json_delta''), (''partial_json'', GStr t)]"

fun claude_payload :: "claude_ev \<Rightarrow> string \<times> gv" where
  "claude_payload (CMessageStart i m n) =
     (''message_start'', GMap [(''type'', GStr ''message_start''),
       (''message'', GMap [(''id'', GStr i), (''type'', GStr ''message''), (''role'', GStr ''assistant''),
          (''model'', GStr m), (''content'', GArr []),
          (''usage'', GMap [(''input_tokens'', GInt n), (''output_tokens'', GInt 0)])])])"
| "claude_payload (CBlockStart k b) =
     (''content_block_start'', GMap [(''type'', GStr ''content_block_start''), (''index'', GInt k),
       (''content_block'', gv_blk b)])"
| "claude_payload (CBlockDelta k d) =
     (''content_block_delta'', GMap [(''type'', GStr ''content_block_delta''), (''index'', GInt k),
       (''delta'', gv_delta d)])"
| "claude_payload (CBlockStop k) =
     (''content_block_stop'', GMap [(''type'', GStr ''content_block_stop''), (''index'', GInt k)])"
| "claude_payload (CMessageDelta r u) =
     (''message_delta'', GMap ([(''type'', GStr ''message_delta''),
       (''delta'', GMap (case r of None \<Rightarrow> [] | Some s \<Rightarrow> [(''stop_reason'', GStr s)]))]
       @ (case u of None \<Rightarrow> [] | Some g \<Rightarrow> [(''usage'', g)])))"
| "claude_payload CMessageStop = (''message_stop'', GMap [(''type'', GStr ''message_stop'')])"

definition render_claude :: "claude_ev \<Rightarrow> string" where
  "render_claude e = (case claude_payload e of (n, v) \<Rightarrow> sse_event n v)"

section \<open>Chat Completions chunks\<close>

datatype chat_delta =
    ChatRole
  | ChatContent string
  | ChatToolOpen int string string string
  | ChatToolArgs int string
  | ChatEmpty

datatype chat_ev = ChatChunk chat_delta "string option" "gv option"

fun gv_chat_delta :: "chat_delta \<Rightarrow> gv" where
  "gv_chat_delta ChatRole = GMap [(''role'', GStr ''assistant''), (''content'', GStr [])]"
| "gv_chat_delta (ChatContent t) = GMap [(''content'', GStr t)]"
| "gv_chat_delta (ChatToolOpen k i n a) = GMap [(''tool_calls'', GArr [cc_tool_call_opening_entry k i n a])]"
| "gv_chat_delta (ChatToolArgs k a) =
     GMap [(''tool_calls'', GArr [GMap [(''index'', GInt k), (''function'', GMap [(''arguments'', GStr a)])]])]"
| "gv_chat_delta ChatEmpty = GMap []"

record chat_builder =
  cb_chat_id :: string
  cb_model :: string
  cb_created :: int

text \<open>\<open>frame\<close>: a zero creation time stands for the clock at rendering.\<close>

fun render_chat :: "int \<Rightarrow> chat_builder \<Rightarrow> chat_ev \<Rightarrow> string" where
  "render_chat now b (ChatChunk d fin usage) =
     marshal (GMap ([(''id'', GStr (cb_chat_id b)), (''object'', GStr ''chat.completion.chunk''),
       (''created'', GInt (if cb_created b = 0 then now else cb_created b)), (''model'', GStr (cb_model b)),
       (''choices'', GArr [GMap [(''index'', GInt 0), (''delta'', gv_chat_delta d),
          (''finish_reason'', case fin of None \<Rightarrow> GNull | Some f \<Rightarrow> GStr f)]])]
       @ (case usage of None \<Rightarrow> [] | Some u \<Rightarrow> [(''usage'', u)])))"

text \<open>\<open>RoleChunk\<close>, \<open>Delta\<close> and \<open>Finish\<close> (an empty finish is rendered as null).\<close>

definition role_chunk :: chat_ev where
  "role_chunk = ChatChunk ChatRole None None"

definition delta_chunk :: "chat_delta \<Rightarrow> chat_ev" where
  "delta_chunk d = ChatChunk d None None"

definition finish_chunk :: "string \<Rightarrow> gv option \<Rightarrow> chat_ev" where
  "finish_chunk fin usage = ChatChunk ChatEmpty (if fin = [] then None else Some fin) usage"

section \<open>Responses output items\<close>

text \<open>
  The items the emitters and converters render: maps for the announcements (\<open>Open\<close>), the
  map of \<open>TextDone\<close>, and the \<open>RespItem\<close> and \<open>RespReasoningItem\<close> structs.
\<close>

datatype out_item =
    MsgOpen string
  | MsgOpenProgress string
  | MsgDone string string string
  | MsgItem string string string
  | MsgPlain string string string
  | ReasonOpen string
  | ReasonItem string string
  | CallOpen string string string
  | CallItem string string string string string
  | CustomOpen string string string
  | CustomItem string string string string

definition str_field :: "string \<Rightarrow> string \<Rightarrow> (string \<times> gv) list" where
  "str_field k v = (if v = [] then [] else [(k, GStr v)])"

definition output_text_map :: "string \<Rightarrow> gv" where
  "output_text_map t = GMap [(''type'', GStr ''output_text''), (''annotations'', GArr []),
     (''logprobs'', GArr []), (''text'', GStr t)]"

text \<open>The members of \<open>RespItem\<close> in their order, empty ones omitted.\<close>

definition gv_resp_item ::
    "string \<Rightarrow> string \<Rightarrow> string \<Rightarrow> json option \<Rightarrow> string \<Rightarrow> string \<Rightarrow> string \<Rightarrow> string \<Rightarrow> string \<Rightarrow> string \<Rightarrow> gv" where
  "gv_resp_item ty i role content call nm args input ns status =
     GStruct ([(''type'', GStr ty)] @ str_field ''id'' i @ str_field ''role'' role
       @ (case content of None \<Rightarrow> [] | Some j \<Rightarrow> [(''content'', GRaw j)])
       @ str_field ''call_id'' call @ str_field ''name'' nm @ str_field ''arguments'' args
       @ str_field ''input'' input @ str_field ''namespace'' ns @ str_field ''status'' status)"

fun gv_item :: "out_item \<Rightarrow> gv" where
  "gv_item (MsgOpen i) =
     GMap [(''type'', GStr ''message''), (''id'', GStr i), (''role'', GStr ''assistant''), (''content'', GArr [])]"
| "gv_item (MsgOpenProgress i) =
     GMap [(''type'', GStr ''message''), (''role'', GStr ''assistant''), (''id'', GStr i),
       (''status'', GStr ''in_progress''), (''content'', GArr [])]"
| "gv_item (MsgDone i st t) =
     GMap [(''id'', GStr i), (''type'', GStr ''message''), (''status'', GStr st), (''role'', GStr ''assistant''),
       (''content'', GArr [output_text_map t])]"
| "gv_item (MsgItem i st t) =
     gv_resp_item ''message'' i ''assistant'' (Some (encode (GArr [output_text_map t]))) [] [] [] [] [] st"
| "gv_item (MsgPlain i st t) =
     gv_resp_item ''message'' i ''assistant''
       (Some (encode (GArr [GStruct [(''type'', GStr ''output_text''), (''text'', GStr t)]]))) [] [] [] [] [] st"
| "gv_item (ReasonOpen i) =
     GMap [(''id'', GStr i), (''type'', GStr ''reasoning''), (''status'', GStr ''in_progress''), (''summary'', GArr [])]"
| "gv_item (ReasonItem i t) =
     GStruct [(''id'', GStr i), (''type'', GStr ''reasoning''), (''encrypted_content'', GStr []),
       (''summary'', GArr [GStruct [(''type'', GStr ''summary_text''), (''text'', GStr t)]])]"
| "gv_item (CallOpen i n ns) =
     GMap ([(''type'', GStr ''function_call''), (''call_id'', GStr i), (''name'', GStr n), (''arguments'', GStr [])]
       @ str_field ''namespace'' ns)"
| "gv_item (CallItem i n ns args st) = gv_resp_item ''function_call'' [] [] None i n args [] ns st"
| "gv_item (CustomOpen i n ns) =
     GMap ([(''type'', GStr ''custom_tool_call''), (''call_id'', GStr i), (''name'', GStr n), (''input'', GStr []),
       (''status'', GStr ''in_progress'')] @ str_field ''namespace'' ns)"
| "gv_item (CustomItem i n ns input) =
     gv_resp_item ''custom_tool_call'' [] [] None i n [] input ns ''completed''"

section \<open>Responses events\<close>

datatype resp_body =
    RCreated string string
  | RInProgress string string
  | RItemAdded int out_item
  | RTextPartAdded string int
  | RTextDelta string int string
  | RTextDone string int string
  | RPartDone string int string
  | RItemDone int out_item
  | RCustomInputDone string int string
  | RArgsDelta string int string
  | RArgsDone string int string
  | RReasonPartAdded string int
  | RReasonDelta string int string
  | RReasonTextDone string int string
  | RReasonPartDone string int string
  | RCompleted string string string responses_usage "out_item list"

text \<open>The event name is also its type member.\<close>

fun resp_name :: "resp_body \<Rightarrow> string" where
  "resp_name (RCreated _ _) = ''response.created''"
| "resp_name (RInProgress _ _) = ''response.in_progress''"
| "resp_name (RItemAdded _ _) = ''response.output_item.added''"
| "resp_name (RTextPartAdded _ _) = ''response.content_part.added''"
| "resp_name (RTextDelta _ _ _) = ''response.output_text.delta''"
| "resp_name (RTextDone _ _ _) = ''response.output_text.done''"
| "resp_name (RPartDone _ _ _) = ''response.content_part.done''"
| "resp_name (RItemDone _ _) = ''response.output_item.done''"
| "resp_name (RCustomInputDone _ _ _) = ''response.custom_tool_call_input.done''"
| "resp_name (RArgsDelta _ _ _) = ''response.function_call_arguments.delta''"
| "resp_name (RArgsDone _ _ _) = ''response.function_call_arguments.done''"
| "resp_name (RReasonPartAdded _ _) = ''response.reasoning_summary_part.added''"
| "resp_name (RReasonDelta _ _ _) = ''response.reasoning_summary_text.delta''"
| "resp_name (RReasonTextDone _ _ _) = ''response.reasoning_summary_text.done''"
| "resp_name (RReasonPartDone _ _ _) = ''response.reasoning_summary_part.done''"
| "resp_name (RCompleted _ _ _ _ _) = ''response.completed''"

definition at_item :: "string \<Rightarrow> int \<Rightarrow> (string \<times> gv) list" where
  "at_item i k = [(''item_id'', GStr i), (''output_index'', GInt k)]"

definition summary_part :: "string \<Rightarrow> gv" where
  "summary_part t = GStruct [(''type'', GStr ''summary_text''), (''text'', GStr t)]"

fun resp_fields :: "int \<Rightarrow> resp_body \<Rightarrow> (string \<times> gv) list" where
  "resp_fields now (RCreated i m) =
     [(''response'', GMap [(''id'', GStr i), (''object'', GStr ''response''), (''created_at'', GInt now),
        (''status'', GStr ''in_progress''), (''background'', GBool False), (''error'', GNull), (''output'', GArr []),
        (''model'', GStr m)])]"
| "resp_fields now (RInProgress i m) =
     [(''response'', GMap [(''id'', GStr i), (''object'', GStr ''response''), (''created_at'', GInt now),
        (''status'', GStr ''in_progress''), (''output'', GArr []), (''model'', GStr m)])]"
| "resp_fields now (RItemAdded k item) = [(''output_index'', GInt k), (''item'', gv_item item)]"
| "resp_fields now (RTextPartAdded i k) =
     at_item i k @ [(''content_index'', GInt 0), (''part'', output_text_map [])]"
| "resp_fields now (RTextDelta i k d) =
     at_item i k @ [(''content_index'', GInt 0), (''delta'', GStr d), (''logprobs'', GArr [])]"
| "resp_fields now (RTextDone i k t) =
     at_item i k @ [(''content_index'', GInt 0), (''text'', GStr t), (''logprobs'', GArr [])]"
| "resp_fields now (RPartDone i k t) =
     at_item i k @ [(''content_index'', GInt 0), (''part'', output_text_map t)]"
| "resp_fields now (RItemDone k item) = [(''output_index'', GInt k), (''item'', gv_item item)]"
| "resp_fields now (RCustomInputDone i k input) = at_item i k @ [(''input'', GStr input)]"
| "resp_fields now (RArgsDelta i k d) = at_item i k @ [(''delta'', GStr d)]"
| "resp_fields now (RArgsDone i k a) = at_item i k @ [(''arguments'', GStr a)]"
| "resp_fields now (RReasonPartAdded i k) =
     at_item i k @ [(''summary_index'', GInt 0), (''part'', summary_part [])]"
| "resp_fields now (RReasonDelta i k d) = at_item i k @ [(''summary_index'', GInt 0), (''delta'', GStr d)]"
| "resp_fields now (RReasonTextDone i k t) = at_item i k @ [(''summary_index'', GInt 0), (''text'', GStr t)]"
| "resp_fields now (RReasonPartDone i k t) =
     at_item i k @ [(''summary_index'', GInt 0), (''part'', summary_part t)]"
| "resp_fields now (RCompleted i m status usage output) =
     [(''response'', GMap [(''id'', GStr i), (''object'', GStr ''response''), (''model'', GStr m),
        (''status'', GStr status), (''background'', GBool False), (''error'', GNull),
        (''usage'', gv_responses_usage usage), (''output'', GArr (map gv_item output))])]"

text \<open>\<open>event\<close>: the sequence number is there when the emitter has a counter.\<close>

type_synonym resp_ev = "int option \<times> resp_body"

definition render_resp :: "int \<Rightarrow> resp_ev \<Rightarrow> string" where
  "render_resp now e =
     (case e of (n, b) \<Rightarrow>
        sse_event (resp_name b) (GMap ((''type'', GStr (resp_name b)) # resp_fields now b
          @ opt_field ''sequence_number'' n)))"

section \<open>The output assembler\<close>

record assembler =
  oa_message_id :: string
  oa_items :: "out_item option list"
  oa_slot :: "nat option"
  oa_text :: string
  oa_status :: string

definition new_assembler :: "string \<Rightarrow> assembler" where
  "new_assembler i = \<lparr>oa_message_id = i, oa_items = [], oa_slot = None, oa_text = [], oa_status = []\<rparr>"

definition reserve_text_slot :: "assembler \<Rightarrow> assembler" where
  "reserve_text_slot a =
     (if oa_slot a \<noteq> None then a
      else a\<lparr>oa_slot := Some (length (oa_items a)), oa_items := oa_items a @ [None]\<rparr>)"

definition add_text :: "string \<Rightarrow> assembler \<Rightarrow> assembler" where
  "add_text t a = a\<lparr>oa_text := oa_text a @ t\<rparr>"

definition append_item :: "out_item \<Rightarrow> assembler \<Rightarrow> assembler" where
  "append_item i a = a\<lparr>oa_items := oa_items a @ [Some i]\<rparr>"

definition append_function_call :: "string \<Rightarrow> string \<Rightarrow> string \<Rightarrow> string \<Rightarrow> assembler \<Rightarrow> assembler" where
  "append_function_call call nm ns args = append_item (CallItem call nm ns args [])"

definition append_custom_tool_call :: "string \<Rightarrow> string \<Rightarrow> string \<Rightarrow> string \<Rightarrow> assembler \<Rightarrow> assembler" where
  "append_custom_tool_call call nm ns input = append_item (CustomItem call nm ns input)"

definition append_reasoning :: "string \<Rightarrow> string \<Rightarrow> assembler \<Rightarrow> assembler" where
  "append_reasoning i t = append_item (ReasonItem i t)"

definition assembled :: "assembler \<Rightarrow> out_item option list" where
  "assembled a =
     (let msg = Some (MsgPlain (oa_message_id a) (oa_status a) (oa_text a)) in
      case oa_slot a of
        Some k \<Rightarrow> (oa_items a)[k := msg]
      | None \<Rightarrow> if oa_text a \<noteq> [] then msg # oa_items a else oa_items a)"

end
