(* ===== verification/Numbers.thy ===== *)
theory Numbers
  imports Complex_Main Codec
begin

text \<open>
  JSON numbers read as \<open>float64\<close> and converted to integers, and \<open>strconv.Atoi\<close>. A
  number is its exact rational value: the rounding of \<open>float64\<close> and the conversion of
  values outside \<open>int64\<close> are not modelled.
\<close>

text \<open>Split a literal at its fraction and exponent.\<close>

definition upto_char :: "(char \<Rightarrow> bool) \<Rightarrow> string \<Rightarrow> string \<times> string" where
  "upto_char P s = (takeWhile (\<lambda>c. \<not> P c) s, drop 1 (dropWhile (\<lambda>c. \<not> P c) s))"

definition sign_split :: "string \<Rightarrow> bool \<times> string" where
  "sign_split s = (case s of [] \<Rightarrow> (False, [])
     | c # cs \<Rightarrow> if c = CHR ''-'' then (True, cs) else if c = CHR ''+'' then (False, cs) else (False, s))"

definition lit_value :: "string \<Rightarrow> rat" where
  "lit_value lit =
     (let (neg, body) = sign_split lit;
          (mant, expo) = upto_char is_exp body;
          (whole, frac) = upto_char (\<lambda>c. c = CHR ''.'') mant;
          (eneg, edigits) = sign_split expo;
          m = of_nat (digits_val (whole @ frac)) / 10 ^ length frac;
          e = digits_val edigits;
          v = (if eneg then m / 10 ^ e else m * 10 ^ e)
      in if neg then - v else v)"

text \<open>\<open>int64(f)\<close>: truncation toward zero.\<close>

definition trunc :: "rat \<Rightarrow> int" where
  "trunc q = (if q < 0 then - \<lfloor>- q\<rfloor> else \<lfloor>q\<rfloor>)"

fun dec_float :: "rat dec" where
  "dec_float JNull a = (a, True)"
| "dec_float (JNum s) a = (lit_value s, True)"
| "dec_float _ a = (a, False)"

text \<open>\<open>strconv.Atoi\<close>; \<open>None\<close> is an error.\<close>

definition atoi :: "string \<Rightarrow> int option" where
  "atoi s =
     (let (neg, body) = sign_split s; n = int (digits_val body); v = (if neg then - n else n)
      in if body \<noteq> [] \<and> list_all is_digit body \<and> int64 v then Some v else None)"

end
