(* ===== verification/Chat_Common.thy ===== *)
theory Chat_Common
  imports Emitters Numbers
begin

text \<open>
  \<open>internal/adapter/chatcompletions/stream.go\<close>, the part its three targets share: the
  converter's state, the upstream chunk and its decoding, the validation of accumulated tool
  calls, and the passthrough target.

  \<open>c_out\<close> is the local variable \<open>events\<close> of the handler that runs; \<open>c_tools\<close>
  is the map \<open>tools\<close> in the order of \<open>toolOrder\<close> (the code appends to both together).
\<close>

section \<open>Events of every target\<close>

datatype event =
    EvRaw string
  | EvClaude claude_ev
  | EvResp resp_ev
  | EvChat chat_builder chat_ev

fun render :: "int \<Rightarrow> event \<Rightarrow> string" where
  "render now (EvRaw s) = s"
| "render now (EvClaude e) = render_claude e"
| "render now (EvResp e) = render_resp now e"
| "render now (EvChat b e) = render_chat now b e"

section \<open>Upstream chunks\<close>

record cc_usage =
  cu_prompt :: int
  cu_completion :: int
  cu_prompt_details :: "int option option"
  cu_completion_details :: "int option option"

record tool_delta =
  td_index :: int
  td_id :: string
  td_name :: string
  td_args :: string

record cc_choice =
  cx_content :: string
  cx_tools :: "tool_delta list"
  cx_reasoning :: reasoning_fields
  cx_finish :: string

record chunk_err =
  er_message :: string
  er_type :: string
  er_code :: raw

record cc_chunk =
  ch_id :: string
  ch_model :: string
  ch_choices :: "cc_choice list"
  ch_usage :: "cc_usage option"
  ch_error :: "chunk_err option"

definition cc_usage_zero :: cc_usage where
  "cc_usage_zero = \<lparr>cu_prompt = 0, cu_completion = 0, cu_prompt_details = None, cu_completion_details = None\<rparr>"

definition dec_cc_usage :: "cc_usage dec" where
  "dec_cc_usage = dec_struct
     [(''prompt_tokens'', field cu_prompt cu_prompt_update dec_int64),
      (''completion_tokens'', field cu_completion cu_completion_update dec_int64),
      (''prompt_tokens_details'', field cu_prompt_details cu_prompt_details_update
         (dec_ptr None (dec_struct [(''cached_tokens'', dec_ptr 0 dec_int64)]))),
      (''completion_tokens_details'', field cu_completion_details cu_completion_details_update
         (dec_ptr None (dec_struct [(''reasoning_tokens'', dec_ptr 0 dec_int64)])))]"

definition tool_delta_zero :: tool_delta where
  "tool_delta_zero = \<lparr>td_index = 0, td_id = [], td_name = [], td_args = []\<rparr>"

definition dec_tool_delta :: "tool_delta dec" where
  "dec_tool_delta = dec_struct
     [(''index'', field td_index td_index_update dec_int64), (''id'', field td_id td_id_update dec_string),
      (''function'', dec_struct
         [(''name'', field td_name td_name_update dec_string),
          (''arguments'', field td_args td_args_update dec_string)])]"

definition reasoning_zero :: reasoning_fields where
  "reasoning_zero = \<lparr>r_reasoning = [], r_content = [], r_details = []\<rparr>"

definition cc_choice_zero :: cc_choice where
  "cc_choice_zero = \<lparr>cx_content = [], cx_tools = [], cx_reasoning = reasoning_zero, cx_finish = []\<rparr>"


definition dec_cc_choice :: "cc_choice dec" where
  "dec_cc_choice = dec_struct
     [(''delta'', dec_struct
         [(''content'', field cx_content cx_content_update dec_string),
          (''tool_calls'', field cx_tools cx_tools_update (dec_list tool_delta_zero dec_tool_delta)),
          (''reasoning'', field cx_reasoning cx_reasoning_update (field r_reasoning r_reasoning_update dec_string)),
          (''reasoning_content'', field cx_reasoning cx_reasoning_update (field r_content r_content_update dec_string)),
          (''reasoning_details'', field cx_reasoning cx_reasoning_update
             (field r_details r_details_update (dec_list [] dec_detail)))]),
      (''finish_reason'', field cx_finish cx_finish_update dec_string)]"

definition dec_chunk_error :: "chunk_err dec" where
  "dec_chunk_error = dec_struct
     [(''message'', field er_message er_message_update dec_string),
      (''type'', field er_type er_type_update dec_string), (''code'', field er_code er_code_update dec_raw)]"

definition cc_chunk_zero :: cc_chunk where
  "cc_chunk_zero = \<lparr>ch_id = [], ch_model = [], ch_choices = [], ch_usage = None, ch_error = None\<rparr>"

definition dec_cc_chunk :: "cc_chunk dec" where
  "dec_cc_chunk = dec_struct
     [(''id'', field ch_id ch_id_update dec_string), (''model'', field ch_model ch_model_update dec_string),
      (''choices'', field ch_choices ch_choices_update (dec_list cc_choice_zero dec_cc_choice)),
      (''usage'', field ch_usage ch_usage_update (dec_ptr cc_usage_zero dec_cc_usage)),
      (''error'', field ch_error ch_error_update
         (dec_ptr \<lparr>er_message = [], er_type = [], er_code = None\<rparr> dec_chunk_error))]"

text \<open>\<open>chunkError\<close>: a numeric code, a code in a string, or a rate-limit marker give a status.\<close>

definition chunk_status :: "chunk_err \<Rightarrow> int" where
  "chunk_status e =
     (let st = (case er_code e of
          Some (JNum s) \<Rightarrow> trunc (lit_value s)
        | Some (JStr s) \<Rightarrow>
            (case atoi (unquote s) of
               Some n \<Rightarrow> n
             | None \<Rightarrow> if contains (unquote s) ''rate_limit'' then 429 else 0)
        | _ \<Rightarrow> 0)
      in if st = 0 \<and> contains (er_type e) ''rate_limit'' then 429 else st)"

definition chunk_error :: "chunk_err \<Rightarrow> err" where
  "chunk_error e =
     (if 0 < chunk_status e then from_status (chunk_status e) (er_message e) else upstream_fallback (er_message e))"

section \<open>The state of the converter\<close>

record tool_st =
  t_block :: int
  t_id :: string
  t_name :: string
  t_args :: string
  t_stopped :: bool
  t_announced :: bool
  t_custom :: bool
  t_sent :: nat
  t_ident :: identity
  t_done :: bool

definition no_identity :: identity where
  "no_identity = \<lparr>id_kind = [], id_name = [], id_namespace = [], id_chat_name = []\<rparr>"

definition new_tool :: "int \<Rightarrow> string \<Rightarrow> string \<Rightarrow> tool_st" where
  "new_tool k i n = \<lparr>t_block = k, t_id = i, t_name = n, t_args = [], t_stopped = False, t_announced = False,
     t_custom = False, t_sent = 0, t_ident = no_identity, t_done = False\<rparr>"

datatype target = ToOpenAI | ToClaude | ToResponses | ToOther string

definition target_of :: "string \<Rightarrow> target" where
  "target_of s = (if s = ''openai'' then ToOpenAI else if s = ''claude'' then ToClaude
     else if s = ''openai-response'' then ToResponses else ToOther s)"

record cc =
  c_target :: target
  c_buf :: string
  c_done :: bool
  c_started :: bool
  c_id :: string
  c_model :: string
  c_text_open :: bool
  c_text_index :: int
  c_think_open :: bool
  c_think_index :: int
  c_next :: int
  c_msg_index :: int
  c_think_item :: string
  c_think_in :: int
  c_think_stopped :: bool
  c_think_seen :: bool
  c_think_buf :: string
  c_tools :: "(int \<times> tool_st) list"
  c_tools_seen :: bool
  c_usage :: "cc_usage option"
  c_finished :: bool
  c_held :: string
  c_terminal_sent :: bool
  c_flushed :: bool
  c_resp_text :: string
  c_ctx :: tool_context
  c_seq :: int
  c_msg_item :: string
  c_part_open :: bool
  c_text_closed :: bool
  c_items :: "(int \<times> out_item) list"
  c_ordinal :: int
  c_snap :: snapshot
  c_usage_progress :: "cc_usage option"
  c_out :: "event list"

definition new_cc :: "string \<Rightarrow> tool_context \<Rightarrow> cc" where
  "new_cc source ctx = \<lparr>c_target = target_of source, c_buf = [], c_done = False, c_started = False, c_id = [], c_model = [],
     c_text_open = False, c_text_index = 0, c_think_open = False, c_think_index = 0, c_next = 0, c_msg_index = - 1,
     c_think_item = [], c_think_in = - 1, c_think_stopped = False, c_think_seen = False, c_think_buf = [],
     c_tools = [], c_tools_seen = False, c_usage = None, c_finished = False, c_held = [], c_terminal_sent = False,
     c_flushed = False, c_resp_text = [], c_ctx = ctx, c_seq = 0, c_msg_item = [], c_part_open = False,
     c_text_closed = False, c_items = [], c_ordinal = 0, c_snap = snapshot_zero, c_usage_progress = None, c_out = []\<rparr>"

definition emit :: "event \<Rightarrow> cc \<Rightarrow> cc" where
  "emit e s = s\<lparr>c_out := c_out s @ [e]\<rparr>"

definition progress :: "(snapshot \<Rightarrow> snapshot) \<Rightarrow> cc \<Rightarrow> cc" where
  "progress f s = s\<lparr>c_snap := f (c_snap s)\<rparr>"

text \<open>
  \<open>usageChanged\<close> compares the marshalled usage with the last one: the marshalled text
  determines the four counters, so the model compares these.
\<close>

definition usage_step :: "cc_usage option \<Rightarrow> cc \<Rightarrow> cc" where
  "usage_step u s =
     (case u of
        None \<Rightarrow> s
      | Some x \<Rightarrow> if c_usage_progress s = Some x then s
                  else progress st_advance (s\<lparr>c_usage_progress := Some x\<rparr>))"

section \<open>Lines and chunks\<close>

definition sse_data :: "string \<Rightarrow> string option" where
  "sse_data line = map_option trim_space (cut_prefix ''data:'' line)"

definition decode_chunk :: "string \<Rightarrow> cc \<Rightarrow> cc_chunk result \<times> cc" where
  "decode_chunk data s =
     (case unmarshal dec_cc_chunk data cc_chunk_zero of
        (_, False) \<Rightarrow> (Inl (translation (''malformed Chat Completions stream chunk: '' @ redacted_snippet data)), s)
      | (chunk, True) \<Rightarrow>
          (case ch_error chunk of
             Some e \<Rightarrow> (Inl (chunk_error e), s)
           | None \<Rightarrow> (Inr chunk, if ch_usage chunk = None then s else s\<lparr>c_usage := ch_usage chunk\<rparr>)))"

definition incomplete_tools :: err where
  "incomplete_tools = translation ''tool call arguments were incomplete at stream completion''"

definition validate_accumulated_tools :: "cc \<Rightarrow> err option" where
  "validate_accumulated_tools s =
     (if list_all (\<lambda>(_, t). json_valid (default_args (t_args t))) (c_tools s) then None else Some incomplete_tools)"

section \<open>Passthrough\<close>

definition pass_tool :: "tool_delta \<Rightarrow> cc \<Rightarrow> cc" where
  "pass_tool tc s =
     (let t = (case map_of (c_tools s) (td_index tc) of None \<Rightarrow> new_tool 0 (td_id tc) [] | Some t \<Rightarrow> t)
      in s\<lparr>c_tools := AList.update (td_index tc)
             (t\<lparr>t_name := t_name t @ td_name tc, t_args := t_args t @ td_args tc\<rparr>) (c_tools s)\<rparr>)"

definition observe_choice :: "cc_choice \<Rightarrow> cc \<Rightarrow> cc" where
  "observe_choice c s =
     (let s1 = (if cx_content c \<noteq> [] \<or> cx_tools c \<noteq> [] then progress st_advance s else s);
          s2 = (if snd (reasoning_text (cx_reasoning c)) then progress st_advance s1 else s1)
      in if cx_finish c \<noteq> [] \<and> \<not> s_finish (c_snap s2) then progress st_finish s2 else s2)"

definition observe_chunk :: "cc_chunk \<Rightarrow> cc \<Rightarrow> cc" where
  "observe_chunk chunk s =
     (let s1 = (if \<not> s_started (c_snap s) \<and> ch_choices chunk \<noteq> [] then progress st_start s else s);
          s2 = usage_step (ch_usage chunk) s1
      in case ch_choices chunk of
           [] \<Rightarrow> s2
         | c # _ \<Rightarrow> fold pass_tool (cx_tools c) (observe_choice c s2))"

text \<open>
  \<open>backfill\<close> is \<open>BackfillReasoningContent\<close> (gjson and sjson): the rewritten payload, or
  \<open>None\<close> for unchanged.
\<close>

definition passthrough_line :: "(string \<Rightarrow> string option) \<Rightarrow> string \<Rightarrow> cc \<Rightarrow> err option \<times> cc" where
  "passthrough_line backfill line s =
     (case sse_data line of
        None \<Rightarrow> (None, s)
      | Some data \<Rightarrow>
          (if is_sse_done data then
             (case validate_accumulated_tools s of
                Some e \<Rightarrow> (Some e, s)
              | None \<Rightarrow> (None, progress (st_terminal ''done'') (progress st_done (s\<lparr>c_done := True\<rparr>))))
           else if data = [] then (None, s)
           else (let s1 = (case unmarshal dec_cc_chunk data cc_chunk_zero of
                        (chunk, True) \<Rightarrow> observe_chunk chunk s
                      | (_, False) \<Rightarrow> s)
                 in (None, emit (EvRaw (case backfill data of Some fixed \<Rightarrow> fixed | None \<Rightarrow> data)) s1))))"

lemmas chat_state [model_defs] = emit_def progress_def usage_step_def

end
