(* ===== verification/Chat_Claude.thy ===== *)
theory Chat_Claude
  imports Chat_Common
begin

text \<open>
  The Anthropic Messages target of \<open>internal/adapter/chatcompletions/stream.go\<close>: blocks
  opened lazily and closed before the next one starts, the held terminal, and the discipline of
  content blocks as an invariant of the emitted events.
\<close>

section \<open>Operations\<close>

definition stop_thinking :: "cc \<Rightarrow> cc" where
  "stop_thinking s =
     (if \<not> c_think_open s then s
      else emit (EvClaude (CBlockStop (c_think_index s))) (s\<lparr>c_think_open := False\<rparr>))"

definition stop_text :: "cc \<Rightarrow> cc" where
  "stop_text s =
     (if \<not> c_text_open s then s
      else emit (EvClaude (CBlockStop (c_text_index s))) (s\<lparr>c_text_open := False\<rparr>))"

definition stop_tools :: "cc \<Rightarrow> cc" where
  "stop_tools s =
     s\<lparr>c_tools := map (\<lambda>(i, t). (i, t\<lparr>t_stopped := True\<rparr>)) (c_tools s),
       c_out := c_out s @ map (\<lambda>(i, t). EvClaude (CBlockStop (t_block t)))
                            (filter (\<lambda>(i, t). \<not> t_stopped t) (c_tools s))\<rparr>"

definition stop_blocks :: "cc \<Rightarrow> cc" where
  "stop_blocks s = stop_tools (stop_text (stop_thinking s))"

definition claude_terminal :: "cc \<Rightarrow> cc" where
  "claude_terminal s =
     (let fin = c_held s; s0 = s\<lparr>c_held := []\<rparr> in
      if fin = [] then s0
      else (let reason = terminal_reason (c_tools_seen s) ''tool_use'' (finish_to_claude_stop fin);
                input = (case c_usage s of None \<Rightarrow> 0 | Some u \<Rightarrow> cu_prompt u);
                output = (case c_usage s of None \<Rightarrow> 0 | Some u \<Rightarrow> cu_completion u);
                cache_read = (case c_usage s of None \<Rightarrow> None
                              | Some u \<Rightarrow> (case cu_prompt_details u of None \<Rightarrow> None | Some c \<Rightarrow> c))
            in emit (EvClaude (CMessageDelta (Some reason)
                 (Some (claude_usage (clamp_subtract input [cache_read]) output cache_read None))))
                 (s0\<lparr>c_terminal_sent := True\<rparr>)))"

definition claude_thinking :: "string \<times> bool \<Rightarrow> cc \<Rightarrow> cc" where
  "claude_thinking r s =
     (if \<not> snd r then s
      else (let s1 = (if c_think_open s then s
                      else (let s0 = stop_blocks s;
                                k = c_next s0
                            in emit (EvClaude (CBlockStart k BThinking))
                                 (s0\<lparr>c_think_index := k, c_next := k + 1, c_think_open := True\<rparr>)))
            in emit (EvClaude (CBlockDelta (c_think_index s1) (DThinking (fst r)))) s1))"

definition claude_content :: "string \<Rightarrow> cc \<Rightarrow> cc" where
  "claude_content content s =
     (if content = [] then s
      else (let s1 = (if c_text_open s then s
                      else (let s0 = stop_blocks s;
                                k = c_next s0
                            in emit (EvClaude (CBlockStart k BText))
                                 (s0\<lparr>c_text_index := k, c_next := k + 1, c_text_open := True\<rparr>)))
            in emit (EvClaude (CBlockDelta (c_text_index s1) (DText content))) s1))"

text \<open>One entry of the loop over \<open>delta.tool_calls\<close>: opening a new index, then its arguments.\<close>

definition claude_open_tool :: "tool_delta \<Rightarrow> cc \<Rightarrow> cc" where
  "claude_open_tool tc s =
     (case map_of (c_tools s) (td_index tc) of
        Some t \<Rightarrow> s
      | None \<Rightarrow>
          (let s0 = stop_blocks s;
               k = c_next s0;
               t = new_tool k (td_id tc) (td_name tc)
           in emit (EvClaude (CBlockStart k (BTool (td_id tc) (td_name tc))))
                (s0\<lparr>c_next := k + 1, c_tools := c_tools s0 @ [(td_index tc, t)], c_tools_seen := True\<rparr>)))"

definition claude_tool_args :: "tool_delta \<Rightarrow> cc \<Rightarrow> cc" where
  "claude_tool_args tc s =
     (case map_of (c_tools s) (td_index tc) of
        None \<Rightarrow> s
      | Some t \<Rightarrow>
          (if td_args tc = [] then s
           else emit (EvClaude (CBlockDelta (t_block t) (DJson (td_args tc))))
             (s\<lparr>c_tools := AList.update (td_index tc) (t\<lparr>t_args := t_args t @ td_args tc\<rparr>) (c_tools s)\<rparr>)))"

definition claude_tool :: "tool_delta \<Rightarrow> cc \<Rightarrow> cc" where
  "claude_tool tc s = claude_tool_args tc (claude_open_tool tc s)"

definition claude_finish :: "string \<Rightarrow> cc \<Rightarrow> cc" where
  "claude_finish fin s =
     (if fin \<noteq> [] \<and> \<not> c_finished s then stop_blocks (s\<lparr>c_finished := True, c_held := fin\<rparr>) else s)"

definition claude_start :: "cc_chunk \<Rightarrow> cc \<Rightarrow> cc" where
  "claude_start chunk s =
     (if \<not> c_started s \<and> ch_choices chunk \<noteq> []
      then emit (EvClaude (CMessageStart (ch_id chunk) (ch_model chunk)
             (case ch_usage chunk of None \<Rightarrow> 0 | Some u \<Rightarrow> cu_prompt u))) (s\<lparr>c_started := True\<rparr>)
      else s)"

definition claude_choice :: "cc_choice \<Rightarrow> cc \<Rightarrow> cc" where
  "claude_choice c s =
     claude_finish (cx_finish c)
       (fold claude_tool (cx_tools c)
          (claude_content (cx_content c)
             (claude_thinking (reasoning_text (cx_reasoning c)) (observe_choice c s))))"

definition claude_chunk :: "cc_chunk \<Rightarrow> cc \<Rightarrow> cc" where
  "claude_chunk chunk s =
     (let s1 = (if \<not> s_started (c_snap s) \<and> ch_choices chunk \<noteq> [] then progress st_start s else s);
          s2 = (if c_held s1 \<noteq> [] then claude_terminal s1 else s1);
          s3 = claude_start chunk (usage_step (ch_usage chunk) s2)
      in case ch_choices chunk of [] \<Rightarrow> s3 | c # _ \<Rightarrow> claude_choice c s3)"

definition claude_done :: "cc \<Rightarrow> cc" where
  "claude_done s =
     emit (EvClaude CMessageStop)
       (claude_terminal (stop_blocks
          (progress (st_terminal ''message_stop'') (progress st_done (s\<lparr>c_done := True\<rparr>)))))"

definition claude_line :: "string \<Rightarrow> cc \<Rightarrow> err option \<times> cc" where
  "claude_line line s =
     (case sse_data line of
        None \<Rightarrow> (None, s)
      | Some data \<Rightarrow>
          (if data = [] then (None, s)
           else if is_sse_done data then
             (case validate_accumulated_tools s of Some e \<Rightarrow> (Some e, s) | None \<Rightarrow> (None, claude_done s))
           else (case decode_chunk data s of
                   (Inl e, s') \<Rightarrow> (Some e, s')
                 | (Inr chunk, s') \<Rightarrow> (None, claude_chunk chunk s'))))"

text \<open>
  The Claude branch of \<open>Flush\<close>. The emitter that renders \<open>message_stop\<close> is the zero value
  if no chunk was seen; the event does not show its identity.
\<close>

definition claude_flush :: "cc \<Rightarrow> cc" where
  "claude_flush s =
     (let sent = c_terminal_sent s; s1 = claude_terminal s in
      if c_held s = [] then (if sent then emit (EvClaude CMessageStop) s1 else s1)
      else emit (EvClaude CMessageStop) s1)"

section \<open>The block discipline\<close>

text \<open>
  A monitor of an Anthropic Messages stream. It accepts message_start once, block starts after it
  with consecutive indices while no block is open, text and thinking deltas for the open block of
  that kind, argument deltas for a tool block that was started, the stop of the open block, one
  message_delta while no block is open, and message_stop while no block is open or after a late
  block. It keeps two marks of what the converter does not keep in order: \<open>m_back\<close>, an argument
  delta was sent for a tool block that was stopped already, and \<open>m_late\<close>, a block was started
  after message_delta. A stream with neither mark is one the Anthropic protocol allows.
\<close>

datatype blk_kind = KText | KThinking | KTool

fun kind_of :: "claude_blk \<Rightarrow> blk_kind" where
  "kind_of BText = KText"
| "kind_of BThinking = KThinking"
| "kind_of (BTool _ _) = KTool"

record monitor =
  m_started :: bool
  m_next :: int
  m_open :: "(int \<times> blk_kind) option"
  m_tools :: "int set"
  m_delta :: bool
  m_back :: bool
  m_late :: bool

definition monitor_zero :: monitor where
  "monitor_zero = \<lparr>m_started = False, m_next = 0, m_open = None, m_tools = {}, m_delta = False,
     m_back = False, m_late = False\<rparr>"

fun watch :: "claude_ev \<Rightarrow> monitor \<Rightarrow> monitor option" where
  "watch (CMessageStart _ _ _) m = (if m_started m then None else Some (m\<lparr>m_started := True\<rparr>))"
| "watch (CBlockStart k b) m =
     (if m_started m \<and> m_open m = None \<and> k = m_next m
      then Some (m\<lparr>m_open := Some (k, kind_of b), m_next := k + 1,
             m_tools := (if kind_of b = KTool then insert k (m_tools m) else m_tools m),
             m_late := (m_late m \<or> m_delta m)\<rparr>)
      else None)"
| "watch (CBlockDelta k (DText _)) m = (if m_open m = Some (k, KText) then Some m else None)"
| "watch (CBlockDelta k (DThinking _)) m = (if m_open m = Some (k, KThinking) then Some m else None)"
| "watch (CBlockDelta k (DJson _)) m =
     (if k \<in> m_tools m then Some (m\<lparr>m_back := (m_back m \<or> m_open m \<noteq> Some (k, KTool))\<rparr>) else None)"
| "watch (CBlockStop k) m = (if map_option fst (m_open m) = Some k then Some (m\<lparr>m_open := None\<rparr>) else None)"
| "watch (CMessageDelta _ _) m =
     (if \<not> m_delta m \<and> m_open m = None then Some (m\<lparr>m_delta := True\<rparr>) else None)"
| "watch CMessageStop m = (if m_open m = None \<or> m_late m then Some m else None)"

fun watch_all :: "event list \<Rightarrow> monitor \<Rightarrow> monitor option" where
  "watch_all [] m = Some m"
| "watch_all (EvClaude e # es) m = Option.bind (watch e m) (watch_all es)"
| "watch_all (_ # es) m = None"

lemma watch_append: "watch_all (xs @ ys) m = Option.bind (watch_all xs m) (watch_all ys)"
  by (induction xs m rule: watch_all.induct) (auto simp: Option.bind_assoc split: Option.bind_split)

text \<open>The open tool blocks of a converter state, and how the monitor sees it.\<close>

definition open_tools :: "cc \<Rightarrow> (int \<times> tool_st) list" where
  "open_tools s = filter (\<lambda>(i, t). \<not> t_stopped t) (c_tools s)"

definition open_blocks :: "cc \<Rightarrow> (int \<times> blk_kind) list" where
  "open_blocks s =
     (if c_think_open s then [(c_think_index s, KThinking)] else [])
     @ (if c_text_open s then [(c_text_index s, KText)] else [])
     @ map (\<lambda>(i, t). (t_block t, KTool)) (open_tools s)"

definition tool_blocks :: "cc \<Rightarrow> int set" where
  "tool_blocks s = (\<lambda>x. t_block (snd x)) ` set (c_tools s)"

definition seen_by :: "monitor \<Rightarrow> cc \<Rightarrow> bool" where
  "seen_by m s =
     (m_started m = c_started s \<and> m_next m = c_next s
      \<and> open_blocks s = (case m_open m of None \<Rightarrow> [] | Some b \<Rightarrow> [b])
      \<and> tool_blocks s \<subseteq> m_tools m
      \<and> (m_delta m \<longrightarrow> c_finished s \<and> c_held s = [])
      \<and> (c_terminal_sent s \<longrightarrow> m_delta m)
      \<and> (m_delta m \<and> m_open m \<noteq> None \<longrightarrow> m_late m)
      \<and> (c_held s \<noteq> [] \<longrightarrow> c_finished s \<and> m_open m = None))"

text \<open>What the current handler call emitted is accepted from \<open>m0\<close>, and leads to the state.\<close>

definition accepted :: "monitor \<Rightarrow> cc \<Rightarrow> bool" where
  "accepted m0 s = (\<exists>m. watch_all (c_out s) m0 = Some m \<and> seen_by m s)"

lemma acceptedI: "watch_all (c_out s) m0 = Some m \<Longrightarrow> seen_by m s \<Longrightarrow> accepted m0 s"
  by (auto simp: accepted_def)

lemma watch_single: "watch_all [EvClaude e] = watch e"
proof
  show "watch_all [EvClaude e] m = watch e m" for m by (cases "watch e m") simp_all
qed

lemma watch_emit:
  "watch_all (c_out (emit (EvClaude e) s)) m0 = Option.bind (watch_all (c_out s) m0) (watch e)"
  by (simp only: emit_def watch_append watch_single) (simp add: watch_append watch_single)

lemma open_blocks_emit [simp]: "open_blocks (emit e s) = open_blocks s"
  by (simp add: open_blocks_def open_tools_def emit_def)

lemma emit_fields [simp]:
  "c_started (emit e s) = c_started s" "c_next (emit e s) = c_next s" "c_tools (emit e s) = c_tools s"
  "c_finished (emit e s) = c_finished s" "c_held (emit e s) = c_held s" "c_think_open (emit e s) = c_think_open s"
  "c_text_open (emit e s) = c_text_open s" "c_text_index (emit e s) = c_text_index s"
  "c_think_index (emit e s) = c_think_index s" "c_terminal_sent (emit e s) = c_terminal_sent s"
  by (simp_all add: emit_def)

lemma seen_emit [simp]: "seen_by m (emit e s) = seen_by m s"
  by (simp add: seen_by_def tool_blocks_def)

text \<open>Stopping the one open block.\<close>

lemma stop_blocks_out:
  "c_out (stop_blocks s) = c_out s @ map (\<lambda>(k, _). EvClaude (CBlockStop k)) (open_blocks s)"
  by (auto simp: stop_blocks_def stop_tools_def stop_text_def stop_thinking_def open_blocks_def open_tools_def emit_def)

lemma stop_blocks_fields [simp]:
  "c_started (stop_blocks s) = c_started s" "c_next (stop_blocks s) = c_next s"
  "c_finished (stop_blocks s) = c_finished s" "c_held (stop_blocks s) = c_held s"
  "c_terminal_sent (stop_blocks s) = c_terminal_sent s"
  "c_think_open (stop_blocks s) = False" "c_text_open (stop_blocks s) = False"
  "c_tools (stop_blocks s) = map (\<lambda>(i, t). (i, t\<lparr>t_stopped := True\<rparr>)) (c_tools s)"
  by (simp_all add: stop_blocks_def stop_tools_def stop_text_def stop_thinking_def emit_def)

lemma tool_blocks_stop [simp]: "tool_blocks (stop_blocks s) = tool_blocks s"
  by (simp add: tool_blocks_def image_image split_beta)

lemma tool_blocks_emit [simp]: "tool_blocks (emit e s) = tool_blocks s"
  by (simp add: tool_blocks_def emit_def)

lemma stop_blocks_closed [simp]: "open_blocks (stop_blocks s) = []"
  by (simp add: open_blocks_def open_tools_def) (auto simp: filter_empty_conv)

lemma accepted_stop:
  assumes "accepted m0 s"
  shows "\<exists>m. watch_all (c_out (stop_blocks s)) m0 = Some m \<and> seen_by m (stop_blocks s) \<and> m_open m = None
    \<and> (m_delta m \<longrightarrow> c_finished s \<and> c_held s = [])"
proof -
  obtain m where m: "watch_all (c_out s) m0 = Some m" "seen_by m s" using assms by (auto simp: accepted_def)
  let ?m = "m\<lparr>m_open := None\<rparr>"
  have "open_blocks s = (case m_open m of None \<Rightarrow> [] | Some b \<Rightarrow> [b])" using m by (simp add: seen_by_def)
  then have "watch_all (c_out (stop_blocks s)) m0 = Some ?m"
    using m(1) by (cases "m_open m") (auto simp: stop_blocks_out watch_append)
  moreover have "seen_by ?m (stop_blocks s)" using m(2) by (auto simp: seen_by_def)
  ultimately show ?thesis using m(2) by (intro exI [of _ ?m]) (simp add: seen_by_def)
qed

text \<open>Fields the monitor does not see.\<close>

lemma seen_by_more [simp]:
  "seen_by m (s\<lparr>c_snap := a\<rparr>) = seen_by m s" "seen_by m (s\<lparr>c_usage := u\<rparr>) = seen_by m s"
  "seen_by m (s\<lparr>c_usage_progress := p\<rparr>) = seen_by m s" "seen_by m (s\<lparr>c_done := d\<rparr>) = seen_by m s"
  "seen_by m (s\<lparr>c_out := evs\<rparr>) = seen_by m s"
  "seen_by m (s\<lparr>c_buf := x\<rparr>) = seen_by m s"
  by (simp_all add: seen_by_def open_blocks_def open_tools_def tool_blocks_def)

lemma accepted_more [simp]:
  "accepted m (s\<lparr>c_snap := a\<rparr>) = accepted m s" "accepted m (s\<lparr>c_usage := u\<rparr>) = accepted m s"
  "accepted m (s\<lparr>c_usage_progress := p\<rparr>) = accepted m s" "accepted m (s\<lparr>c_done := d\<rparr>) = accepted m s"
  by (simp_all add: accepted_def)

lemma accepted_progress [simp]: "accepted m (progress f s) = accepted m s"
  by (simp add: progress_def)

lemma accepted_usage [simp]: "accepted m (usage_step u s) = accepted m s"
  by (simp add: usage_step_def split: option.splits)

lemma accepted_observe [simp]: "accepted m (observe_choice c s) = accepted m s"
  by (simp add: observe_choice_def Let_def)

text \<open>Fields the emission of a block keeps; \<open>live\<close>: content may be emitted.\<close>

definition live :: "cc \<Rightarrow> bool" where
  "live s = (c_started s \<and> c_held s = [])"

lemma live_more [simp]:
  "live (progress f s) = live s" "live (usage_step u s) = live s" "live (observe_choice c s) = live s"
  "live (stop_blocks s) = live s" "live (emit e s) = live s"
  by (simp_all add: live_def progress_def usage_step_def observe_choice_def Let_def split: option.splits)

text \<open>Opening a block after stopping the others.\<close>

lemma accepted_open:
  assumes a: "accepted m0 s" and l: "live s"
    and s': "c_started s' = c_started s" "c_held s' = c_held s" "c_finished s' = c_finished s"
      "c_terminal_sent s' = c_terminal_sent s"
      "c_next s' = c_next s + 1" "c_out s' = c_out (stop_blocks s)"
      "open_blocks s' = [(c_next s, kind_of b)]"
      "tool_blocks s' \<subseteq> tool_blocks s \<union> (if kind_of b = KTool then {c_next s} else {})"
  shows "accepted m0 (emit (EvClaude (CBlockStart (c_next s) b)) s')"
proof -
  obtain m where m: "watch_all (c_out (stop_blocks s)) m0 = Some m" "seen_by m (stop_blocks s)" "m_open m = None"
    using accepted_stop [OF a] by blast
  let ?m = "m\<lparr>m_open := Some (c_next s, kind_of b), m_next := c_next s + 1,
     m_tools := (if kind_of b = KTool then insert (c_next s) (m_tools m) else m_tools m),
     m_late := (m_late m \<or> m_delta m)\<rparr>"
  have blocks: "tool_blocks s \<subseteq> m_tools m" using m(2) by (simp add: seen_by_def)
  have "watch (CBlockStart (c_next s) b) m = Some ?m"
    using m(2,3) l by (simp add: seen_by_def live_def)
  then have "watch_all (c_out (emit (EvClaude (CBlockStart (c_next s) b)) s')) m0 = Some ?m"
    using m(1) s'(6) by (simp add: watch_emit)
  moreover have "seen_by ?m s'"
    using m(2) s' l blocks by (auto simp: seen_by_def live_def)
  ultimately show ?thesis by (intro acceptedI) simp_all
qed

lemma accepted_delta:
  assumes "accepted m0 s" "open_blocks s = [(k, kd)]"
    and "d = DText t \<and> kd = KText \<or> d = DThinking t \<and> kd = KThinking"
  shows "accepted m0 (emit (EvClaude (CBlockDelta k d)) s)"
proof -
  obtain m where m: "watch_all (c_out s) m0 = Some m" "seen_by m s" using assms(1) by (auto simp: accepted_def)
  then have "m_open m = Some (k, kd)" using assms(2) by (auto simp: seen_by_def split: option.splits)
  then have "watch (CBlockDelta k d) m = Some m" using assms(3) by auto
  then show ?thesis using m by (intro acceptedI [of _ _ m]) (simp_all add: watch_emit)
qed

lemma opened_alone:
  assumes "c_think_open s \<or> c_text_open s" "accepted m0 s"
  shows "c_think_open s \<Longrightarrow> open_blocks s = [(c_think_index s, KThinking)]"
    and "c_text_open s \<Longrightarrow> open_blocks s = [(c_text_index s, KText)]"
  using assms by (auto simp: accepted_def seen_by_def open_blocks_def split: option.splits if_splits)

lemma accepted_thinking: "accepted m0 s \<Longrightarrow> live s \<Longrightarrow> accepted m0 (claude_thinking r s) \<and> live (claude_thinking r s)"
proof (cases "snd r")
  case True
  assume a: "accepted m0 s" "live s"
  define s1 where "s1 = (if c_think_open s then s
     else (let s0 = stop_blocks s; k = c_next s0 in emit (EvClaude (CBlockStart k BThinking))
             (s0\<lparr>c_think_index := k, c_next := k + 1, c_think_open := True\<rparr>)))"
  have s1: "accepted m0 s1 \<and> live s1 \<and> c_think_open s1"
  proof (cases "c_think_open s")
    case True
    then show ?thesis using a by (simp add: s1_def)
  next
    case False
    let ?s' = "(stop_blocks s)\<lparr>c_think_index := c_next s, c_next := c_next s + 1, c_think_open := True\<rparr>"
    have "open_blocks ?s' = [(c_next s, KThinking)]"
      using stop_blocks_closed [of s] by (simp add: open_blocks_def open_tools_def split: if_splits)
    then have "accepted m0 (emit (EvClaude (CBlockStart (c_next s) BThinking)) ?s')"
      using tool_blocks_stop [of s] by (intro accepted_open [OF a]) (simp_all add: tool_blocks_def)
    then show ?thesis using False a by (simp add: s1_def Let_def live_def)
  qed
  then have "accepted m0 (emit (EvClaude (CBlockDelta (c_think_index s1) (DThinking (fst r)))) s1)"
    using opened_alone(1) [of s1 m0] by (intro accepted_delta [where kd = KThinking and t = "fst r"]) auto
  then show ?thesis using True s1 by (simp add: claude_thinking_def s1_def [symmetric] Let_def)
qed (simp add: claude_thinking_def)

lemma accepted_content: "accepted m0 s \<Longrightarrow> live s \<Longrightarrow> accepted m0 (claude_content t s) \<and> live (claude_content t s)"
proof (cases "t = []")
  case False
  assume a: "accepted m0 s" "live s"
  define s1 where "s1 = (if c_text_open s then s
     else (let s0 = stop_blocks s; k = c_next s0 in emit (EvClaude (CBlockStart k BText))
             (s0\<lparr>c_text_index := k, c_next := k + 1, c_text_open := True\<rparr>)))"
  have s1: "accepted m0 s1 \<and> live s1 \<and> c_text_open s1"
  proof (cases "c_text_open s")
    case True
    then show ?thesis using a by (simp add: s1_def)
  next
    case False
    let ?s' = "(stop_blocks s)\<lparr>c_text_index := c_next s, c_next := c_next s + 1, c_text_open := True\<rparr>"
    have "open_blocks ?s' = [(c_next s, KText)]"
      using stop_blocks_closed [of s] by (simp add: open_blocks_def open_tools_def split: if_splits)
    then have "accepted m0 (emit (EvClaude (CBlockStart (c_next s) BText)) ?s')"
      using tool_blocks_stop [of s] by (intro accepted_open [OF a]) (simp_all add: tool_blocks_def)
    then show ?thesis using False a by (simp add: s1_def Let_def live_def)
  qed
  then have "accepted m0 (emit (EvClaude (CBlockDelta (c_text_index s1) (DText t))) s1)"
    using opened_alone(2) [of s1 m0] by (intro accepted_delta [where kd = KText and t = t]) auto
  then show ?thesis using False s1 by (simp add: claude_content_def s1_def [symmetric] Let_def)
qed (simp add: claude_content_def)

lemma update_same_block:
  assumes "map_of xs k = Some t" "t_block v = t_block t" "t_stopped v = t_stopped t"
  shows "map (\<lambda>(i, t). (t_block t, KTool)) (filter (\<lambda>(i, t). \<not> t_stopped t) (AList.update k v xs))
      = map (\<lambda>(i, t). (t_block t, KTool)) (filter (\<lambda>(i, t). \<not> t_stopped t) xs)"
    and "(\<lambda>x. t_block (snd x)) ` set (AList.update k v xs) = (\<lambda>x. t_block (snd x)) ` set xs"
  using assms by (induction xs) (auto split: if_splits)

lemma accepted_tool: "accepted m0 s \<Longrightarrow> live s \<Longrightarrow> accepted m0 (claude_tool tc s) \<and> live (claude_tool tc s)"
proof -
  assume a: "accepted m0 s" "live s"
  define s1 where "s1 = claude_open_tool tc s"
  have s1: "accepted m0 s1 \<and> live s1"
  proof (cases "map_of (c_tools s) (td_index tc)")
    case None
    let ?b = "BTool (td_id tc) (td_name tc)"
    let ?s' = "(stop_blocks s)\<lparr>c_next := c_next s + 1,
      c_tools := c_tools (stop_blocks s) @ [(td_index tc, new_tool (c_next s) (td_id tc) (td_name tc))],
      c_tools_seen := True\<rparr>"
    have "open_blocks ?s' = [(c_next s, kind_of ?b)]"
      using stop_blocks_closed [of s] by (simp add: open_blocks_def open_tools_def new_tool_def split: if_splits)
    then have "accepted m0 (emit (EvClaude (CBlockStart (c_next s) ?b)) ?s')"
      using tool_blocks_stop [of s]
      by (intro accepted_open [OF a]) (simp_all add: tool_blocks_def new_tool_def subset_insertI)
    then show ?thesis using None a by (simp add: s1_def claude_open_tool_def Let_def live_def)
  qed (simp add: s1_def claude_open_tool_def a)
  show ?thesis
  proof (cases "map_of (c_tools s1) (td_index tc) = None \<or> td_args tc = []")
    case True
    then have "claude_tool_args tc s1 = s1" by (auto simp: claude_tool_args_def split: option.splits)
    then show ?thesis using s1 by (simp add: claude_tool_def s1_def [symmetric])
  next
    case False
    then obtain t where t: "map_of (c_tools s1) (td_index tc) = Some t" "td_args tc \<noteq> []" by auto
    let ?s' = "s1\<lparr>c_tools := AList.update (td_index tc) (t\<lparr>t_args := t_args t @ td_args tc\<rparr>) (c_tools s1)\<rparr>"
    obtain m where m: "watch_all (c_out s1) m0 = Some m" "seen_by m s1" using s1 by (auto simp: accepted_def)
    let ?m = "m\<lparr>m_back := (m_back m \<or> m_open m \<noteq> Some (t_block t, KTool))\<rparr>"
    have "t_block t \<in> tool_blocks s1" using map_of_SomeD [OF t(1)] by (force simp: tool_blocks_def)
    then have "watch (CBlockDelta (t_block t) (DJson (td_args tc))) m = Some ?m" using m(2) by (auto simp: seen_by_def)
    moreover have "seen_by ?m ?s'"
    proof -
    have "open_blocks ?s' = open_blocks s1" "tool_blocks ?s' = tool_blocks s1"
      using update_same_block [OF t(1), of "t\<lparr>t_args := t_args t @ td_args tc\<rparr>"]
      by (simp_all add: open_blocks_def open_tools_def tool_blocks_def)
    then show ?thesis using m(2) by (simp add: seen_by_def)
    qed
    ultimately have "accepted m0 (emit (EvClaude (CBlockDelta (t_block t) (DJson (td_args tc)))) ?s')"
      using m(1) by (intro acceptedI [of _ _ ?m]) (simp_all add: watch_emit)
    then show ?thesis using s1 t by (simp add: claude_tool_def claude_tool_args_def s1_def [symmetric] live_def)
  qed
qed

lemma accepted_tools: "accepted m0 s \<Longrightarrow> live s \<Longrightarrow> accepted m0 (fold claude_tool tcs s) \<and> live (fold claude_tool tcs s)"
  by (induction tcs arbitrary: s) (simp_all add: accepted_tool)

lemma accepted_finish:
  assumes "accepted m0 s" "live s"
  shows "accepted m0 (claude_finish fin s)"
proof (cases "fin \<noteq> [] \<and> \<not> c_finished s")
  case True
  obtain m where m: "watch_all (c_out (stop_blocks s)) m0 = Some m" "seen_by m (stop_blocks s)" "m_open m = None"
      "m_delta m \<longrightarrow> c_finished s"
    using accepted_stop [OF assms(1)] by blast
  have o: "open_blocks (s\<lparr>c_finished := True, c_held := fin\<rparr>) = open_blocks s"
    by (simp add: open_blocks_def open_tools_def)
  have out: "c_out (stop_blocks (s\<lparr>c_finished := True, c_held := fin\<rparr>)) = c_out (stop_blocks s)"
    by (simp add: stop_blocks_out o)
  have t: "tool_blocks (s\<lparr>c_finished := True, c_held := fin\<rparr>) = tool_blocks s" by (simp add: tool_blocks_def)
  have "seen_by m (stop_blocks (s\<lparr>c_finished := True, c_held := fin\<rparr>))"
    using m(2-4) True t by (auto simp: seen_by_def)
  then show ?thesis using m(1) True out by (intro acceptedI [of _ _ m]) (simp_all add: claude_finish_def)
qed (use assms in \<open>auto simp: claude_finish_def\<close>)

lemma accepted_choice:
  assumes "accepted m0 s" "live s"
  shows "accepted m0 (claude_choice c s)"
proof -
  define a where "a = claude_thinking (reasoning_text (cx_reasoning c)) (observe_choice c s)"
  define b where "b = claude_content (cx_content c) a"
  define d where "d = fold claude_tool (cx_tools c) b"
  have "accepted m0 a \<and> live a" unfolding a_def by (rule accepted_thinking) (use assms in simp_all)
  then have "accepted m0 b \<and> live b" unfolding b_def by (intro accepted_content) simp_all
  then have "accepted m0 d \<and> live d" unfolding d_def by (intro accepted_tools) simp_all
  then show ?thesis by (simp add: claude_choice_def a_def [symmetric] b_def [symmetric] d_def [symmetric] accepted_finish)
qed

lemma accepted_terminal:
  assumes "accepted m0 s" "c_held s \<noteq> [] \<longrightarrow> True"
  shows "accepted m0 (claude_terminal s) \<and> c_held (claude_terminal s) = [] \<and> c_started (claude_terminal s) = c_started s
     \<and> c_terminal_sent (claude_terminal s) = (c_terminal_sent s \<or> c_held s \<noteq> [])
     \<and> open_blocks (claude_terminal s) = open_blocks s"
proof -
  obtain m where m: "watch_all (c_out s) m0 = Some m" "seen_by m s" using assms(1) by (auto simp: accepted_def)
  have keep: "open_blocks (s\<lparr>c_held := []\<rparr>) = open_blocks s" "open_blocks (s\<lparr>c_held := [], c_terminal_sent := True\<rparr>) = open_blocks s"
    "tool_blocks (s\<lparr>c_held := []\<rparr>) = tool_blocks s" "tool_blocks (s\<lparr>c_held := [], c_terminal_sent := True\<rparr>) = tool_blocks s"
    by (simp_all add: open_blocks_def open_tools_def tool_blocks_def)
  show ?thesis
  proof (cases "c_held s = []")
    case True
    then have "claude_terminal s = s\<lparr>c_held := []\<rparr>" by (simp add: claude_terminal_def Let_def)
    then show ?thesis using m keep True by (auto simp: accepted_def seen_by_def)
  next
    case False
    then obtain r u where e: "claude_terminal s
        = emit (EvClaude (CMessageDelta r u)) (s\<lparr>c_held := [], c_terminal_sent := True\<rparr>)"
      by (simp add: claude_terminal_def Let_def)
    let ?m = "m\<lparr>m_delta := True\<rparr>"
    have "watch (CMessageDelta r u) m = Some ?m" using m(2) False by (auto simp: seen_by_def)
    then have "watch_all (c_out (claude_terminal s)) m0 = Some ?m" using m(1) by (simp add: e watch_emit)
    moreover have "seen_by ?m (claude_terminal s)"
      using m(2) False keep by (simp add: e del: seen_by_more) (auto simp: seen_by_def)
    ultimately show ?thesis using False by (auto simp: e keep intro: acceptedI)
  qed
qed

lemma accepted_start: "accepted m0 s \<Longrightarrow> c_held s = [] \<Longrightarrow> accepted m0 (claude_start chunk s)"
proof (cases "\<not> c_started s \<and> ch_choices chunk \<noteq> []")
  case True
  assume a: "accepted m0 s" "c_held s = []"
  then obtain m where m: "watch_all (c_out s) m0 = Some m" "seen_by m s" by (auto simp: accepted_def)
  let ?m = "m\<lparr>m_started := True\<rparr>"
  have keep: "open_blocks (s\<lparr>c_started := True\<rparr>) = open_blocks s" "tool_blocks (s\<lparr>c_started := True\<rparr>) = tool_blocks s"
    by (simp_all add: open_blocks_def open_tools_def tool_blocks_def)
  have w: "watch (CMessageStart i md n) m = Some ?m" for i md n using m(2) True by (simp add: seen_by_def)
  show ?thesis using m True keep w
    by (intro acceptedI [of _ _ ?m]) (auto simp: claude_start_def watch_emit seen_by_def)
qed (auto simp: claude_start_def)

lemma claude_start_live: "ch_choices chunk \<noteq> [] \<Longrightarrow> c_held s = [] \<Longrightarrow> live (claude_start chunk s)"
  by (simp add: claude_start_def live_def)

lemma held_more [simp]: "c_held (usage_step u s) = c_held s" "c_held (progress f s) = c_held s"
  "c_held (s\<lparr>c_usage := v\<rparr>) = c_held s"
  by (simp_all add: usage_step_def progress_def split: option.splits)

lemma accepted_chunk: "accepted m0 s \<Longrightarrow> accepted m0 (claude_chunk chunk s)"
proof -
  assume a: "accepted m0 s"
  define s1 where "s1 = (if \<not> s_started (c_snap s) \<and> ch_choices chunk \<noteq> [] then progress st_start s else s)"
  define s2 where "s2 = (if c_held s1 \<noteq> [] then claude_terminal s1 else s1)"
  define s3 where "s3 = claude_start chunk (usage_step (ch_usage chunk) s2)"
  have "accepted m0 s1" using a by (simp add: s1_def)
  then have s2: "accepted m0 s2" "c_held s2 = []" using accepted_terminal [of m0 s1] by (auto simp: s2_def)
  then have s3: "accepted m0 s3" "ch_choices chunk \<noteq> [] \<Longrightarrow> live s3"
    by (simp_all add: s3_def accepted_start claude_start_live)
  show ?thesis
  proof (cases "ch_choices chunk")
    case Nil
    then have "claude_chunk chunk s = s3" by (simp add: claude_chunk_def s1_def s2_def s3_def Let_def)
    then show ?thesis using s3 by simp
  next
    case (Cons c cs)
    then have "claude_chunk chunk s = claude_choice c s3" by (simp add: claude_chunk_def s1_def s2_def s3_def Let_def)
    then show ?thesis using s3 Cons accepted_choice by simp
  qed
qed

lemma accepted_message_stop:
  assumes "accepted m0 s" "open_blocks s = [] \<or> c_terminal_sent s"
  shows "accepted m0 (emit (EvClaude CMessageStop) s)"
proof -
  obtain m where m: "watch_all (c_out s) m0 = Some m" "seen_by m s" using assms(1) by (auto simp: accepted_def)
  then have "m_open m = None \<or> m_late m" using assms(2) by (auto simp: seen_by_def split: option.splits)
  then show ?thesis using m by (intro acceptedI [of _ _ m]) (auto simp: watch_emit)
qed

lemma accepted_done: "accepted m0 s \<Longrightarrow> accepted m0 (claude_done s) \<and> open_blocks (claude_done s) = []"
proof -
  assume a: "accepted m0 s"
  let ?s = "progress (st_terminal ''message_stop'') (progress st_done (s\<lparr>c_done := True\<rparr>))"
  have "accepted m0 ?s" using a by simp
  then have "accepted m0 (stop_blocks ?s)" using accepted_stop by (auto simp: accepted_def)
  then have "accepted m0 (claude_terminal (stop_blocks ?s)) \<and> open_blocks (claude_terminal (stop_blocks ?s)) = []"
    using accepted_terminal [of m0 "stop_blocks ?s"] by simp
  then show ?thesis using accepted_message_stop by (simp add: claude_done_def)
qed

lemma accepted_line: "accepted m0 s \<Longrightarrow> claude_line line s = (None, s') \<Longrightarrow> accepted m0 s'"
  by (auto simp: claude_line_def decode_chunk_def split: option.splits if_splits prod.splits sum.splits bool.splits
      intro!: accepted_chunk accepted_done [THEN conjunct1])

lemma accepted_flush: "accepted m0 s \<Longrightarrow> accepted m0 (claude_flush s)"
  using accepted_terminal [of m0 s] accepted_message_stop by (auto simp: claude_flush_def Let_def)

end
