(* ===== verification/Chat_Responses.thy ===== *)
theory Chat_Responses
  imports Chat_Common
begin

text \<open>
  The Responses target of \<open>internal/adapter/chatcompletions/stream.go\<close>: output items are
  announced, streamed and closed one after the other, tool names are classified as they arrive,
  and the completed response is held until the usage trailer. Sequence numbers and output
  indices are unbounded here (the code's \<open>int64\<close> would need 2^63 events to wrap).

  Every handler gives the error it returns, if any, and the new state; the code drops the events
  of a call that returns an error.
\<close>

section \<open>Operations\<close>

definition remit :: "resp_body \<Rightarrow> cc \<Rightarrow> cc" where
  "remit b s = emit (EvResp (Some (c_seq s + 1), b)) (s\<lparr>c_seq := c_seq s + 1\<rparr>)"

definition put_item :: "int \<Rightarrow> out_item \<Rightarrow> cc \<Rightarrow> cc" where
  "put_item k i s = s\<lparr>c_items := AList.update k i (c_items s)\<rparr>"

definition stop_reasoning :: "cc \<Rightarrow> cc" where
  "stop_reasoning s =
     (if \<not> c_think_seen s \<or> c_think_stopped s then s
      else (let i = c_think_item s; k = c_think_in s; t = c_think_buf s
            in remit (RItemDone k (ReasonItem i t))
                 (remit (RReasonPartDone i k t)
                   (remit (RReasonTextDone i k t)
                     (put_item k (ReasonItem i t) (s\<lparr>c_think_stopped := True\<rparr>))))))"

definition close_text :: "string \<Rightarrow> cc \<Rightarrow> cc" where
  "close_text status s =
     (if c_msg_index s < 0 \<or> c_text_closed s then s
      else (let i = c_msg_item s; k = c_msg_index s; t = c_resp_text s
            in remit (RItemDone k (MsgDone i status t))
                 (remit (RPartDone i k t)
                   (remit (RTextDone i k t)
                     (put_item k (MsgItem i status t) (s\<lparr>c_text_closed := True\<rparr>))))))"

definition reasoning_item_id :: "string \<Rightarrow> int \<Rightarrow> string" where
  "reasoning_item_id response choice = ''rs_'' @ response @ ''_'' @ itoa choice"

definition resp_open_reasoning :: "cc \<Rightarrow> cc" where
  "resp_open_reasoning s0 =
     (let s = (if c_think_stopped s0
               then s0\<lparr>c_think_stopped := False, c_think_seen := False, c_think_buf := [],
                       c_ordinal := c_ordinal s0 + 1\<rparr>
               else s0)
      in if c_think_seen s then s
         else (let k = c_next s; i = reasoning_item_id (c_id s) (c_ordinal s)
               in remit (RReasonPartAdded i k)
                    (remit (RItemAdded k (ReasonOpen i))
                      (s\<lparr>c_think_seen := True, c_think_in := k, c_next := k + 1, c_think_item := i\<rparr>))))"

definition resp_thinking :: "string \<times> bool \<Rightarrow> cc \<Rightarrow> cc" where
  "resp_thinking r s =
     (if \<not> snd r then s
      else (let s1 = resp_open_reasoning (close_text ''completed'' s)
            in remit (RReasonDelta (c_think_item s1) (c_think_in s1) (fst r))
                 (s1\<lparr>c_think_buf := c_think_buf s1 @ fst r\<rparr>)))"

definition resp_open_text :: "cc \<Rightarrow> cc" where
  "resp_open_text s =
     (let s1 = (if c_msg_index s < 0 \<or> c_text_closed s
                then (let k = c_next s; i = ''msg_'' @ c_id s @ ''_'' @ itoa k
                      in remit (RItemAdded k (MsgOpenProgress i))
                           (s\<lparr>c_msg_index := k, c_next := k + 1, c_msg_item := i, c_text_closed := False,
                              c_part_open := False, c_resp_text := []\<rparr>))
                else s)
      in if c_part_open s1 then s1
         else remit (RTextPartAdded (c_msg_item s1) (c_msg_index s1)) (s1\<lparr>c_part_open := True\<rparr>))"

definition resp_content :: "string \<Rightarrow> cc \<Rightarrow> cc" where
  "resp_content content s =
     (if content = [] then s
      else (let s1 = resp_open_text (stop_reasoning s)
            in remit (RTextDelta (c_msg_item s1) (c_msg_index s1) content)
                 (s1\<lparr>c_resp_text := c_resp_text s1 @ content\<rparr>)))"

text \<open>The name of a call grows by chunks; a repeated or completed name replaces it.\<close>

definition merge_name :: "string \<Rightarrow> string \<Rightarrow> string" where
  "merge_name nm chunk =
     (if chunk = [] then nm
      else if nm = [] then chunk
      else if chunk = nm then nm
      else if has_prefix chunk nm then chunk
      else nm @ chunk)"

definition merge_delta :: "tool_delta \<Rightarrow> tool_st \<Rightarrow> tool_st" where
  "merge_delta tc t =
     t\<lparr>t_id := (if td_id tc \<noteq> [] \<and> \<not> t_announced t \<and> t_id t = [] then td_id tc else t_id t),
       t_name := (if t_announced t then t_name t else merge_name (t_name t) (td_name tc)),
       t_args := t_args t @ td_args tc\<rparr>"

definition output_name :: "tool_st \<Rightarrow> string" where
  "output_name t = (if id_name (t_ident t) \<noteq> [] then id_name (t_ident t) else t_name t)"

definition put_tool :: "int \<Rightarrow> tool_st \<Rightarrow> cc \<Rightarrow> cc" where
  "put_tool idx t s = s\<lparr>c_tools := AList.update idx t (c_tools s)\<rparr>"

definition resp_announce :: "int \<Rightarrow> tool_st \<Rightarrow> cc \<Rightarrow> tool_st \<times> cc" where
  "resp_announce idx t s =
     (let (kind, exact, wait) = classify_streamed_name (c_ctx s) (t_name t) in
      if \<not> t_announced t \<and> t_name t \<noteq> [] \<and> (exact \<or> \<not> wait)
      then (let t1 = t\<lparr>t_ident := (case resolve_chat_name (c_ctx s) (t_name t) of
                                   Some i \<Rightarrow> i | None \<Rightarrow> t_ident t),
                       t_custom := (exact \<and> kind = ''custom''), t_announced := True\<rparr>;
                open_item = (if t_custom t1 then CustomOpen else CallOpen)
            in (t1, remit (RItemAdded (t_block t1)
                     (open_item (t_id t1) (output_name t1) (id_namespace (t_ident t1)))) s))
      else (t, s))"

text \<open>Argument bytes not sent yet, when the call is announced as a function.\<close>

definition resp_pending :: "tool_st \<Rightarrow> cc \<Rightarrow> tool_st \<times> cc" where
  "resp_pending t s =
     (if t_sent t < length (t_args t)
      then (t\<lparr>t_sent := length (t_args t)\<rparr>,
            remit (RArgsDelta (t_id t) (t_block t) (drop (t_sent t) (t_args t))) s)
      else (t, s))"

definition resp_tool :: "tool_delta \<Rightarrow> cc \<Rightarrow> err option \<times> cc" where
  "resp_tool tc s =
     (let s1 = close_text ''completed'' (stop_reasoning s);
          idx = td_index tc;
          old = map_of (c_tools s1) idx
      in if (case old of None \<Rightarrow> False | Some t \<Rightarrow> t_done t \<and> td_args tc \<noteq> [])
         then (Some (translation ''tool call received arguments after completion''), s1)
         else (let (t0, s2) = (case old of
                     Some t \<Rightarrow> (t, s1)
                   | None \<Rightarrow> (new_tool (c_next s1) (td_id tc) [],
                              s1\<lparr>c_next := c_next s1 + 1, c_tools_seen := True\<rparr>));
                   (t1, s3) = resp_announce idx (merge_delta tc t0) s2;
                   (t2, s4) = (if t_announced t1 \<and> \<not> t_custom t1 then resp_pending t1 s3 else (t1, s3))
               in (None, put_tool idx t2 s4)))"

fun resp_tools :: "tool_delta list \<Rightarrow> cc \<Rightarrow> err option \<times> cc" where
  "resp_tools [] s = (None, s)"
| "resp_tools (tc # tcs) s =
     (case resp_tool tc s of (Some e, s') \<Rightarrow> (Some e, s') | (None, s') \<Rightarrow> resp_tools tcs s')"

text \<open>The loop over \<open>toolOrder\<close> at the finish reason.\<close>

definition finish_tool :: "int \<Rightarrow> tool_st \<Rightarrow> cc \<Rightarrow> err option \<times> cc" where
  "finish_tool idx t s =
     (let (t1, s1) = (if t_announced t then (t, s)
                      else (t\<lparr>t_announced := True\<rparr>,
                            remit (RItemAdded (t_block t) (CallOpen (t_id t) (t_name t) [])) s));
          (t2, s2) = (if t_custom t1 then (t1, s1) else resp_pending t1 s1);
          s3 = put_tool idx t2 s2
      in if t_custom t2 then
           (case unwrap_custom_tool_input (t_args t2) of Inl e \<Rightarrow> (Some e, s3) | Inr _ \<Rightarrow> (None, s3))
         else if json_valid (default_args (t_args t2)) then (None, s3)
         else (Some incomplete_tools, s3))"

fun finish_tools :: "int list \<Rightarrow> cc \<Rightarrow> err option \<times> cc" where
  "finish_tools [] s = (None, s)"
| "finish_tools (i # is) s =
     (case map_of (c_tools s) i of
        None \<Rightarrow> finish_tools is s
      | Some t \<Rightarrow> (case finish_tool i t s of (Some e, s') \<Rightarrow> (Some e, s') | (None, s') \<Rightarrow> finish_tools is s'))"

definition resp_finish :: "string \<Rightarrow> cc \<Rightarrow> err option \<times> cc" where
  "resp_finish fin s =
     (if fin = [] \<or> c_finished s then (None, s)
      else (case finish_tools (map fst (c_tools s)) s of
              (Some e, s') \<Rightarrow> (Some e, s')
            | (None, s') \<Rightarrow>
                (None, stop_reasoning (progress st_finish (s'\<lparr>c_finished := True, c_held := fin\<rparr>)))))"

section \<open>The terminal\<close>

definition close_tool :: "int \<Rightarrow> tool_st \<Rightarrow> cc \<Rightarrow> err option \<times> cc" where
  "close_tool idx t s =
     (if t_done t \<or> \<not> t_announced t then (None, s)
      else if t_custom t then
        (case unwrap_custom_tool_input (t_args t) of
           Inl e \<Rightarrow> (Some e, s)
         | Inr input \<Rightarrow>
             (let item = CustomItem (t_id t) (output_name t) (id_namespace (t_ident t)) input
              in (None, put_tool idx (t\<lparr>t_done := True\<rparr>) (put_item (t_block t) item
                   (remit (RItemDone (t_block t) item)
                     (remit (RCustomInputDone (t_id t) (t_block t) input) s))))))
      else (let args = default_args (t_args t) in
            if \<not> json_valid args then (None, s)
            else (let item = CallItem (t_id t) (output_name t) (id_namespace (t_ident t)) args ''completed''
                  in (None, put_tool idx (t\<lparr>t_done := True\<rparr>) (put_item (t_block t) item
                       (remit (RItemDone (t_block t) item)
                         (remit (RArgsDone (t_id t) (t_block t) args) s)))))))"

fun close_tools :: "int list \<Rightarrow> cc \<Rightarrow> err option \<times> cc" where
  "close_tools [] s = (None, s)"
| "close_tools (i # is) s =
     (case map_of (c_tools s) i of
        None \<Rightarrow> close_tools is s
      | Some t \<Rightarrow> (case close_tool i t s of (Some e, s') \<Rightarrow> (Some e, s') | (None, s') \<Rightarrow> close_tools is s'))"

definition cc_usage_details :: "cc_usage option \<Rightarrow> usage_details" where
  "cc_usage_details u =
     (case u of
        None \<Rightarrow> no_details
      | Some x \<Rightarrow> \<lparr>u_cached = (case cu_prompt_details x of None \<Rightarrow> None | Some c \<Rightarrow> c), u_cache_write = None,
                   u_reasoning = (case cu_completion_details x of None \<Rightarrow> None | Some c \<Rightarrow> c)\<rparr>)"

definition output_items :: "cc \<Rightarrow> out_item list" where
  "output_items s = List.map_filter (\<lambda>i. map_of (c_items s) (int i)) [0..<nat (c_next s)]"

definition resp_complete :: "string \<Rightarrow> cc \<Rightarrow> cc" where
  "resp_complete status s =
     (let usage = new_responses_usage_from (case c_usage s of None \<Rightarrow> 0 | Some u \<Rightarrow> cu_prompt u)
                    (case c_usage s of None \<Rightarrow> 0 | Some u \<Rightarrow> cu_completion u) (cc_usage_details (c_usage s));
          s1 = progress (st_terminal status) (s\<lparr>c_terminal_sent := True\<rparr>)
      in remit (RCompleted (c_id s) (c_model s) status usage (output_items s)) s1)"

definition resp_close :: "string \<Rightarrow> cc \<Rightarrow> err option \<times> cc" where
  "resp_close fin s =
     (let status = response_status_from_cc_finish fin;
          s1 = close_text (if status = ''incomplete'' then ''incomplete'' else ''completed'') (stop_reasoning s)
      in case close_tools (map fst (c_tools s1)) s1 of
           (Some e, s2) \<Rightarrow> (Some e, s2)
         | (None, s2) \<Rightarrow>
             (if list_ex (\<lambda>(_, t). \<not> t_done t) (c_tools s2)
              then (Some (translation ''tool call was incomplete when the stream ended''), s2)
              else (None, resp_complete status s2)))"

definition responses_terminal :: "bool \<Rightarrow> cc \<Rightarrow> err option \<times> cc" where
  "responses_terminal allow s =
     (if c_terminal_sent s then (None, s)
      else (let fin = c_held s; s0 = s\<lparr>c_held := []\<rparr> in
            if fin = [] \<and> \<not> allow then (None, s0)
            else if fin = [] \<and> \<not> c_started s0
            then (Some (translation ''Responses stream ended without any response events''), s0)
            else resp_close (if fin = [] then ''stop'' else fin) s0))"

section \<open>Lines\<close>

definition resp_start :: "cc_chunk \<Rightarrow> cc \<Rightarrow> cc" where
  "resp_start chunk s =
     (if c_started s \<or> ch_choices chunk = [] then s
      else progress st_start
        (remit (RInProgress (ch_id chunk) (ch_model chunk))
          (remit (RCreated (ch_id chunk) (ch_model chunk))
            (s\<lparr>c_started := True, c_id := ch_id chunk, c_model := ch_model chunk\<rparr>))))"

definition choice_changed :: "cc_choice \<Rightarrow> cc \<Rightarrow> bool" where
  "choice_changed c s =
     (snd (reasoning_text (cx_reasoning c)) \<or> cx_content c \<noteq> []
      \<or> list_ex (\<lambda>tc. td_id tc \<noteq> [] \<or> td_name tc \<noteq> [] \<or> td_args tc \<noteq> []) (cx_tools c)
      \<or> (cx_finish c \<noteq> [] \<and> \<not> c_finished s))"

definition resp_choice :: "bool \<Rightarrow> cc_choice \<Rightarrow> cc \<Rightarrow> err option \<times> cc" where
  "resp_choice started_now c s =
     (case resp_tools (cx_tools c)
             (resp_content (cx_content c) (resp_thinking (reasoning_text (cx_reasoning c)) s)) of
        (Some e, s1) \<Rightarrow> (Some e, s1)
      | (None, s1) \<Rightarrow>
          (case resp_finish (cx_finish c) s1 of
             (Some e, s2) \<Rightarrow> (Some e, s2)
           | (None, s2) \<Rightarrow>
               (let changed = (started_now \<or> choice_changed c s) in
                (None,
                 if changed \<and> \<not> s_started (c_snap s2) \<and> c_started s2 then progress st_advance s2
                 else if changed \<and> cx_finish c = [] \<and> c_started s2 then progress st_advance s2
                 else s2))))"

definition responses_chunk :: "cc_chunk \<Rightarrow> cc \<Rightarrow> err option \<times> cc" where
  "responses_chunk chunk s =
     (case (if c_held s \<noteq> [] then responses_terminal False s else (None, s)) of
        (Some e, s1) \<Rightarrow> (Some e, s1)
      | (None, s1) \<Rightarrow>
          (let s2 = usage_step (ch_usage chunk) s1; s3 = resp_start chunk s2
           in case ch_choices chunk of
                [] \<Rightarrow> (None, s3)
              | c # _ \<Rightarrow> resp_choice (\<not> c_started s2) c s3))"

definition responses_line :: "string \<Rightarrow> cc \<Rightarrow> err option \<times> cc" where
  "responses_line line s =
     (case sse_data line of
        None \<Rightarrow> (None, s)
      | Some data \<Rightarrow>
          (if data = [] then (None, s)
           else if is_sse_done data then
             (case responses_terminal True (stop_reasoning s) of
                (Some e, s1) \<Rightarrow> (Some e, s1)
              | (None, s1) \<Rightarrow> (None, progress st_done (s1\<lparr>c_done := True\<rparr>)))
           else (case decode_chunk data s of
                   (Inl e, s') \<Rightarrow> (Some e, s')
                 | (Inr chunk, s') \<Rightarrow> responses_chunk chunk s')))"

end
