(* ===== verification/Responses_Lifecycle.thy ===== *)
theory Responses_Lifecycle
  imports Chat_Responses
begin

text \<open>
  The lifecycle of output items in a Responses stream synthesized from chat completion chunks
  (the handlers of Chat_Responses): a monitor of the events a client sees, the invariant that ties
  it to the state, and one preservation lemma per handler, up to whole lines.
\<close>

section \<open>The lifecycle of output items\<close>

text \<open>
  A monitor of a synthesized Responses stream: sequence numbers count up by one, response.created
  comes first and once, an item is announced at a fresh index, every delta and done event refers
  to an announced item that is not done, and response.completed comes at most once, when no item
  is open, with as many output items as were done.
\<close>

record rmonitor =
  rm_seq :: int
  rm_created :: bool
  rm_open :: "int set"
  rm_done :: "int set"
  rm_completed :: bool

definition rmonitor_zero :: rmonitor where
  "rmonitor_zero = \<lparr>rm_seq = 0, rm_created = False, rm_open = {}, rm_done = {}, rm_completed = False\<rparr>"

text \<open>The index of the item an event refers to.\<close>

fun item_index :: "resp_body \<Rightarrow> int option" where
  "item_index (RTextPartAdded _ k) = Some k"
| "item_index (RTextDelta _ k _) = Some k"
| "item_index (RTextDone _ k _) = Some k"
| "item_index (RPartDone _ k _) = Some k"
| "item_index (RCustomInputDone _ k _) = Some k"
| "item_index (RArgsDelta _ k _) = Some k"
| "item_index (RArgsDone _ k _) = Some k"
| "item_index (RReasonPartAdded _ k) = Some k"
| "item_index (RReasonDelta _ k _) = Some k"
| "item_index (RReasonTextDone _ k _) = Some k"
| "item_index (RReasonPartDone _ k _) = Some k"
| "item_index _ = None"

fun rbody :: "resp_body \<Rightarrow> rmonitor \<Rightarrow> rmonitor option" where
  "rbody (RCreated _ _) m = (if rm_created m then None else Some (m\<lparr>rm_created := True\<rparr>))"
| "rbody (RInProgress _ _) m = (if rm_created m then Some m else None)"
| "rbody (RItemAdded k _) m =
     (if rm_created m \<and> k \<notin> rm_open m \<and> k \<notin> rm_done m then Some (m\<lparr>rm_open := insert k (rm_open m)\<rparr>) else None)"
| "rbody (RItemDone k _) m =
     (if k \<in> rm_open m then Some (m\<lparr>rm_open := rm_open m - {k}, rm_done := insert k (rm_done m)\<rparr>) else None)"
| "rbody (RCompleted _ _ _ _ output) m =
     (if rm_open m = {} \<and> \<not> rm_completed m \<and> length output = card (rm_done m)
      then Some (m\<lparr>rm_completed := True\<rparr>) else None)"
| "rbody b m = (case item_index b of Some k \<Rightarrow> if k \<in> rm_open m then Some m else None | None \<Rightarrow> None)"

definition rwatch :: "event \<Rightarrow> rmonitor \<Rightarrow> rmonitor option" where
  "rwatch e m =
     (case e of
        EvResp (Some n, b) \<Rightarrow> if n = rm_seq m + 1 then rbody b (m\<lparr>rm_seq := n\<rparr>) else None
      | _ \<Rightarrow> None)"

fun rwatch_all :: "event list \<Rightarrow> rmonitor \<Rightarrow> rmonitor option" where
  "rwatch_all [] m = Some m"
| "rwatch_all (e # es) m = Option.bind (rwatch e m) (rwatch_all es)"

lemma rwatch_append: "rwatch_all (xs @ ys) m = Option.bind (rwatch_all xs m) (rwatch_all ys)"
  by (induction xs arbitrary: m) (auto simp: Option.bind_assoc split: Option.bind_split)

text \<open>The items of a state: closed ones, and those a later event may still refer to.\<close>

definition keys :: "cc \<Rightarrow> int set" where
  "keys s = fst ` set (c_items s)"

definition think_live :: "cc \<Rightarrow> bool" where
  "think_live s = (c_think_seen s \<and> \<not> c_think_stopped s)"

definition text_live :: "cc \<Rightarrow> bool" where
  "text_live s = (0 \<le> c_msg_index s \<and> \<not> c_text_closed s)"

definition tool_lives :: "(int \<times> tool_st) list \<Rightarrow> int list" where
  "tool_lives ts = map (\<lambda>x. t_block (snd x)) (filter (\<lambda>x. \<not> t_done (snd x)) ts)"

definition lives :: "cc \<Rightarrow> int list" where
  "lives s = (if think_live s then [c_think_in s] else []) @ (if text_live s then [c_msg_index s] else [])
     @ tool_lives (c_tools s)"

definition tool_opens :: "(int \<times> tool_st) list \<Rightarrow> int set" where
  "tool_opens ts = (\<lambda>x. t_block (snd x)) ` {x \<in> set ts. t_announced (snd x) \<and> \<not> t_done (snd x)}"

definition opens :: "cc \<Rightarrow> int set" where
  "opens s = (if think_live s then {c_think_in s} else {}) \<union> (if text_live s then {c_msg_index s} else {})
     \<union> tool_opens (c_tools s)"

definition tool_ok :: "tool_st \<Rightarrow> bool" where
  "tool_ok t = ((t_done t \<longrightarrow> t_announced t) \<and> (t_announced t \<and> \<not> t_custom t \<longrightarrow> t_sent t = length (t_args t)))"

definition sound :: "cc \<Rightarrow> bool" where
  "sound s =
     (distinct (map fst (c_tools s)) \<and> (\<forall>x \<in> set (c_tools s). tool_ok (snd x))
      \<and> distinct (lives s) \<and> set (lives s) \<inter> keys s = {}
      \<and> (\<forall>k \<in> set (lives s) \<union> keys s. 0 \<le> k \<and> k < c_next s) \<and> 0 \<le> c_next s)"

definition tracks :: "rmonitor \<Rightarrow> cc \<Rightarrow> bool" where
  "tracks m s =
     (rm_seq m = c_seq s \<and> rm_created m = c_started s \<and> rm_open m = opens s \<and> rm_done m = keys s
      \<and> rm_completed m = c_terminal_sent s)"

definition tracked :: "rmonitor \<Rightarrow> cc \<Rightarrow> bool" where
  "tracked m0 s = (sound s \<and> (\<exists>m. rwatch_all (c_out s) m0 = Some m \<and> tracks m s))"

lemma trackedI: "sound s \<Longrightarrow> rwatch_all (c_out s) m0 = Some m \<Longrightarrow> tracks m s \<Longrightarrow> tracked m0 s"
  by (auto simp: tracked_def)

lemma rwatch_single: "rwatch_all [e] = rwatch e"
proof
  show "rwatch_all [e] m = rwatch e m" for m by (cases "rwatch e m") simp_all
qed

lemma watch_remit:
  assumes "rwatch_all (c_out s) m0 = Some m" "rm_seq m = c_seq s"
  shows "rwatch_all (c_out (remit b s)) m0 = rbody b (m\<lparr>rm_seq := c_seq s + 1\<rparr>)"
  using assms by (simp add: remit_def emit_def rwatch_append rwatch_single rwatch_def)

lemma remit_fields [simp]:
  "c_seq (remit b s) = c_seq s + 1" "c_started (remit b s) = c_started s" "c_items (remit b s) = c_items s"
  "c_terminal_sent (remit b s) = c_terminal_sent s" "c_tools (remit b s) = c_tools s" "c_next (remit b s) = c_next s"
  "c_think_seen (remit b s) = c_think_seen s" "c_think_stopped (remit b s) = c_think_stopped s"
  "c_think_in (remit b s) = c_think_in s" "c_msg_index (remit b s) = c_msg_index s"
  "c_text_closed (remit b s) = c_text_closed s" "c_think_item (remit b s) = c_think_item s"
  "c_held (remit b s) = c_held s" "c_ctx (remit b s) = c_ctx s" "c_msg_item (remit b s) = c_msg_item s"
  by (simp_all add: remit_def emit_def)

lemma remit_views [simp]:
  "keys (remit b s) = keys s" "lives (remit b s) = lives s" "opens (remit b s) = opens s" "sound (remit b s) = sound s"
  "think_live (remit b s) = think_live s" "text_live (remit b s) = text_live s"
  by (simp_all add: keys_def lives_def opens_def sound_def think_live_def text_live_def)

text \<open>An event that refers to an open item.\<close>

lemma tracked_refer:
  assumes "tracked m0 s" "item_index b = Some k" "k \<in> opens s"
  shows "tracked m0 (remit b s)"
proof -
  obtain m where m: "sound s" "rwatch_all (c_out s) m0 = Some m" "tracks m s" using assms(1) by (auto simp: tracked_def)
  let ?m = "m\<lparr>rm_seq := c_seq s + 1\<rparr>"
  have "rbody b ?m = Some ?m" using assms(2,3) m(3) by (cases b) (auto simp: tracks_def)
  then have "rwatch_all (c_out (remit b s)) m0 = Some ?m" using watch_remit [OF m(2)] m(3) by (simp add: tracks_def)
  then show ?thesis using m by (intro trackedI) (auto simp: tracks_def)
qed

text \<open>The announcement of an item: \<open>s'\<close> has it open.\<close>

lemma tracked_add:
  assumes "tracked m0 s" "c_started s"
    and "sound s'" "c_out s' = c_out s" "c_seq s' = c_seq s" "c_started s'" "keys s' = keys s"
      "c_terminal_sent s' = c_terminal_sent s" "opens s' = insert k (opens s)" "k \<notin> opens s" "k \<notin> keys s"
  shows "tracked m0 (remit (RItemAdded k i) s')"
proof -
  obtain m where m: "rwatch_all (c_out s) m0 = Some m" "tracks m s" using assms(1) by (auto simp: tracked_def)
  let ?m = "m\<lparr>rm_seq := c_seq s + 1, rm_open := insert k (opens s)\<rparr>"
  have "rwatch_all (c_out (remit (RItemAdded k i) s')) m0 = Some ?m"
    using watch_remit [of s' m0 m] m assms by (simp add: tracks_def)
  then show ?thesis using m assms by (intro trackedI [where m = ?m]) (auto simp: tracks_def)
qed

text \<open>The done event of an open item: \<open>s'\<close> has it closed.\<close>

lemma tracked_close:
  assumes "tracked m0 s" "k \<in> opens s"
    and "sound s'" "c_out s' = c_out s" "c_seq s' = c_seq s" "c_started s' = c_started s"
      "c_terminal_sent s' = c_terminal_sent s" "opens s' = opens s - {k}" "keys s' = insert k (keys s)"
    and "rest = [b1] \<or> rest = [b1, b2]" "item_index b1 = Some k" "item_index b2 = Some k"
  shows "tracked m0 (remit (RItemDone k i) (fold remit rest s'))"
proof -
  obtain m where m: "rwatch_all (c_out s) m0 = Some m" "tracks m s" using assms(1) by (auto simp: tracked_def)
  have step: "rwatch_all (c_out (remit b u)) m0 = Some (n\<lparr>rm_seq := c_seq u + 1\<rparr>)"
    if "rwatch_all (c_out u) m0 = Some n" "rm_seq n = c_seq u" "item_index b = Some k" "k \<in> rm_open n" for u n b
    using watch_remit [OF that(1,2), of b] that(3,4) by (cases b) auto
  have s': "rwatch_all (c_out s') m0 = Some m" "rm_seq m = c_seq s'" "k \<in> rm_open m"
    using m assms by (auto simp: tracks_def)
  let ?u = "fold remit rest s'"
  have "\<exists>n. rwatch_all (c_out ?u) m0 = Some n \<and> n = m\<lparr>rm_seq := c_seq ?u\<rparr>"
  proof -
    have b1: "rwatch_all (c_out (remit b1 s')) m0 = Some (m\<lparr>rm_seq := c_seq s' + 1\<rparr>)"
      using step [OF s'(1,2) assms(11) s'(3)] .
    have "rwatch_all (c_out (remit b2 (remit b1 s'))) m0 = Some (m\<lparr>rm_seq := c_seq s' + 2\<rparr>)"
      using step [OF b1 _ assms(12)] s'(3) by simp
    then show ?thesis using b1 assms(10) by auto
  qed
  then have "rwatch_all (c_out (remit (RItemDone k i) ?u)) m0
      = Some (m\<lparr>rm_seq := c_seq ?u + 1, rm_open := rm_open m - {k}, rm_done := insert k (rm_done m)\<rparr>)"
    using watch_remit [of ?u m0 _ "RItemDone k i"] s'(3) by auto
  moreover have "keys ?u = keys s'" "opens ?u = opens s'" "sound ?u = sound s'" "c_started ?u = c_started s'"
      "c_terminal_sent ?u = c_terminal_sent s'"
    using assms(10) by auto
  ultimately show ?thesis using m assms
    by (intro trackedI [where m = "m\<lparr>rm_seq := c_seq ?u + 1, rm_open := rm_open m - {k}, rm_done := insert k (rm_done m)\<rparr>"])
      (auto simp: tracks_def)
qed

lemma opens_lives: "tool_opens ts \<subseteq> set (tool_lives ts)"
  by (auto simp: tool_opens_def tool_lives_def)

lemma keys_put [simp]: "keys (put_item k i s) = insert k (keys s)"
  by (simp add: keys_def put_item_def dom_update)

lemma keys_more [simp]:
  "keys (s\<lparr>c_think_stopped := b\<rparr>) = keys s" "keys (s\<lparr>c_text_closed := b\<rparr>) = keys s"
  "keys (s\<lparr>c_tools := ts\<rparr>) = keys s"
  by (simp_all add: keys_def)

lemma put_item_fields [simp]:
  "c_out (put_item k i s) = c_out s" "c_seq (put_item k i s) = c_seq s" "c_started (put_item k i s) = c_started s"
  "c_terminal_sent (put_item k i s) = c_terminal_sent s" "c_tools (put_item k i s) = c_tools s"
  "c_next (put_item k i s) = c_next s" "think_live (put_item k i s) = think_live s"
  "text_live (put_item k i s) = text_live s" "lives (put_item k i s) = lives s" "opens (put_item k i s) = opens s"
  "c_held (put_item k i s) = c_held s" "c_think_in (put_item k i s) = c_think_in s"
  "c_msg_index (put_item k i s) = c_msg_index s" "c_think_seen (put_item k i s) = c_think_seen s"
  "c_think_stopped (put_item k i s) = c_think_stopped s" "c_text_closed (put_item k i s) = c_text_closed s"
  by (simp_all add: put_item_def think_live_def text_live_def lives_def opens_def)

lemma tracked_sound: "tracked m s \<Longrightarrow> sound s"
  by (simp add: tracked_def)

lemma sound_bound: "sound s \<Longrightarrow> k \<in> set (lives s) \<or> k \<in> keys s \<Longrightarrow> 0 \<le> k \<and> k < c_next s"
  by (auto simp: sound_def)

lemma sound_extend:
  assumes "sound s" "set (lives s') = insert (c_next s) (set (lives s))" "distinct (lives s')" "keys s' = keys s"
    "distinct (map fst (c_tools s'))" "\<forall>x \<in> set (c_tools s'). tool_ok (snd x)" "c_next s' = c_next s + 1"
  shows "sound s'"
proof -
  have n: "0 \<le> c_next s" using assms(1) by (simp add: sound_def)
  have b: "0 \<le> k \<and> k < c_next s + 1" if "k \<in> set (lives s') \<union> keys s'" for k
    using sound_bound [OF assms(1), of k] n that assms(2,4) by force
  have "c_next s \<notin> keys s" using sound_bound [OF assms(1), of "c_next s"] by auto
  then have "set (lives s') \<inter> keys s' = {}" using assms(1,2,4) by (auto simp: sound_def)
  then show ?thesis using assms b n by (simp add: sound_def)
qed

text \<open>What the closing operations keep.\<close>

definition same_frame :: "cc \<Rightarrow> cc \<Rightarrow> bool" where
  "same_frame s s' = (c_started s' = c_started s \<and> c_held s' = c_held s \<and> c_terminal_sent s' = c_terminal_sent s)"

lemma tracked_stop_reasoning:
  assumes t: "tracked m0 s"
  shows "tracked m0 (stop_reasoning s) \<and> \<not> think_live (stop_reasoning s) \<and> same_frame s (stop_reasoning s)
    \<and> c_tools (stop_reasoning s) = c_tools s \<and> text_live (stop_reasoning s) = text_live s"
proof (cases "think_live s")
  case True
  let ?k = "c_think_in s" and ?i = "c_think_item s" and ?t = "c_think_buf s"
  let ?s' = "put_item ?k (ReasonItem ?i ?t) (s\<lparr>c_think_stopped := True\<rparr>)"
  have e: "stop_reasoning s = remit (RItemDone ?k (ReasonItem ?i ?t))
      (fold remit [RReasonTextDone ?i ?k ?t, RReasonPartDone ?i ?k ?t] ?s')"
    using True by (simp add: stop_reasoning_def think_live_def Let_def)
  have l: "lives s = ?k # (if text_live s then [c_msg_index s] else []) @ tool_lives (c_tools s)"
    using True by (simp add: lives_def)
  have l': "lives ?s' = (if text_live s then [c_msg_index s] else []) @ tool_lives (c_tools s)"
    by (simp add: lives_def think_live_def text_live_def)
  have k: "?k \<in> opens s" using True by (simp add: opens_def)
  have o: "opens ?s' = opens s - {?k}"
  proof -
    have "?k \<notin> set (lives ?s')" using tracked_sound [OF t] l l' by (simp add: sound_def)
    then have "?k \<notin> opens ?s'" using l' opens_lives [of "c_tools s"]
      by (auto simp: opens_def think_live_def text_live_def split: if_splits)
    moreover have "opens s = insert ?k (opens ?s')" using True by (auto simp: opens_def think_live_def text_live_def)
    ultimately show ?thesis by simp
  qed
  have "sound ?s'" using tracked_sound [OF t] l l' by (auto simp: sound_def keys_def put_item_def dom_update)
  then have "tracked m0 (remit (RItemDone ?k (ReasonItem ?i ?t))
      (fold remit [RReasonTextDone ?i ?k ?t, RReasonPartDone ?i ?k ?t] ?s'))"
    by (intro tracked_close [OF t, where k = ?k and ?b1.0 = "RReasonTextDone ?i ?k ?t" and ?b2.0 = "RReasonPartDone ?i ?k ?t"])
      (use o k in simp_all)
  then show ?thesis unfolding e by (simp add: same_frame_def think_live_def text_live_def)
next
  case False
  then have "stop_reasoning s = s" by (auto simp: stop_reasoning_def think_live_def)
  then show ?thesis using t False by (simp add: same_frame_def)
qed

lemma tracked_close_text:
  assumes t: "tracked m0 s"
  shows "tracked m0 (close_text st s) \<and> \<not> text_live (close_text st s) \<and> same_frame s (close_text st s)
    \<and> c_tools (close_text st s) = c_tools s \<and> think_live (close_text st s) = think_live s"
proof (cases "text_live s")
  case True
  let ?k = "c_msg_index s" and ?i = "c_msg_item s" and ?t = "c_resp_text s"
  let ?s' = "put_item ?k (MsgItem ?i st ?t) (s\<lparr>c_text_closed := True\<rparr>)"
  have e: "close_text st s = remit (RItemDone ?k (MsgDone ?i st ?t))
      (fold remit [RTextDone ?i ?k ?t, RPartDone ?i ?k ?t] ?s')"
    using True by (simp add: close_text_def text_live_def Let_def)
  have l: "lives s = (if think_live s then [c_think_in s] else []) @ ?k # tool_lives (c_tools s)"
    using True by (simp add: lives_def)
  have l': "lives ?s' = (if think_live s then [c_think_in s] else []) @ tool_lives (c_tools s)"
    by (simp add: lives_def think_live_def text_live_def)
  have d: "distinct (lives s)" using tracked_sound [OF t] by (simp add: sound_def)
  have k: "?k \<in> opens s" using True by (simp add: opens_def)
  have o: "opens ?s' = opens s - {?k}"
  proof -
    have "?k \<notin> set (lives ?s')" using d l l' by auto
    then have "?k \<notin> opens ?s'" using l' opens_lives [of "c_tools s"]
      by (auto simp: opens_def think_live_def text_live_def split: if_splits)
    moreover have "opens s = insert ?k (opens ?s')" using True by (auto simp: opens_def think_live_def text_live_def)
    ultimately show ?thesis by simp
  qed
  have "sound ?s'" using tracked_sound [OF t] d l l' by (auto simp: sound_def keys_def put_item_def dom_update)
  then have "tracked m0 (remit (RItemDone ?k (MsgDone ?i st ?t)) (fold remit [RTextDone ?i ?k ?t, RPartDone ?i ?k ?t] ?s'))"
    by (intro tracked_close [OF t, where k = ?k and ?b1.0 = "RTextDone ?i ?k ?t" and ?b2.0 = "RPartDone ?i ?k ?t"])
      (use o k in simp_all)
  then show ?thesis unfolding e by (simp add: same_frame_def think_live_def text_live_def)
next
  case False
  then have "close_text st s = s" by (auto simp: close_text_def text_live_def)
  then show ?thesis using t False by (simp add: same_frame_def)
qed

text \<open>Fields that neither the monitor nor the lifecycle depends on.\<close>

lemma tracked_more [simp]:
  "tracked m (s\<lparr>c_think_buf := a\<rparr>) = tracked m s" "tracked m (s\<lparr>c_resp_text := a\<rparr>) = tracked m s"
  "tracked m (s\<lparr>c_snap := b\<rparr>) = tracked m s" "tracked m (s\<lparr>c_usage := u\<rparr>) = tracked m s"
  "tracked m (s\<lparr>c_usage_progress := p\<rparr>) = tracked m s" "tracked m (s\<lparr>c_done := d\<rparr>) = tracked m s"
  "tracked m (s\<lparr>c_part_open := d\<rparr>) = tracked m s" "tracked m (s\<lparr>c_held := h\<rparr>) = tracked m s"
  "tracked m (s\<lparr>c_finished := d\<rparr>) = tracked m s" "tracked m (s\<lparr>c_tools_seen := d\<rparr>) = tracked m s"
  by (simp_all add: tracked_def tracks_def sound_def lives_def opens_def keys_def think_live_def text_live_def)

lemma tracked_progress [simp]: "tracked m (progress f s) = tracked m s"
  by (simp add: progress_def)

lemma tracked_usage [simp]: "tracked m (usage_step u s) = tracked m s"
  by (simp add: usage_step_def split: option.splits)

lemma tracked_open_reasoning:
  assumes t: "tracked m0 s" and st: "c_started s"
  shows "tracked m0 (resp_open_reasoning s) \<and> think_live (resp_open_reasoning s) \<and> c_started (resp_open_reasoning s)
    \<and> c_held (resp_open_reasoning s) = c_held s \<and> c_terminal_sent (resp_open_reasoning s) = c_terminal_sent s"
proof (cases "think_live s")
  case True
  then have "resp_open_reasoning s = s" by (simp add: resp_open_reasoning_def think_live_def Let_def)
  then show ?thesis using t True st by simp
next
  case False
  define s1 where "s1 = (if c_think_stopped s
     then s\<lparr>c_think_stopped := False, c_think_seen := False, c_think_buf := [], c_ordinal := c_ordinal s + 1\<rparr> else s)"
  let ?k = "c_next s"
  let ?i = "reasoning_item_id (c_id s1) (c_ordinal s1)"
  let ?s' = "s1\<lparr>c_think_seen := True, c_think_in := ?k, c_next := ?k + 1, c_think_item := ?i\<rparr>"
  have e: "resp_open_reasoning s = remit (RReasonPartAdded ?i ?k) (remit (RItemAdded ?k (ReasonOpen ?i)) ?s')"
    using False by (auto simp: resp_open_reasoning_def s1_def think_live_def Let_def)
  have so: "sound s" using t by (rule tracked_sound)
  have v: "c_tools ?s' = c_tools s" "c_items ?s' = c_items s" "text_live ?s' = text_live s" "think_live ?s'"
      "c_msg_index ?s' = c_msg_index s" "c_out ?s' = c_out s" "c_seq ?s' = c_seq s" "c_started ?s' = c_started s"
      "c_terminal_sent ?s' = c_terminal_sent s" "c_held ?s' = c_held s"
    using False by (auto simp: s1_def text_live_def think_live_def)
  have l: "lives ?s' = ?k # lives s" using False v by (simp add: lives_def)
  have fresh: "?k \<notin> set (lives s)" "?k \<notin> keys s" using so by (auto simp: sound_def)
  have sub: "opens s \<subseteq> set (lives s)" using opens_lives [of "c_tools s"] by (auto simp: opens_def lives_def)
  have "keys ?s' = keys s" using v(2) by (simp only: keys_def)
  then have "sound ?s'" using so l fresh v(1) by (intro sound_extend [OF so]) (auto simp: sound_def)
  moreover have "opens ?s' = insert ?k (opens s)" using False v by (auto simp: opens_def)
  ultimately have "tracked m0 (remit (RItemAdded ?k (ReasonOpen ?i)) ?s')"
    using v st fresh sub by (intro tracked_add [OF t st]) (auto simp: keys_def)
  then have "tracked m0 (resp_open_reasoning s)" unfolding e
    by (rule tracked_refer [where k = ?k]) (use v in \<open>auto simp: opens_def\<close>)
  then show ?thesis using v st by (simp add: e)
qed

lemma tracked_thinking:
  assumes "tracked m0 s" "c_started s"
  shows "tracked m0 (resp_thinking r s) \<and> c_started (resp_thinking r s)"
proof (cases "snd r")
  case True
  define s1 where "s1 = resp_open_reasoning (close_text ''completed'' s)"
  have "tracked m0 (close_text ''completed'' s) \<and> c_started (close_text ''completed'' s)"
    using tracked_close_text [OF assms(1)] assms(2) by (simp add: same_frame_def)
  then have s1: "tracked m0 s1" "think_live s1" "c_started s1"
    using tracked_open_reasoning by (auto simp: s1_def)
  have "tracked m0 (remit (RReasonDelta (c_think_item s1) (c_think_in s1) (fst r)) (s1\<lparr>c_think_buf := c_think_buf s1 @ fst r\<rparr>))"
    by (rule tracked_refer) (use s1 in \<open>auto simp: opens_def think_live_def\<close>)
  then show ?thesis using True s1 by (simp add: resp_thinking_def s1_def [symmetric] Let_def)
qed (use assms in \<open>simp add: resp_thinking_def\<close>)

lemma tracked_open_text:
  assumes t: "tracked m0 s" and st: "c_started s"
  shows "tracked m0 (resp_open_text s) \<and> text_live (resp_open_text s) \<and> c_started (resp_open_text s)"
proof -
  define s1 where "s1 = (if c_msg_index s < 0 \<or> c_text_closed s
    then (let k = c_next s; i = ''msg_'' @ c_id s @ ''_'' @ itoa k
          in remit (RItemAdded k (MsgOpenProgress i))
               (s\<lparr>c_msg_index := k, c_next := k + 1, c_msg_item := i, c_text_closed := False,
                  c_part_open := False, c_resp_text := []\<rparr>)) else s)"
  have s1: "tracked m0 s1 \<and> text_live s1 \<and> c_started s1"
  proof (cases "text_live s")
    case True
    then have "s1 = s" by (simp add: s1_def text_live_def)
    then show ?thesis using t st True by simp
  next
    case False
    let ?k = "c_next s" and ?i = "''msg_'' @ c_id s @ ''_'' @ itoa (c_next s)"
    let ?s' = "s\<lparr>c_msg_index := ?k, c_next := ?k + 1, c_msg_item := ?i, c_text_closed := False,
                  c_part_open := False, c_resp_text := []\<rparr>"
    have so: "sound s" using t by (rule tracked_sound)
    have e: "s1 = remit (RItemAdded ?k (MsgOpenProgress ?i)) ?s'"
      using False by (auto simp: s1_def text_live_def Let_def)
    have live: "text_live ?s'" "think_live ?s' = think_live s" "keys ?s' = keys s"
      using so by (auto simp: text_live_def think_live_def sound_def keys_def)
    have l: "lives ?s' = (if think_live s then [c_think_in s] else []) @ ?k # tool_lives (c_tools s)"
      "lives s = (if think_live s then [c_think_in s] else []) @ tool_lives (c_tools s)"
      using False live by (auto simp: lives_def)
    have fresh: "?k \<notin> set (lives s)" "?k \<notin> keys s" using sound_bound [OF so, of ?k] by auto
    have sub: "opens s \<subseteq> set (lives s)" using opens_lives [of "c_tools s"] by (auto simp: opens_def lives_def)
    have "sound ?s'" using so l fresh live(3)
      by (intro sound_extend [OF so]) (auto simp: sound_def)
    moreover have "opens ?s' = insert ?k (opens s)" using False live by (auto simp: opens_def)
    ultimately have "tracked m0 s1"
      unfolding e using st fresh sub live(3) by (intro tracked_add [OF t st]) auto
    then show ?thesis using live st by (simp add: e)
  qed
  have "tracked m0 (resp_open_text s)"
  proof (cases "c_part_open s1")
    case True
    then show ?thesis using s1 by (simp add: resp_open_text_def s1_def [symmetric] Let_def)
  next
    case False
    have "tracked m0 (remit (RTextPartAdded (c_msg_item s1) (c_msg_index s1)) (s1\<lparr>c_part_open := True\<rparr>))"
      by (rule tracked_refer) (use s1 in \<open>auto simp: opens_def text_live_def\<close>)
    then show ?thesis using False by (simp add: resp_open_text_def s1_def [symmetric] Let_def)
  qed
  then show ?thesis using s1 by (auto simp: resp_open_text_def s1_def [symmetric] Let_def text_live_def)
qed

lemma tracked_content:
  assumes "tracked m0 s" "c_started s"
  shows "tracked m0 (resp_content t s) \<and> c_started (resp_content t s)"
proof (cases "t = []")
  case False
  define s1 where "s1 = resp_open_text (stop_reasoning s)"
  have "tracked m0 (stop_reasoning s) \<and> c_started (stop_reasoning s)"
    using tracked_stop_reasoning [OF assms(1)] assms(2) by (simp add: same_frame_def)
  then have s1: "tracked m0 s1" "text_live s1" "c_started s1"
    using tracked_open_text by (auto simp: s1_def)
  have "tracked m0 (remit (RTextDelta (c_msg_item s1) (c_msg_index s1) t) (s1\<lparr>c_resp_text := c_resp_text s1 @ t\<rparr>))"
    by (rule tracked_refer) (use s1 in \<open>auto simp: opens_def text_live_def\<close>)
  then show ?thesis using False s1 by (simp add: resp_content_def s1_def [symmetric] Let_def)
qed (use assms in \<open>simp add: resp_content_def\<close>)

subsection \<open>Tools\<close>

lemma tool_lives_Cons [simp]:
  "tool_lives [] = []"
  "tool_lives (x # ts) = (if t_done (snd x) then tool_lives ts else t_block (snd x) # tool_lives ts)"
  by (simp_all add: tool_lives_def)

lemma tool_opens_Cons [simp]:
  "tool_opens [] = {}"
  "tool_opens (x # ts) = (if t_announced (snd x) \<and> \<not> t_done (snd x)
     then insert (t_block (snd x)) (tool_opens ts) else tool_opens ts)"
  by (auto simp: tool_opens_def)

lemma tools_update:
  assumes "map_of ts i = Some t" "t_block v = t_block t" "t_done v = t_done t" "t_announced t \<longrightarrow> t_announced v"
  shows "tool_lives (AList.update i v ts) = tool_lives ts"
    and "tool_opens (AList.update i v ts)
      = (if t_announced v \<and> \<not> t_done v then insert (t_block v) (tool_opens ts) else tool_opens ts)"
    and "map fst (AList.update i v ts) = map fst ts"
  using assms by (induction ts) (auto split: if_splits)

lemma live_member: "map_of ts i = Some t \<Longrightarrow> \<not> t_done t \<Longrightarrow> t_block t \<in> set (tool_lives ts)"
  by (induction ts) (auto split: if_splits)

lemma unannounced_closed:
  "distinct (tool_lives ts) \<Longrightarrow> map_of ts i = Some t \<Longrightarrow> \<not> t_announced t \<Longrightarrow> \<not> t_done t \<Longrightarrow> t_block t \<notin> tool_opens ts"
proof (induction ts)
  case (Cons x ts)
  then show ?case using live_member [of ts i t] opens_lives [of ts] by (auto split: if_splits)
qed simp

lemma update_tool_ok:
  "\<forall>x \<in> set ts. tool_ok (snd x) \<Longrightarrow> tool_ok v \<Longrightarrow> \<forall>x \<in> set (AList.update i v ts). tool_ok (snd x)"
  by (induction ts) auto

lemma put_tool_remit: "put_tool i t (remit b s) = remit b (put_tool i t s)"
  by (simp add: put_tool_def remit_def emit_def)

lemma put_tool_fields [simp]:
  "c_out (put_tool i t s) = c_out s" "c_seq (put_tool i t s) = c_seq s" "c_started (put_tool i t s) = c_started s"
  "c_terminal_sent (put_tool i t s) = c_terminal_sent s" "keys (put_tool i t s) = keys s"
  "think_live (put_tool i t s) = think_live s" "text_live (put_tool i t s) = text_live s"
  "c_next (put_tool i t s) = c_next s" "c_tools (put_tool i t s) = AList.update i t (c_tools s)"
  "c_think_in (put_tool i t s) = c_think_in s" "c_msg_index (put_tool i t s) = c_msg_index s"
  "c_ctx (put_tool i t s) = c_ctx s" "c_items (put_tool i t s) = c_items s"
  "c_think_seen (put_tool i t s) = c_think_seen s" "c_think_stopped (put_tool i t s) = c_think_stopped s"
  "c_text_closed (put_tool i t s) = c_text_closed s"
  by (simp_all add: put_tool_def keys_def think_live_def text_live_def)

lemma tool_member: "map_of ts i = Some t \<Longrightarrow> t_announced t \<Longrightarrow> \<not> t_done t \<Longrightarrow> t_block t \<in> tool_opens ts"
  by (auto simp: tool_opens_def dest!: map_of_SomeD intro!: rev_image_eqI)

text \<open>Storing a tool whose block and closing state are unchanged.\<close>

lemma sound_put_tool:
  assumes so: "sound s" and t: "map_of (c_tools s) i = Some t" and v: "t_block v = t_block t" "t_done v = t_done t"
      "t_announced t \<longrightarrow> t_announced v" "tool_ok v"
  shows "sound (put_tool i v s)"
    and "opens (put_tool i v s) = (if t_announced v \<and> \<not> t_done v then insert (t_block v) (opens s) else opens s)"
proof -
  note u = tools_update [OF t v(1-3)]
  have "lives (put_tool i v s) = lives s" using u(1) by (simp add: lives_def)
  then show "sound (put_tool i v s)"
    using so u(3) update_tool_ok [OF _ v(4), of "c_tools s" i] by (simp add: sound_def)
  show "opens (put_tool i v s) = (if t_announced v \<and> \<not> t_done v then insert (t_block v) (opens s) else opens s)"
    using u(2) by (simp add: opens_def)
qed

lemma live_tool_fresh:
  assumes so: "sound s" and t: "map_of (c_tools s) i = Some t" "\<not> t_announced t" "\<not> t_done t"
  shows "t_block t \<notin> opens s" "t_block t \<notin> keys s"
proof -
  have m: "t_block t \<in> set (tool_lives (c_tools s))" using live_member [OF t(1,3)] .
  then have l: "t_block t \<in> set (lives s)" by (simp add: lives_def)
  then show "t_block t \<notin> keys s" using so by (auto simp: sound_def)
  have "distinct (tool_lives (c_tools s))" using so by (auto simp: sound_def lives_def split: if_splits)
  then have "t_block t \<notin> tool_opens (c_tools s)" using t by (rule unannounced_closed)
  moreover have "think_live s \<Longrightarrow> t_block t \<noteq> c_think_in s" "text_live s \<Longrightarrow> t_block t \<noteq> c_msg_index s"
    using so m by (auto simp: sound_def lives_def split: if_splits)
  ultimately show "t_block t \<notin> opens s" by (auto simp: opens_def)
qed

text \<open>Storing a tool after announcing it, and after sending argument bytes.\<close>

lemma tracked_announce:
  assumes t: "tracked m0 s" and st: "c_started s" and i: "map_of (c_tools s) i = Some t" "\<not> t_announced t"
    and v: "t_block v = t_block t" "\<not> t_done v" "t_announced v" "tool_ok v" "\<not> t_done t"
  shows "tracked m0 (put_tool i v (remit (RItemAdded (t_block t) item) s))"
proof -
  have p: "sound (put_tool i v s)" "opens (put_tool i v s) = insert (t_block t) (opens s)"
    using sound_put_tool [OF tracked_sound [OF t] i(1) v(1)] v by auto
  have f: "t_block t \<notin> opens s" "t_block t \<notin> keys s"
    using live_tool_fresh [OF tracked_sound [OF t] i] v(5) by auto
  have "tracked m0 (remit (RItemAdded (t_block t) item) (put_tool i v s))"
    by (rule tracked_add [OF t st]) (use p f st in auto)
  then show ?thesis by (simp add: put_tool_remit)
qed

lemma tracked_put:
  assumes t: "tracked m0 s" and i: "map_of (c_tools s) i = Some t"
    and v: "t_block v = t_block t" "t_done v = t_done t" "t_announced v = t_announced t" "tool_ok v"
  shows "tracked m0 (put_tool i v s)"
proof -
  obtain m where m: "rwatch_all (c_out s) m0 = Some m" "tracks m s" using t by (auto simp: tracked_def)
  have "opens (put_tool i v s) = opens s"
  proof (cases "t_announced v \<and> \<not> t_done v")
    case True
    then have "t_block v \<in> opens s" using tool_member [OF i] v by (auto simp: opens_def)
    then show ?thesis using sound_put_tool(2) [OF tracked_sound [OF t] i] v True by auto
  next
    case False
    then show ?thesis using sound_put_tool(2) [OF tracked_sound [OF t] i] v by auto
  qed
  moreover have "sound (put_tool i v s)" using sound_put_tool(1) [OF tracked_sound [OF t] i] v by simp
  ultimately show ?thesis using m by (intro trackedI [of _ _ m]) (auto simp: tracks_def)
qed

text \<open>One more event about a tool that is open, after the tool is stored.\<close>

lemma tracked_after_put:
  assumes "tracked m0 (put_tool i v s)" "item_index b = Some (t_block v)" "t_announced v" "\<not> t_done v"
    and "map_of (c_tools s) i = Some t"
  shows "tracked m0 (put_tool i v (remit b s))"
proof -
  have "map_of (c_tools (put_tool i v s)) i = Some v" by (simp add: update_conv)
  then have "t_block v \<in> opens (put_tool i v s)"
    using tool_member assms(3,4) by (fastforce simp: opens_def)
  then show ?thesis using tracked_refer [OF assms(1,2)] by (simp add: put_tool_remit)
qed

lemma resp_pending_cases:
  "(fst (resp_pending t s) = t \<and> snd (resp_pending t s) = s \<and> t_sent t \<ge> length (t_args t))
   \<or> (t_sent t < length (t_args t) \<and> fst (resp_pending t s) = t\<lparr>t_sent := length (t_args t)\<rparr>
      \<and> snd (resp_pending t s) = remit (RArgsDelta (t_id t) (t_block t) (drop (t_sent t) (t_args t))) s)"
  by (auto simp: resp_pending_def)

lemma pending_tracked:
  assumes "\<And>v. t_block v = t_block t \<Longrightarrow> t_done v = t_done t \<Longrightarrow> t_announced v = t_announced t \<Longrightarrow> tool_ok v
      \<Longrightarrow> tracked m0 (put_tool i v s)"
    and "t_announced t" "\<not> t_done t" "\<not> t_custom t" "map_of (c_tools s) i = Some u" "t_sent t \<le> length (t_args t)"
  shows "tracked m0 (put_tool i (fst (resp_pending t s)) (snd (resp_pending t s)))"
proof (cases "t_sent t < length (t_args t)")
  case True
  let ?v = "t\<lparr>t_sent := length (t_args t)\<rparr>"
  have "tracked m0 (put_tool i ?v s)" using assms(1) [of ?v] assms(2,3) by (simp add: tool_ok_def)
  then have "tracked m0 (put_tool i ?v (remit (RArgsDelta (t_id t) (t_block t) (drop (t_sent t) (t_args t))) s))"
    using assms(2,3,5) by (intro tracked_after_put) auto
  then show ?thesis using True by (simp add: resp_pending_def)
next
  case False
  then have "t_sent t = length (t_args t)" using assms(6) by simp
  then have "tracked m0 (put_tool i t s)" using assms(1) [of t] assms(2,3) by (simp add: tool_ok_def)
  then show ?thesis using False by (simp add: resp_pending_def)
qed

lemma merge_delta_fields [simp]:
  "t_block (merge_delta tc t) = t_block t" "t_done (merge_delta tc t) = t_done t"
  "t_announced (merge_delta tc t) = t_announced t" "t_custom (merge_delta tc t) = t_custom t"
  "t_sent (merge_delta tc t) = t_sent t" "t_args (merge_delta tc t) = t_args t @ td_args tc"
  by (simp_all add: merge_delta_def)

definition sent_ok :: "tool_st \<Rightarrow> bool" where
  "sent_ok t = (t_sent t \<le> length (t_args t))"

text \<open>The body of the loop over the deltas, on a tool that is stored already.\<close>

lemma tracked_tool_core:
  assumes t: "tracked m0 s" "c_started s" and i: "map_of (c_tools s) i = Some t0"
    and nd: "\<not> (t_done t0 \<and> td_args tc \<noteq> [])" and so: "sent_ok t0"
    and r: "resp_announce i (merge_delta tc t0) s = (t1, s3)"
      "(if t_announced t1 \<and> \<not> t_custom t1 then resp_pending t1 s3 else (t1, s3)) = (t2, s4)"
  shows "tracked m0 (put_tool i t2 s4) \<and> sent_ok t2"
proof -
  let ?t = "merge_delta tc t0"
  have ok0: "tool_ok t0" using tracked_sound [OF t(1)] map_of_SomeD [OF i] by (auto simp: sound_def)
  have sent: "t_sent ?t \<le> length (t_args ?t)" using so by (simp add: sent_ok_def)
  show ?thesis
  proof (cases "t1 = ?t \<and> s3 = s")
    case True
    show ?thesis
    proof (cases "t_announced t1 \<and> \<not> t_custom t1")
      case ann: True
      show ?thesis
      proof (cases "t_done t0")
        case False
        have "tracked m0 (put_tool i (fst (resp_pending t1 s)) (snd (resp_pending t1 s)))"
          by (rule pending_tracked [where u = t0]) (use tracked_put [OF t(1) i] True ann False sent i in auto)
        then show ?thesis using r(2) True ann sent by (auto simp: sent_ok_def resp_pending_def split: if_splits)
      next
        case True
        then have "td_args tc = []" using nd by simp
        then have "t_sent t1 = length (t_args t1)" using ok0 True ann \<open>t1 = ?t \<and> s3 = s\<close> by (simp add: tool_ok_def)
        then have "t2 = t1" "s4 = s" using r(2) ann \<open>t1 = ?t \<and> s3 = s\<close> by (auto simp: resp_pending_def)
        moreover have "tracked m0 (put_tool i t1 s)"
          using tracked_put [OF t(1) i, of t1] \<open>t1 = ?t \<and> s3 = s\<close> ok0 \<open>td_args tc = []\<close> by (simp add: tool_ok_def)
        ultimately show ?thesis using \<open>t_sent t1 = length (t_args t1)\<close> by (simp add: sent_ok_def)
      qed
    next
      case False
      have "tracked m0 (put_tool i t1 s)"
        using tracked_put [OF t(1) i, of t1] True False ok0 by (auto simp: tool_ok_def)
      then show ?thesis using r(2) False True sent by (auto simp: sent_ok_def)
    qed
  next
    case False
    then have un: "\<not> t_announced t0" and t1: "t_announced t1" "t_block t1 = t_block t0" "t_done t1 = t_done t0"
        "t_sent t1 = t_sent t0" "t_args t1 = t_args ?t"
      and s3: "\<exists>item. s3 = remit (RItemAdded (t_block t0) item) s"
      using r(1) by (auto simp: resp_announce_def Let_def split: prod.splits if_splits)
    have d: "\<not> t_done t0" using ok0 un by (simp add: tool_ok_def)
    obtain item where item: "s3 = remit (RItemAdded (t_block t0) item) s" using s3 by blast
    have add: "tracked m0 (put_tool i v s3)" if "t_block v = t_block t1" "t_done v = t_done t1" "t_announced v = t_announced t1" "tool_ok v" for v
      unfolding item by (rule tracked_announce [OF t i un]) (use that t1 d in auto)
    show ?thesis
    proof (cases "t_custom t1")
      case True
      then have "t2 = t1" "s4 = s3" using r(2) by auto
      moreover have "tool_ok t1" using True t1 d by (simp add: tool_ok_def)
      ultimately show ?thesis using add [of t1] t1 sent by (simp add: sent_ok_def)
    next
      case False
      have "map_of (c_tools s3) i = Some t0" using i item by simp
      then have "tracked m0 (put_tool i (fst (resp_pending t1 s3)) (snd (resp_pending t1 s3)))"
        using add t1 d sent False by (intro pending_tracked [where u = t0]) auto
      then show ?thesis using r(2) False t1 sent by (auto simp: sent_ok_def resp_pending_def split: if_splits)
    qed
  qed
qed

definition all_sent :: "cc \<Rightarrow> bool" where
  "all_sent s = (\<forall>x \<in> set (c_tools s). sent_ok (snd x))"

lemma all_sent_put: "all_sent s \<Longrightarrow> sent_ok t \<Longrightarrow> all_sent (put_tool i t s)"
proof -
  have "\<forall>x \<in> set ts. sent_ok (snd x) \<Longrightarrow> sent_ok t \<Longrightarrow> \<forall>x \<in> set (AList.update i t ts). sent_ok (snd x)" for ts
    by (induction ts) auto
  then show "all_sent s \<Longrightarrow> sent_ok t \<Longrightarrow> all_sent (put_tool i t s)" by (simp add: all_sent_def)
qed

text \<open>States in which content may be emitted.\<close>

definition good :: "rmonitor \<Rightarrow> cc \<Rightarrow> bool" where
  "good m0 s = (tracked m0 s \<and> c_started s \<and> all_sent s)"

lemma announce_frame:
  "resp_announce i t (put_tool j v s) = (fst (resp_announce i t s), put_tool j v (snd (resp_announce i t s)))"
  by (cases "classify_streamed_name (c_ctx s) (t_name t)") (simp add: resp_announce_def Let_def put_tool_remit)

lemma pending_frame:
  "resp_pending t (put_tool j v s) = (fst (resp_pending t s), put_tool j v (snd (resp_pending t s)))"
  by (simp add: resp_pending_def put_tool_remit)

lemma put_twice: "put_tool i v (put_tool i t s) = put_tool i v s"
  by (simp add: put_tool_def update_last)

lemma announce_fields [simp]:
  "c_started (snd (resp_announce i t s)) = c_started s" "c_tools (snd (resp_announce i t s)) = c_tools s"
  by (auto simp: resp_announce_def Let_def split: prod.splits)

lemma pending_fields [simp]:
  "c_started (snd (resp_pending t s)) = c_started s" "c_tools (snd (resp_pending t s)) = c_tools s"
  by (auto simp: resp_pending_def)

lemma tool_lives_new: "i \<notin> fst ` set ts \<Longrightarrow> \<not> t_done v \<Longrightarrow> tool_lives (AList.update i v ts) = tool_lives ts @ [t_block v]"
  by (induction ts) auto

lemma tool_opens_new: "i \<notin> fst ` set ts \<Longrightarrow> \<not> t_announced v \<Longrightarrow> tool_opens (AList.update i v ts) = tool_opens ts"
  by (induction ts) auto

lemma update_new_keys: "i \<notin> fst ` set ts \<Longrightarrow> map fst (AList.update i v ts) = map fst ts @ [i]"
  by (induction ts) auto

lemma tracked_new_tool:
  assumes t: "tracked m0 s" and new: "map_of (c_tools s) i = None"
  shows "tracked m0 (put_tool i (new_tool (c_next s) d n) (s\<lparr>c_next := c_next s + 1, c_tools_seen := True\<rparr>))"
    (is "tracked m0 ?s'")
proof -
  have so: "sound s" using t by (rule tracked_sound)
  have k: "i \<notin> fst ` set (c_tools s)" using new by (simp add: map_of_eq_None_iff)
  have v: "think_live ?s' = think_live s" "text_live ?s' = text_live s" "keys ?s' = keys s" "c_next ?s' = c_next s + 1"
    by (simp_all add: think_live_def text_live_def keys_def)
  have l: "lives ?s' = lives s @ [c_next s]"
    using tool_lives_new [OF k, of "new_tool (c_next s) d n"] v by (simp add: lives_def new_tool_def)
  have o: "opens ?s' = opens s"
    using tool_opens_new [OF k, of "new_tool (c_next s) d n"] v by (simp add: opens_def new_tool_def)
  have "c_next s \<notin> set (lives s)" using sound_bound [OF so, of "c_next s"] by auto
  then have "sound ?s'"
    using so l v k update_new_keys [OF k] update_tool_ok [of "c_tools s" "new_tool (c_next s) d n" i]
    by (intro sound_extend [OF so]) (auto simp: sound_def tool_ok_def new_tool_def)
  moreover obtain m where "rwatch_all (c_out s) m0 = Some m" "tracks m s" using t by (auto simp: tracked_def)
  ultimately show ?thesis using o v by (intro trackedI [of _ _ m]) (auto simp: tracks_def)
qed

lemma good_core:
  assumes g: "good m0 s" and i: "map_of (c_tools s) i = Some t0" and nd: "\<not> (t_done t0 \<and> td_args tc \<noteq> [])"
    and r: "resp_announce i (merge_delta tc t0) s = (t1, s3)"
      "(if t_announced t1 \<and> \<not> t_custom t1 then resp_pending t1 s3 else (t1, s3)) = (t2, s4)"
  shows "good m0 (put_tool i t2 s4)"
proof -
  have so: "sent_ok t0" using g map_of_SomeD [OF i] by (auto simp: good_def all_sent_def)
  have "tracked m0 (put_tool i t2 s4) \<and> sent_ok t2"
    using g by (intro tracked_tool_core [OF _ _ i nd so r]) (auto simp: good_def)
  moreover have "c_tools s3 = c_tools s" "c_started s3 = c_started s"
    using announce_fields [of i "merge_delta tc t0" s] r(1) by auto
  moreover have "c_tools s4 = c_tools s3" "c_started s4 = c_started s3"
    using pending_fields [of t1 s3] r(2) by (metis fst_conv snd_conv)+
  ultimately show ?thesis using g all_sent_put [of s4 t2 i] by (simp add: good_def all_sent_def)
qed

lemma good_tool:
  assumes g: "good m0 s" and r: "resp_tool tc s = (None, s')"
  shows "good m0 s'"
proof -
  let ?i = "td_index tc"
  define s1 where "s1 = close_text ''completed'' (stop_reasoning s)"
  have c: "tracked m0 (stop_reasoning s) \<and> c_started (stop_reasoning s) \<and> c_tools (stop_reasoning s) = c_tools s"
    using tracked_stop_reasoning [of m0 s] g by (simp add: good_def same_frame_def)
  then have g1: "good m0 s1"
    using tracked_close_text [of m0 "stop_reasoning s" "''completed''"] g by (simp add: s1_def good_def same_frame_def all_sent_def)
  show ?thesis
  proof (cases "map_of (c_tools s1) ?i")
    case (Some t0)
    obtain t1 s3 where a: "resp_announce ?i (merge_delta tc t0) s1 = (t1, s3)" by fastforce
    obtain t2 s4 where b: "(if t_announced t1 \<and> \<not> t_custom t1 then resp_pending t1 s3 else (t1, s3)) = (t2, s4)" by fastforce
    have nd: "\<not> (t_done t0 \<and> td_args tc \<noteq> [])" and e: "s' = put_tool ?i t2 s4"
      using r Some a b by (auto simp: resp_tool_def s1_def [symmetric] Let_def split: if_splits)
    then show ?thesis using good_core [OF g1 Some nd a b] by simp
  next
    case None
    define t0 where "t0 = new_tool (c_next s1) (td_id tc) []"
    define s2 where "s2 = s1\<lparr>c_next := c_next s1 + 1, c_tools_seen := True\<rparr>"
    obtain t1 s3 where a: "resp_announce ?i (merge_delta tc t0) s2 = (t1, s3)" by fastforce
    obtain t2 s4 where b: "(if t_announced t1 \<and> \<not> t_custom t1 then resp_pending t1 s3 else (t1, s3)) = (t2, s4)" by fastforce
    have e: "s' = put_tool ?i t2 s4"
      using r None a b by (auto simp: resp_tool_def s1_def [symmetric] t0_def [symmetric] s2_def [symmetric] Let_def)
    have "tracked m0 (put_tool ?i t0 s2)"
      using tracked_new_tool [OF _ None] g1 by (simp add: t0_def s2_def good_def)
    moreover have "all_sent (put_tool ?i t0 s2)"
      using g1 by (intro all_sent_put) (simp_all add: good_def all_sent_def s2_def sent_ok_def t0_def new_tool_def)
    ultimately have g2: "good m0 (put_tool ?i t0 s2)" using g1 by (simp add: good_def s2_def)
    have i: "map_of (c_tools (put_tool ?i t0 s2)) ?i = Some t0" by (simp add: update_conv)
    have nd: "\<not> (t_done t0 \<and> td_args tc \<noteq> [])" by (simp add: t0_def new_tool_def)
    have a': "resp_announce ?i (merge_delta tc t0) (put_tool ?i t0 s2) = (t1, put_tool ?i t0 s3)"
      using a by (simp add: announce_frame)
    have b': "(if t_announced t1 \<and> \<not> t_custom t1 then resp_pending t1 (put_tool ?i t0 s3) else (t1, put_tool ?i t0 s3))
        = (t2, put_tool ?i t0 s4)"
      using b by (auto simp: pending_frame split: if_splits)
    show ?thesis using good_core [OF g2 i nd a' b'] e by (simp add: put_twice)
  qed
qed

lemma good_tools: "good m0 s \<Longrightarrow> resp_tools tcs s = (None, s') \<Longrightarrow> good m0 s'"
  by (induction tcs arbitrary: s) (auto split: prod.splits option.splits dest: good_tool)

lemma good_finish_tool:
  assumes g: "good m0 s" and i: "map_of (c_tools s) i = Some t" and r: "finish_tool i t s = (None, s')"
  shows "good m0 s'"
proof -
  have ok: "tool_ok t" "sent_ok t" using g map_of_SomeD [OF i] by (auto simp: good_def tracked_def sound_def all_sent_def)
  define p where "p = (if t_announced t then (t, s)
     else (t\<lparr>t_announced := True\<rparr>, remit (RItemAdded (t_block t) (CallOpen (t_id t) (t_name t) [])) s))"
  define q where "q = (if t_custom (fst p) then p else resp_pending (fst p) (snd p))"
  have e: "s' = put_tool i (fst q) (snd q)"
    using r by (auto simp: finish_tool_def p_def q_def Let_def split: if_splits sum.splits prod.splits)
  have p: "t_announced (fst p)" "t_block (fst p) = t_block t" "t_done (fst p) = t_done t" "t_custom (fst p) = t_custom t"
      "t_sent (fst p) = t_sent t" "t_args (fst p) = t_args t" "c_tools (snd p) = c_tools s" "c_started (snd p) = c_started s"
    by (auto simp: p_def)
  have put: "tracked m0 (put_tool i v (snd p))"
    if "t_block v = t_block t" "t_done v = t_done t" "t_announced v" "tool_ok v" for v
  proof (cases "t_announced t")
    case True
    then show ?thesis using tracked_put [OF _ i, of m0 v] g that by (simp add: good_def p_def)
  next
    case False
    then have "\<not> t_done t" using ok by (simp add: tool_ok_def)
    then show ?thesis using tracked_announce [OF _ _ i False, of m0 v] g that False by (simp add: good_def p_def)
  qed
  have q: "tracked m0 (put_tool i (fst q) (snd q)) \<and> sent_ok (fst q) \<and> c_started (snd q) \<and> c_tools (snd q) = c_tools s"
  proof (cases "t_custom t")
    case True
    then have "q = p" using p by (simp add: q_def)
    then show ?thesis using put [of "fst p"] p g ok True by (simp add: tool_ok_def sent_ok_def good_def)
  next
    case False
    then have "q = resp_pending (fst p) (snd p)" using p by (simp add: q_def)
    moreover have "tracked m0 (put_tool i (fst (resp_pending (fst p) (snd p))) (snd (resp_pending (fst p) (snd p))))"
    proof (cases "t_done t")
      case False
      then show ?thesis using put p i ok \<open>\<not> t_custom t\<close>
        by (intro pending_tracked [where u = t]) (auto simp: sent_ok_def)
    next
      case True
      then have "t_sent t = length (t_args t)" using ok False by (simp add: tool_ok_def)
      then show ?thesis using put [of "fst p"] p ok True False by (simp add: resp_pending_def tool_ok_def)
    qed
    ultimately show ?thesis using p ok g by (auto simp: resp_pending_def sent_ok_def good_def)
  qed
  then show ?thesis using e g all_sent_put [of "snd q" "fst q" i] by (simp add: good_def all_sent_def)
qed

lemma good_finish_tools: "good m0 s \<Longrightarrow> finish_tools is s = (None, s') \<Longrightarrow> good m0 s'"
  by (induction "is" arbitrary: s) (auto split: prod.splits option.splits dest: good_finish_tool)

subsection \<open>The terminal\<close>

lemma put_item_remit: "put_item k i (remit b s) = remit b (put_item k i s)"
  by (simp add: put_item_def remit_def emit_def)

lemma tools_keys_update: "map_of ts i = Some t \<Longrightarrow> map fst (AList.update i v ts) = map fst ts"
  by (induction ts) (auto split: if_splits)

lemma tools_close:
  assumes "map_of ts i = Some t" "\<not> t_done t" "t_done v" "distinct (tool_lives ts)"
  shows "set (tool_lives (AList.update i v ts)) = set (tool_lives ts) - {t_block t}"
    and "distinct (tool_lives (AList.update i v ts))"
    and "tool_opens (AList.update i v ts) = tool_opens ts - {t_block t}"
proof -
  have "set (tool_lives (AList.update i v ts)) = set (tool_lives ts) - {t_block t}
     \<and> distinct (tool_lives (AList.update i v ts))
     \<and> tool_opens (AList.update i v ts) = tool_opens ts - {t_block t}"
    using assms
  proof (induction ts)
    case (Cons x ts)
    show ?case
    proof (cases "fst x = i")
      case True
      then have "snd x = t" using Cons.prems(1) by (cases x) auto
      then have "t_block t \<notin> set (tool_lives ts)" using Cons.prems(2,4) by simp
      then show ?thesis using True Cons.prems opens_lives [of ts] \<open>snd x = t\<close> by (cases x) auto
    next
      case False
      then have m: "map_of ts i = Some t" using Cons.prems(1) by (cases x) auto
      then have "t_block t \<in> set (tool_lives ts)" using live_member Cons.prems(2) by blast
      then show ?thesis using Cons.IH [OF m] Cons.prems False by (cases x) auto
    qed
  qed simp
  then show "set (tool_lives (AList.update i v ts)) = set (tool_lives ts) - {t_block t}"
    and "distinct (tool_lives (AList.update i v ts))"
    and "tool_opens (AList.update i v ts) = tool_opens ts - {t_block t}" by auto
qed

text \<open>Closing one tool: its item is stored and the tool marked as done.\<close>

lemma tracked_tool_done:
  assumes t: "tracked m0 s" and i: "map_of (c_tools s) i = Some t" "t_announced t" "\<not> t_done t"
    and b: "item_index b = Some (t_block t)"
  shows "tracked m0 (put_tool i (t\<lparr>t_done := True\<rparr>) (put_item (t_block t) item
      (remit (RItemDone (t_block t) item') (remit b s))))"
proof -
  let ?k = "t_block t" and ?v = "t\<lparr>t_done := True\<rparr>"
  let ?s' = "put_tool i ?v (put_item ?k item s)"
  have so: "sound s" using t by (rule tracked_sound)
  have dl: "distinct (tool_lives (c_tools s))" using so by (auto simp: sound_def lives_def split: if_splits)
  have ok: "tool_ok t" using so map_of_SomeD [OF i(1)] by (auto simp: sound_def)
  note c = tools_close [OF i(1,3), of ?v, simplified, OF dl]
  have kl: "?k \<in> set (tool_lives (c_tools s))" using live_member [OF i(1,3)] .
  have sep: "think_live s \<Longrightarrow> c_think_in s \<noteq> ?k" "text_live s \<Longrightarrow> c_msg_index s \<noteq> ?k"
    using so kl by (auto simp: sound_def lives_def split: if_splits)
  have l: "set (lives ?s') = set (lives s) - {?k}" "distinct (lives ?s')"
    using c so sep by (auto simp: lives_def sound_def split: if_splits)
  have o: "opens ?s' = opens s - {?k}" using c sep by (auto simp: opens_def)
  have m: "map fst (AList.update i ?v (c_tools s)) = map fst (c_tools s)"
    using tools_keys_update [OF i(1)] .
  have tk: "\<forall>x \<in> set (AList.update i ?v (c_tools s)). tool_ok (snd x)"
    using so ok i by (intro update_tool_ok) (auto simp: sound_def tool_ok_def)
  have "?k \<in> set (lives s)" using kl by (simp add: lives_def)
  then have "sound ?s'" using so l tk m by (auto simp: sound_def)
  then have "tracked m0 (remit (RItemDone ?k item') (fold remit [b] ?s'))"
    using tool_member [OF i] o by (intro tracked_close [OF t, where k = ?k and ?b1.0 = b and ?b2.0 = b])
      (auto simp: opens_def b)
  then show ?thesis by (simp add: put_tool_remit put_item_remit)
qed

definition closing :: "rmonitor \<Rightarrow> cc \<Rightarrow> bool" where
  "closing m0 s = (tracked m0 s \<and> all_sent s \<and> \<not> think_live s \<and> \<not> text_live s)"

lemma all_sent_more [simp]:
  "all_sent (remit b s) = all_sent s" "all_sent (put_item k i s) = all_sent s"
  "all_sent (progress f s) = all_sent s" "all_sent (s\<lparr>c_held := h\<rparr>) = all_sent s"
  "all_sent (s\<lparr>c_terminal_sent := d\<rparr>) = all_sent s" "all_sent (s\<lparr>c_finished := d\<rparr>) = all_sent s"
  "all_sent (s\<lparr>c_done := d\<rparr>) = all_sent s" "all_sent (usage_step u s) = all_sent s"
  "all_sent (s\<lparr>c_usage := v\<rparr>) = all_sent s"
  by (simp_all add: all_sent_def usage_step_def progress_def split: option.splits)

lemma live_remit_put [simp]:
  "c_held (put_tool i t s) = c_held s"
  by (simp add: put_tool_def)

lemma closing_tool:
  assumes c: "closing m0 s" and i: "map_of (c_tools s) i = Some t" and r: "close_tool i t s = (None, s')"
  shows "closing m0 s' \<and> c_terminal_sent s' = c_terminal_sent s \<and> c_started s' = c_started s"
proof (cases "t_done t \<or> \<not> t_announced t")
  case True
  then show ?thesis using c r by (simp add: close_tool_def)
next
  case False
  then have f: "t_announced t" "\<not> t_done t" by auto
  have t: "tracked m0 s" using c by (simp add: closing_def)
  consider "s' = s" | item item' b where "item_index b = Some (t_block t)"
    "s' = put_tool i (t\<lparr>t_done := True\<rparr>) (put_item (t_block t) item (remit (RItemDone (t_block t) item') (remit b s)))"
  proof (cases "t_custom t")
    case True
    then show thesis using r f by (cases "unwrap_custom_tool_input (t_args t)")
      (auto simp: close_tool_def Let_def intro!: that(2) [where b = "RCustomInputDone _ _ _"])
  next
    case fn: False
    show thesis
    proof (cases "json_valid (default_args (t_args t))")
      case True
      then show thesis using r f fn
        by (auto simp: close_tool_def Let_def intro!: that(2) [where b = "RArgsDone _ _ _"])
    next
      case False
      then show thesis using r f fn by (auto simp: close_tool_def Let_def intro: that(1))
    qed
  qed
  then show ?thesis
  proof cases
    case 1
    then show ?thesis using c by simp
  next
    case 2
    have "sent_ok (t\<lparr>t_done := True\<rparr>)"
      using c map_of_SomeD [OF i] by (auto simp: closing_def all_sent_def sent_ok_def)
    then show ?thesis using 2 tracked_tool_done [OF t i f 2(1)] c by (simp add: closing_def all_sent_put)
  qed
qed

lemma closing_tools:
  "closing m0 s \<Longrightarrow> close_tools is s = (None, s') \<Longrightarrow>
     closing m0 s' \<and> c_terminal_sent s' = c_terminal_sent s \<and> c_started s' = c_started s"
proof (induction "is" arbitrary: s)
  case (Cons i "is")
  show ?case
  proof (cases "map_of (c_tools s) i")
    case None
    then show ?thesis using Cons by simp
  next
    case (Some t)
    then obtain s1 where s1: "close_tool i t s = (None, s1)" "close_tools is s1 = (None, s')"
      using Cons.prems(2) by (auto split: prod.splits option.splits)
    then show ?thesis using closing_tool [OF Cons.prems(1) Some] Cons.IH by auto
  qed
qed simp

lemma length_items:
  fixes xs :: "(int \<times> 'a) list"
  assumes "\<forall>k \<in> fst ` set xs. 0 \<le> k \<and> k < n"
  shows "length (List.map_filter (\<lambda>i. map_of xs (int i)) [0..<nat n]) = card (fst ` set xs)"
proof -
  have "length (List.map_filter f ys) = length (filter (\<lambda>y. f y \<noteq> None) ys)" for f :: "nat \<Rightarrow> 'a option" and ys
    by (induction ys) (auto simp: List.map_filter_simps split: option.splits)
  then have "length (List.map_filter (\<lambda>i. map_of xs (int i)) [0..<nat n])
      = length (filter (\<lambda>i. map_of xs (int i) \<noteq> None) [0..<nat n])" .
  also have "\<dots> = card (set (filter (\<lambda>i. map_of xs (int i) \<noteq> None) [0..<nat n]))"
    by (rule distinct_card [symmetric]) simp
  also have "set (filter (\<lambda>i. map_of xs (int i) \<noteq> None) [0..<nat n]) = {i \<in> {0..<nat n}. map_of xs (int i) \<noteq> None}"
    by auto
  also have "card {i \<in> {0..<nat n}. map_of xs (int i) \<noteq> None} = card (int ` {i \<in> {0..<nat n}. map_of xs (int i) \<noteq> None})"
    by (simp add: card_image)
  also have "int ` {i \<in> {0..<nat n}. map_of xs (int i) \<noteq> None} = fst ` set xs"
  proof
    show "int ` {i \<in> {0..<nat n}. map_of xs (int i) \<noteq> None} \<subseteq> fst ` set xs"
      by (auto dest!: map_of_SomeD intro: rev_image_eqI)
    show "fst ` set xs \<subseteq> int ` {i \<in> {0..<nat n}. map_of xs (int i) \<noteq> None}"
    proof
      fix k assume k: "k \<in> fst ` set xs"
      then have "0 \<le> k \<and> k < n" "map_of xs k \<noteq> None" using assms by (auto simp: map_of_eq_None_iff)
      then show "k \<in> int ` {i \<in> {0..<nat n}. map_of xs (int i) \<noteq> None}"
        by (intro image_eqI [of _ _ "nat k"]) auto
    qed
  qed
  finally show ?thesis .
qed

lemma tracked_complete:
  assumes c: "closing m0 s" and d: "\<not> list_ex (\<lambda>(_, t). \<not> t_done t) (c_tools s)" and n: "\<not> c_terminal_sent s"
  shows "tracked m0 (resp_complete st s) \<and> all_sent (resp_complete st s) \<and> c_started (resp_complete st s) = c_started s \<and> c_terminal_sent (resp_complete st s)"
proof -
  obtain m where m: "rwatch_all (c_out s) m0 = Some m" "tracks m s" and so: "sound s"
    using c by (auto simp: closing_def tracked_def)
  have "tool_opens (c_tools s) = {}" using d by (auto simp: tool_opens_def list_ex_iff)
  then have "opens s = {}" using c by (simp add: opens_def closing_def)
  moreover have "length (output_items s) = card (keys s)"
    unfolding output_items_def keys_def using so by (intro length_items) (auto simp: sound_def keys_def)
  moreover obtain u s1 where e: "resp_complete st s = remit (RCompleted (c_id s) (c_model s) st u (output_items s)) s1"
      and s1: "s1 = progress (st_terminal st) (s\<lparr>c_terminal_sent := True\<rparr>)"
    by (simp add: resp_complete_def Let_def)
  let ?m = "m\<lparr>rm_seq := c_seq s + 1, rm_completed := True\<rparr>"
  have f: "c_out s1 = c_out s" "c_seq s1 = c_seq s" "c_started s1 = c_started s" "keys s1 = keys s" "opens s1 = opens s"
      "c_terminal_sent s1" "sound s1 = sound s"
    by (simp_all add: s1 progress_def keys_def opens_def lives_def sound_def think_live_def text_live_def)
  moreover have "all_sent s1" using c by (simp add: s1 closing_def)
  ultimately have w: "rwatch_all (c_out (resp_complete st s)) m0 = Some ?m" and "all_sent s1"
    using watch_remit [of s1 m0 m] m n f by (simp_all add: e tracks_def)
  then show ?thesis using m so f \<open>opens s = {}\<close>
    by (auto simp: e tracks_def intro!: trackedI [where m = ?m])
qed

lemma closing_finish:
  assumes "tracked m0 s" "all_sent s"
  shows "closing m0 (close_text st (stop_reasoning s)) \<and> same_frame s (close_text st (stop_reasoning s))
    \<and> c_tools (close_text st (stop_reasoning s)) = c_tools s"
proof -
  have "tracked m0 (stop_reasoning s)" "\<not> think_live (stop_reasoning s)" "same_frame s (stop_reasoning s)"
      "c_tools (stop_reasoning s) = c_tools s"
    using tracked_stop_reasoning [OF assms(1)] by auto
  then show ?thesis using assms(2) tracked_close_text [of m0 "stop_reasoning s" st]
    by (auto simp: closing_def same_frame_def all_sent_def)
qed

lemma tracked_terminal:
  assumes t: "tracked m0 s" "all_sent s" and r: "responses_terminal allow s = (None, s')"
  shows "tracked m0 s' \<and> all_sent s' \<and> c_started s' = c_started s \<and> (allow \<longrightarrow> c_terminal_sent s')"
proof (cases "c_terminal_sent s \<or> (c_held s = [] \<and> \<not> allow)")
  case True
  then show ?thesis using t r by (auto simp: responses_terminal_def Let_def split: if_splits)
next
  case False
  let ?s0 = "s\<lparr>c_held := []\<rparr>"
  obtain fin where c: "resp_close fin ?s0 = (None, s')"
    using False r by (auto simp: responses_terminal_def Let_def split: if_splits)
  define s1 where "s1 = close_text (if response_status_from_cc_finish fin = ''incomplete'' then ''incomplete'' else ''completed'')
     (stop_reasoning ?s0)"
  have s1: "closing m0 s1" "same_frame ?s0 s1" using closing_finish [of m0 ?s0] t by (auto simp: s1_def)
  obtain s2 where s2: "close_tools (map fst (c_tools s1)) s1 = (None, s2)"
      "\<not> list_ex (\<lambda>(_, t). \<not> t_done t) (c_tools s2)" "s' = resp_complete (response_status_from_cc_finish fin) s2"
    using c by (auto simp: resp_close_def s1_def [symmetric] Let_def split: prod.splits option.splits if_splits)
  then have "closing m0 s2" "c_terminal_sent s2 = c_terminal_sent s1" "c_started s2 = c_started s1"
    using closing_tools [OF s1(1)] by auto
  then show ?thesis using tracked_complete [OF _ s2(2)] s1(2) False s2(3) by (simp add: same_frame_def)
qed

subsection \<open>Lines\<close>

definition steady :: "rmonitor \<Rightarrow> cc \<Rightarrow> bool" where
  "steady m0 s = (tracked m0 s \<and> all_sent s)"

lemma good_steady: "good m0 s = (steady m0 s \<and> c_started s)"
  by (auto simp: good_def steady_def)

lemma steady_more [simp]:
  "steady m (progress f s) = steady m s" "steady m (usage_step u s) = steady m s"
  "steady m (s\<lparr>c_done := d\<rparr>) = steady m s" "steady m (s\<lparr>c_usage := v\<rparr>) = steady m s"
  by (simp_all add: steady_def)

lemma steady_stop_reasoning: "steady m0 s \<Longrightarrow> steady m0 (stop_reasoning s) \<and> c_started (stop_reasoning s) = c_started s"
  using tracked_stop_reasoning [of m0 s] by (auto simp: steady_def all_sent_def same_frame_def)

lemma started_more [simp]:
  "c_started (progress f s) = c_started s" "c_started (usage_step u s) = c_started s"
  by (simp_all add: progress_def usage_step_def split: option.splits)

lemma good_more [simp]:
  "good m (progress f s) = good m s" "good m (s\<lparr>c_finished := d, c_held := h\<rparr>) = good m s"
  by (simp add: good_def) (simp add: good_def all_sent_def tracked_def tracks_def sound_def lives_def opens_def keys_def
      think_live_def text_live_def)

lemma good_stop_reasoning: "good m0 s \<Longrightarrow> good m0 (stop_reasoning s)"
  using steady_stop_reasoning by (auto simp: good_steady)

lemma good_finish:
  assumes "good m0 s" "resp_finish fin s = (None, s')"
  shows "good m0 s'"
proof (cases "fin = [] \<or> c_finished s")
  case True
  then show ?thesis using assms by (simp add: resp_finish_def)
next
  case False
  then obtain u where u: "finish_tools (map fst (c_tools s)) s = (None, u)"
      "s' = stop_reasoning (progress st_finish (u\<lparr>c_finished := True, c_held := fin\<rparr>))"
    using assms(2) by (auto simp: resp_finish_def split: prod.splits option.splits)
  show ?thesis unfolding u(2) using good_finish_tools [OF assms(1) u(1)] by (intro good_stop_reasoning) simp
qed

lemma all_sent_emit:
  "all_sent (resp_thinking r s) = all_sent s" "all_sent (resp_content t s) = all_sent s"
proof -
  have k: "c_tools (stop_reasoning s) = c_tools s" "c_tools (close_text st s) = c_tools s"
    "c_tools (resp_open_reasoning s) = c_tools s" "c_tools (resp_open_text s) = c_tools s" for st s
    by (simp_all add: stop_reasoning_def close_text_def resp_open_reasoning_def resp_open_text_def Let_def)
  show "all_sent (resp_thinking r s) = all_sent s" "all_sent (resp_content t s) = all_sent s"
    by (simp_all add: all_sent_def resp_thinking_def resp_content_def Let_def k)
qed

lemma good_choice:
  assumes "good m0 s" "resp_choice b c s = (None, s')"
  shows "good m0 s'"
proof -
  define u where "u = resp_content (cx_content c) (resp_thinking (reasoning_text (cx_reasoning c)) s)"
  have "tracked m0 (resp_thinking (reasoning_text (cx_reasoning c)) s)
      \<and> c_started (resp_thinking (reasoning_text (cx_reasoning c)) s)"
    using tracked_thinking [of m0 s] assms(1) by (simp add: good_def)
  then have "good m0 u"
    using tracked_content [of m0 "resp_thinking (reasoning_text (cx_reasoning c)) s"] assms(1)
    by (simp add: u_def good_def all_sent_emit)
  moreover obtain s1 s2 where r: "resp_tools (cx_tools c) u = (None, s1)" "resp_finish (cx_finish c) s1 = (None, s2)"
      "s' = s2 \<or> s' = progress st_advance s2"
    using assms(2) by (auto simp: resp_choice_def u_def [symmetric] Let_def split: prod.splits option.splits if_splits)
  ultimately have "good m0 s2" using good_finish [OF good_tools [OF _ r(1)] r(2)] by simp
  then show ?thesis using r(3) by auto
qed

lemma good_start:
  assumes s: "steady m0 s" and c: "c_started s \<or> ch_choices chunk \<noteq> []"
  shows "good m0 (resp_start chunk s)"
proof (cases "c_started s")
  case True
  then show ?thesis using s by (simp add: resp_start_def good_steady)
next
  case False
  let ?s = "s\<lparr>c_started := True, c_id := ch_id chunk, c_model := ch_model chunk\<rparr>"
  let ?s' = "remit (RInProgress (ch_id chunk) (ch_model chunk)) (remit (RCreated (ch_id chunk) (ch_model chunk)) ?s)"
  obtain m where m: "rwatch_all (c_out s) m0 = Some m" "tracks m s" "sound s" using s by (auto simp: steady_def tracked_def)
  let ?m = "m\<lparr>rm_seq := c_seq s + 1, rm_created := True\<rparr>"
  have "rwatch_all (c_out (remit (RCreated (ch_id chunk) (ch_model chunk)) ?s)) m0 = Some ?m"
    using watch_remit [of ?s m0 m] m(1,2) False by (simp add: tracks_def)
  then have "rwatch_all (c_out ?s') m0 = Some (?m\<lparr>rm_seq := c_seq s + 2\<rparr>)"
    by (subst watch_remit [where m = ?m]) simp_all
  moreover have "sound ?s' = sound s" "keys ?s' = keys s" "opens ?s' = opens s"
    by (simp_all add: sound_def lives_def keys_def opens_def think_live_def text_live_def)
  ultimately have "tracked m0 ?s'"
    using m by (intro trackedI [of _ _ "?m\<lparr>rm_seq := c_seq s + 2\<rparr>"]) (auto simp: tracks_def)
  moreover have "all_sent ?s'" using s by (simp add: steady_def all_sent_def)
  moreover have "resp_start chunk s = progress st_start ?s'" using False c by (simp add: resp_start_def)
  moreover have "c_started ?s'" by simp
  ultimately show ?thesis by (simp only: good_def tracked_progress all_sent_more started_more)
qed

lemma steady_chunk:
  assumes s: "steady m0 s" and r: "responses_chunk chunk s = (None, s')"
  shows "steady m0 s'"
proof -
  obtain s1 where t: "(if c_held s \<noteq> [] then responses_terminal False s else (None, s)) = (None, s1)"
      and r': "(let s2 = usage_step (ch_usage chunk) s1; s3 = resp_start chunk s2
           in case ch_choices chunk of [] \<Rightarrow> (None, s3) | c # _ \<Rightarrow> resp_choice (\<not> c_started s2) c s3) = (None, s')"
    using r by (auto simp: responses_chunk_def split: prod.splits option.splits)
  have s1: "steady m0 s1"
    using t s tracked_terminal [of m0 s False s1] by (auto simp: steady_def split: if_splits)
  let ?s2 = "usage_step (ch_usage chunk) s1"
  show ?thesis
  proof (cases "ch_choices chunk")
    case Nil
    then have "s' = ?s2" using r' by (simp add: resp_start_def Let_def)
    then show ?thesis using s1 by simp
  next
    case (Cons c cs)
    then have "good m0 (resp_start chunk ?s2)" using good_start [of m0 ?s2] s1 by simp
    moreover have "resp_choice (\<not> c_started ?s2) c (resp_start chunk ?s2) = (None, s')"
      using r' Cons by (simp only: Let_def list.case)
    ultimately show ?thesis using good_choice good_steady by blast
  qed
qed

lemma steady_terminal:
  "steady m0 s \<Longrightarrow> responses_terminal allow s = (None, s') \<Longrightarrow> steady m0 s' \<and> (allow \<longrightarrow> c_terminal_sent s')"
  using tracked_terminal [of m0 s allow s'] by (simp add: steady_def)

lemma steady_decode: "decode_chunk data s = (r, s') \<Longrightarrow> steady m0 s' = steady m0 s"
  by (auto simp: decode_chunk_def split: prod.splits bool.splits option.splits if_splits)

lemma steady_line:
  assumes s: "steady m0 s" and r: "responses_line line s = (None, s')"
  shows "steady m0 s'"
proof (cases "sse_data line")
  case None
  then show ?thesis using s r by (simp add: responses_line_def)
next
  case (Some data)
  consider "data = []" | "data \<noteq> []" "is_sse_done data" | "data \<noteq> []" "\<not> is_sse_done data" by blast
  then show ?thesis
  proof cases
    case 1
    then show ?thesis using s r Some by (simp add: responses_line_def)
  next
    case 2
    obtain e u where t: "responses_terminal True (stop_reasoning s) = (e, u)" by fastforce
    then have "e = None" "s' = progress st_done (u\<lparr>c_done := True\<rparr>)"
      using r Some 2 by (cases e; simp add: responses_line_def)+
    then show ?thesis
      using steady_terminal [OF steady_stop_reasoning [OF s, THEN conjunct1], of True u] t by simp
  next
    case 3
    obtain d u where d: "decode_chunk data s = (d, u)" by fastforce
    then obtain chunk where "d = Inr chunk" "responses_chunk chunk u = (None, s')"
      using r Some 3 by (cases d) (simp_all add: responses_line_def)
    then show ?thesis using steady_chunk [of m0 u] steady_decode [OF d] s by simp
  qed
qed

end
