(* ===== verification/Chat_Frame.thy ===== *)
theory Chat_Frame
  imports Chat_Claude Responses_Lifecycle
begin

text \<open>
  What no handler of \<open>internal/adapter/chatcompletions/stream.go\<close> below the line handlers
  writes: the source format, the line buffer, the flush guard and the done flag.
\<close>

definition conv :: "cc \<Rightarrow> target \<times> string \<times> bool \<times> bool" where
  "conv s = (c_target s, c_buf s, c_flushed s, c_done s)"

named_theorems conv_rules \<open>handlers keep the converter's frame\<close>

lemma conv_base [simp]:
  "conv (emit e s) = conv s" "conv (progress f s) = conv s" "conv (usage_step u s) = conv s"
  "conv (remit b s) = conv s" "conv (put_item k i s) = conv s" "conv (put_tool j t s) = conv s"
  by (simp_all add: conv_def usage_step_def progress_def emit_def remit_def put_item_def put_tool_def split: option.splits)

lemma conv_fields [simp]:
  "conv (s\<lparr>c_out := a\<rparr>) = conv s" "conv (s\<lparr>c_usage := b\<rparr>) = conv s" "conv (s\<lparr>c_held := d\<rparr>) = conv s"
  "conv (s\<lparr>c_terminal_sent := d'\<rparr>) = conv s" "conv (s\<lparr>c_think_stopped := b1\<rparr>) = conv s"
  "conv (s\<lparr>c_text_closed := b1\<rparr>) = conv s" "conv (s\<lparr>c_finished := b1\<rparr>) = conv s"
  by (simp_all add: conv_def)

lemma conv_claude [simp]:
  "conv (stop_blocks s) = conv s" "conv (claude_terminal s) = conv s"
  by (simp_all add: stop_blocks_def stop_tools_def stop_text_def stop_thinking_def claude_terminal_def Let_def)
    (simp_all add: conv_def emit_def)

lemma conv_claude_ops [simp]:
  "conv (claude_thinking r s) = conv s" "conv (claude_content t s) = conv s" "conv (claude_tool tc s) = conv s"
  "conv (claude_finish f s) = conv s" "conv (claude_start ch s) = conv s" "conv (observe_choice c s) = conv s"
proof -
  have k: "conv (s0\<lparr>c_think_index := k, c_next := n, c_think_open := b\<rparr>) = conv s0"
    "conv (s0\<lparr>c_text_index := k, c_next := n, c_text_open := b\<rparr>) = conv s0"
    "conv (s0\<lparr>c_next := n, c_tools := ts, c_tools_seen := b\<rparr>) = conv s0" "conv (s0\<lparr>c_tools := ts\<rparr>) = conv s0"
    "conv (s0\<lparr>c_started := b\<rparr>) = conv s0" for s0 k n b ts
    by (simp_all add: conv_def)
  show "conv (claude_thinking r s) = conv s" "conv (claude_content t s) = conv s"
    by (simp_all add: claude_thinking_def claude_content_def Let_def k)
  show "conv (claude_tool tc s) = conv s"
    by (simp add: claude_tool_def claude_tool_args_def claude_open_tool_def Let_def k split: option.splits)
  show "conv (claude_finish f s) = conv s" by (simp add: claude_finish_def)
  show "conv (claude_start ch s) = conv s" by (simp add: claude_start_def k)
  show "conv (observe_choice c s) = conv s" by (simp add: observe_choice_def Let_def)
qed

lemma conv_claude_tools [simp]: "conv (fold claude_tool tcs s) = conv s"
  by (induction tcs arbitrary: s) simp_all

lemma conv_claude_chunk [simp]: "conv (claude_chunk ch s) = conv s"
  by (simp add: claude_chunk_def claude_choice_def Let_def split: list.splits)

lemma conv_decode: "conv (snd (decode_chunk d s)) = conv s"
  by (auto simp: decode_chunk_def split: prod.splits bool.splits option.splits)

lemma conv_resp [simp]:
  "conv (stop_reasoning s) = conv s" "conv (close_text st s) = conv s"
  "conv (resp_thinking r s) = conv s" "conv (resp_content t s) = conv s"
proof -
  show c: "conv (stop_reasoning s) = conv s" "conv (close_text st s) = conv s" for s st
    by (simp_all add: stop_reasoning_def close_text_def Let_def)
  have o: "conv (resp_open_reasoning s) = conv s" "conv (resp_open_text s) = conv s" for s
    by (simp_all add: resp_open_reasoning_def resp_open_text_def Let_def) (simp_all add: conv_def remit_def emit_def)
  have b: "conv (s\<lparr>c_think_buf := x\<rparr>) = conv s" "conv (s\<lparr>c_resp_text := x\<rparr>) = conv s" for s x
    by (simp_all add: conv_def)
  show "conv (resp_thinking r s) = conv s" "conv (resp_content t s) = conv s"
    by (simp_all add: resp_thinking_def resp_content_def Let_def b c o)
qed

lemma conv_resp_tool_parts [simp]:
  "conv (snd (resp_announce i t s)) = conv s" "conv (snd (resp_pending t s)) = conv s"
  by (auto simp: resp_announce_def resp_pending_def Let_def split: prod.splits)

lemma conv_resp_tool [simp]: "conv (snd (resp_tool tc s)) = conv s"
proof -
  have "conv (s0\<lparr>c_next := n, c_tools_seen := b\<rparr>) = conv s0" for s0 n b by (simp add: conv_def)
  then show ?thesis
    by (simp add: resp_tool_def Let_def split_beta split: option.splits)
qed

lemma conv_resp_tools [simp]: "conv (snd (resp_tools tcs s)) = conv s"
proof (induction tcs arbitrary: s)
  case (Cons tc tcs)
  then show ?case using conv_resp_tool [of tc s] by (auto split: prod.splits option.splits simp del: conv_resp_tool)
qed simp

lemma conv_finish_tools [simp]: "conv (snd (finish_tools is s)) = conv s"
proof (induction "is" arbitrary: s)
  case (Cons i "is")
  have "conv (snd (finish_tool i t s)) = conv s" for t
    by (simp add: finish_tool_def Let_def split_beta split: sum.splits)
  then show ?case using Cons
    by (auto split: prod.splits option.splits) (metis snd_conv)+
qed simp

lemma conv_resp_finish [simp]: "conv (snd (resp_finish f s)) = conv s"
  using conv_finish_tools [of "map fst (c_tools s)" s]
  by (auto simp: resp_finish_def simp del: conv_finish_tools split: prod.splits option.splits)

lemma conv_close_tools [simp]: "conv (snd (close_tools is s)) = conv s"
proof (induction "is" arbitrary: s)
  case (Cons i "is")
  have "conv (snd (close_tool i t s)) = conv s" for t
    by (simp add: close_tool_def Let_def split: sum.splits)
  then show ?case using Cons
    by (auto split: prod.splits option.splits) (metis snd_conv)+
qed simp

lemma conv_terminal [simp]: "conv (snd (responses_terminal b s)) = conv s"
proof -
  have "conv (snd (resp_close f s)) = conv s" for f s
    by (auto simp: resp_close_def resp_complete_def Let_def simp del: conv_close_tools split: prod.splits option.splits)
      (metis snd_conv conv_resp(1,2) conv_close_tools)+
  then show ?thesis by (simp add: responses_terminal_def Let_def)
qed

lemma conv_resp_start [simp]: "conv (resp_start ch s) = conv s"
proof -
  have "conv (s\<lparr>c_started := b, c_id := i, c_model := m\<rparr>) = conv s" for b i m by (simp add: conv_def)
  then show ?thesis by (simp add: resp_start_def)
qed

lemma conv_resp_choice [simp]: "conv (snd (resp_choice b c s)) = conv s"
proof -
  define u where "u = resp_content (cx_content c) (resp_thinking (reasoning_text (cx_reasoning c)) s)"
  have u: "conv u = conv s" by (simp add: u_def)
  obtain e s1 where r: "resp_tools (cx_tools c) u = (e, s1)" by fastforce
  then have s1: "conv s1 = conv s" using conv_resp_tools [of "cx_tools c" u] u by simp
  obtain e' s2 where f: "resp_finish (cx_finish c) s1 = (e', s2)" by fastforce
  then have s2: "conv s2 = conv s" using conv_resp_finish [of "cx_finish c" s1] s1 by simp
  show ?thesis
    by (cases e; cases e') (simp_all add: resp_choice_def u_def [symmetric] r f s1 s2 Let_def)
qed

lemma conv_responses_chunk [simp]: "conv (snd (responses_chunk ch s)) = conv s"
proof -
  obtain e s1 where t: "(if c_held s \<noteq> [] then responses_terminal False s else (None, s)) = (e, s1)" by fastforce
  have "conv s1 = conv s"
    using t conv_terminal [of False s] by (auto split: if_splits simp del: conv_terminal)
  then show ?thesis
    by (cases e; cases "ch_choices ch") (simp_all add: responses_chunk_def t Let_def)
qed

lemma conv_pass_tools [simp]: "conv (fold pass_tool tcs s) = conv s"
proof (induction tcs arbitrary: s)
  case (Cons tc tcs)
  have "conv (pass_tool tc s) = conv s" by (simp add: pass_tool_def Let_def conv_def)
  then show ?case using Cons by simp
qed simp

lemma conv_observe [simp]: "conv (observe_chunk ch s) = conv s"
  by (simp add: observe_chunk_def Let_def split: list.splits)

end
