(* ===== verification/Chat_Stream.thy ===== *)
theory Chat_Stream
  imports Chat_Frame
begin

text \<open>
  The converter of \<open>internal/adapter/chatcompletions/stream.go\<close> as its caller sees it:
  \<open>Feed\<close> over arbitrary chunks, \<open>Flush\<close>, \<open>FlushWithError\<close> and
  \<open>FinalizeStream\<close>, with the properties of whole streams.
\<close>

section \<open>Operations\<close>

definition chat_path :: string where
  "chat_path = ''/v1/chat/completions''"

definition handle_line :: "(string \<Rightarrow> string option) \<Rightarrow> string \<Rightarrow> cc \<Rightarrow> err option \<times> cc" where
  "handle_line backfill line s =
     (case c_target s of
        ToOpenAI \<Rightarrow> passthrough_line backfill line s
      | ToClaude \<Rightarrow> claude_line line s
      | ToResponses \<Rightarrow> responses_line line s
      | ToOther f \<Rightarrow> (Some (unsupported_format f chat_path), s))"

text \<open>A line handler leaves the frame alone, or marks the stream as done.\<close>

definition stays :: "cc \<Rightarrow> cc \<Rightarrow> bool" where
  "stays s s' = (conv s' = conv s \<or> conv s' = conv (s\<lparr>c_done := True\<rparr>))"

lemma staysD: "stays s s' \<Longrightarrow> c_target s' = c_target s \<and> c_buf s' = c_buf s \<and> c_flushed s' = c_flushed s"
  by (auto simp: stays_def conv_def)

lemma stays_done: "conv u = conv s \<Longrightarrow> stays s (u\<lparr>c_done := True\<rparr>)"
  by (auto simp: stays_def conv_def)

lemma stays_conv: "conv s' = conv s \<Longrightarrow> stays s s'"
  by (simp add: stays_def)

lemma stays_conv2: "stays s s' \<Longrightarrow> conv s'' = conv s' \<Longrightarrow> stays s s''"
  by (auto simp: stays_def)

lemma stays_passthrough: "stays s (snd (passthrough_line b line s))"
proof -
  have d: "conv (progress f (progress g (s\<lparr>c_done := True\<rparr>))) = conv (s\<lparr>c_done := True\<rparr>)" for f g by simp
  show ?thesis
    by (auto simp: passthrough_line_def Let_def d stays_def split: option.splits prod.splits bool.splits)
qed

lemma stays_claude: "stays s (snd (claude_line line s))"
proof -
  have d: "conv (claude_done s) = conv (s\<lparr>c_done := True\<rparr>)" by (simp add: claude_done_def)
  show ?thesis
  proof (cases "sse_data line")
    case (Some data)
    obtain r u where u: "decode_chunk data s = (r, u)" by fastforce
    then have "conv u = conv s" using conv_decode [of data s] by simp
    then show ?thesis using Some u d
      by (auto simp: claude_line_def stays_def split: option.splits sum.splits)
  qed (simp add: claude_line_def stays_def)
qed

lemma stays_responses: "stays s (snd (responses_line line s))"
proof (cases "sse_data line")
  case (Some data)
  obtain r u where u: "decode_chunk data s = (r, u)" by fastforce
  then have cu: "conv u = conv s" using conv_decode [of data s] by simp
  obtain e v where t: "responses_terminal True (stop_reasoning s) = (e, v)" by fastforce
  then have cv: "conv v = conv s" using conv_terminal [of True "stop_reasoning s"] by simp
  have "stays s (progress st_done (v\<lparr>c_done := True\<rparr>))"
    using stays_done [OF cv] by (rule stays_conv2) simp
  moreover have "stays s v" using cv by (rule stays_conv)
  moreover have "stays s (snd (responses_chunk c u))" for c using cu by (simp add: stays_def)
  ultimately show ?thesis using Some u t cu
    by (cases e; cases r) (auto simp: responses_line_def stays_conv)
qed (simp add: responses_line_def stays_def)

lemma stays_line: "stays s (snd (handle_line b line s))"
  by (simp add: handle_line_def stays_passthrough stays_claude stays_responses stays_conv split: target.splits)

text \<open>
  The loop of \<open>Feed\<close>: complete lines are taken off the buffer one by one. A line that
  fails ends the call with the events of the lines before it; its own are dropped.
\<close>

function feed_lines :: "(string \<Rightarrow> string option) \<Rightarrow> event list \<Rightarrow> cc \<Rightarrow> event list \<times> err option \<times> cc" where
  "feed_lines backfill evs s =
     (case split_at nl (c_buf s) of
        None \<Rightarrow> (evs, None, s)
      | Some (line, rest) \<Rightarrow>
          (case handle_line backfill (trim_suffix line [cr]) (s\<lparr>c_buf := rest, c_out := []\<rparr>) of
             (Some e, s') \<Rightarrow> (evs, Some e, s'\<lparr>c_out := []\<rparr>)
           | (None, s') \<Rightarrow>
               (let evs' = evs @ c_out s'; s'' = s'\<lparr>c_out := []\<rparr>
                in if c_done s' then (evs', None, s'') else feed_lines backfill evs' s'')))"
  by pat_completeness auto
termination
proof (relation "measure (\<lambda>(_, _, s). length (c_buf s))")
  fix backfill evs s x line rest y s' evs' s''
  assume a: "split_at nl (c_buf s) = Some x" "(line, rest) = x"
    "(y, s') = handle_line backfill (trim_suffix line [cr]) (s\<lparr>c_buf := rest, c_out := []\<rparr>)"
    "s'' = s'\<lparr>c_out := []\<rparr>"
  have "c_buf s' = rest"
    using staysD [OF stays_line [of "s\<lparr>c_buf := rest, c_out := []\<rparr>" backfill "trim_suffix line [cr]"]] a(3) [symmetric] by simp
  then show "((backfill, evs', s''), backfill, evs, s) \<in> measure (\<lambda>(_, _, s). length (c_buf s))"
    using a split_at_length by auto
qed simp

declare feed_lines.simps [simp del]

text \<open>\<open>Feed\<close>: events, whether the stream is done, the error, the new state.\<close>

definition feed_chat :: "(string \<Rightarrow> string option) \<Rightarrow> string \<Rightarrow> cc \<Rightarrow> event list \<times> bool \<times> err option \<times> cc" where
  "feed_chat backfill chunk s =
     (if c_done s then ([], True, None, s)
      else (case feed_lines backfill [] (s\<lparr>c_buf := c_buf s @ chunk\<rparr>) of
              (evs, Some e, s') \<Rightarrow> (evs, False, Some e, s')
            | (evs, None, s') \<Rightarrow> (evs, c_done s', None, s')))"

definition flush_chat :: "cc \<Rightarrow> event list \<times> cc" where
  "flush_chat s =
     (if c_flushed s then ([], s)
      else (let s0 = s\<lparr>c_flushed := True, c_out := []\<rparr>;
                s1 = (case c_target s of
                        ToClaude \<Rightarrow> claude_flush s0
                      | ToResponses \<Rightarrow> (case responses_terminal True s0 of
                                           (Some _, s') \<Rightarrow> s'\<lparr>c_out := []\<rparr>
                                         | (None, s') \<Rightarrow> s')
                      | _ \<Rightarrow> s0)
            in (c_out s1, s1\<lparr>c_out := []\<rparr>)))"

definition terminal_events :: "err option \<times> cc \<Rightarrow> event list \<times> err option \<times> cc" where
  "terminal_events r =
     (case r of
        (Some e, s') \<Rightarrow> ([], Some e, s'\<lparr>c_out := []\<rparr>)
      | (None, s') \<Rightarrow> (c_out s', None, s'\<lparr>c_out := []\<rparr>))"

definition finalize_chat :: "cc \<Rightarrow> event list \<times> err option \<times> cc" where
  "finalize_chat s =
     (case c_target s of
        ToResponses \<Rightarrow> terminal_events (responses_terminal False (s\<lparr>c_out := []\<rparr>))
      | ToOther _ \<Rightarrow> ([], None, s)
      | _ \<Rightarrow>
          (if s_terminal (c_snap s) then ([], None, s)
           else if \<not> s_finish (c_snap s)
           then ([], Some (translation ''Chat Completions stream ended before finish_reason''), s)
           else (case validate_accumulated_tools s of
                   Some e \<Rightarrow> ([], Some e, s)
                 | None \<Rightarrow> (let (evs, s') = flush_chat s in (evs, None, progress (st_terminal ''finish'') s')))))"

definition flush_with_error :: "cc \<Rightarrow> event list \<times> err option \<times> cc" where
  "flush_with_error s =
     (if c_target s \<noteq> ToResponses then finalize_chat s
      else if c_flushed s then ([], None, s)
      else terminal_events (responses_terminal True (s\<lparr>c_flushed := True, c_out := []\<rparr>)))"

text \<open>A run of \<open>Feed\<close> over the chunks of a body, up to the first error.\<close>

fun feed_body :: "(string \<Rightarrow> string option) \<Rightarrow> string list \<Rightarrow> cc \<Rightarrow> event list \<times> err option \<times> cc" where
  "feed_body backfill [] s = ([], None, s)"
| "feed_body backfill (c # cs) s =
     (case feed_chat backfill c s of
        (evs, _, Some e, s') \<Rightarrow> (evs, Some e, s')
      | (evs, _, None, s') \<Rightarrow> (case feed_body backfill cs s' of (evs', e, s'') \<Rightarrow> (evs @ evs', e, s'')))"

section \<open>Monitored streams\<close>

text \<open>
  What a target's line handler owes: from a state the monitor agrees with, the events of a line
  that does not fail are accepted, and the monitor agrees with the new state. Then the events of
  every body are accepted, however the network cut it.
\<close>

locale monitored = acceptor run for run :: "event list \<Rightarrow> 'm \<Rightarrow> 'm option" +
  fixes backfill :: "string \<Rightarrow> string option"
    and agrees :: "'m \<Rightarrow> cc \<Rightarrow> bool"
  assumes agrees_frame: "agrees m (s\<lparr>c_buf := b\<rparr>) = agrees m s" "agrees m (s\<lparr>c_out := evs\<rparr>) = agrees m s"
    and line: "agrees m s \<Longrightarrow> c_out s = [] \<Longrightarrow> \<not> c_done s \<Longrightarrow> handle_line backfill l s = (None, s') \<Longrightarrow>
      \<exists>m'. run (c_out s') m = Some m' \<and> agrees m' s'"
begin

lemma lines_accepted:
  "agrees m s \<Longrightarrow> \<not> c_done s \<Longrightarrow> run evs m0 = Some m \<Longrightarrow> feed_lines backfill evs s = (evs', e, s') \<Longrightarrow>
     \<exists>m'. run evs' m0 = Some m' \<and> (e = None \<longrightarrow> agrees m' s')"
proof (induction "length (c_buf s)" arbitrary: s evs m rule: less_induct)
  case less
  show ?case
  proof (cases "split_at nl (c_buf s)")
    case None
    then show ?thesis using less.prems by (subst (asm) feed_lines.simps) auto
  next
    case (Some lr)
    obtain l r where lr: "lr = (l, r)" by (cases lr)
    let ?s = "s\<lparr>c_buf := r, c_out := []\<rparr>"
    obtain y u where h: "handle_line backfill (trim_suffix l [cr]) ?s = (y, u)" by fastforce
    show ?thesis
    proof (cases y)
      case (Some x)
      then show ?thesis using less.prems \<open>split_at nl (c_buf s) = Some lr\<close> lr h
        by (subst (asm) feed_lines.simps) auto
    next
      case None
      have "agrees m ?s" using less.prems(1) agrees_frame by metis
      then obtain m' where m': "run (c_out u) m = Some m'" "agrees m' u"
        using line [of m ?s] h None less.prems(2) by fastforce
      let ?u = "u\<lparr>c_out := []\<rparr>"
      have u: "agrees m' ?u" "run (evs @ c_out u) m0 = Some m'"
        using m' agrees_frame less.prems(3) by (auto simp: run_append)
      show ?thesis
      proof (cases "c_done u")
        case True
        then show ?thesis using less.prems \<open>split_at nl (c_buf s) = Some lr\<close> lr h None u
          by (subst (asm) feed_lines.simps) (auto simp: Let_def)
      next
        case False
        have "c_buf u = r"
          using staysD [OF stays_line [of ?s backfill "trim_suffix l [cr]"]] h by simp
        then have "length (c_buf ?u) < length (c_buf s)"
          using split_at_length \<open>split_at nl (c_buf s) = Some lr\<close> lr by auto
        moreover have "feed_lines backfill (evs @ c_out u) ?u = (evs', e, s')"
          using less.prems(4) \<open>split_at nl (c_buf s) = Some lr\<close> lr h None False
          by (subst (asm) feed_lines.simps) (simp add: Let_def)
        ultimately show ?thesis using less.hyps [of ?u m' "evs @ c_out u"] u False by simp
      qed
    qed
  qed
qed

lemma feed_accepted:
  assumes "agrees m s" "feed_chat backfill chunk s = (evs, d, e, s')"
  shows "\<exists>m'. run evs m = Some m' \<and> (e = None \<longrightarrow> agrees m' s')"
proof (cases "c_done s")
  case True
  then show ?thesis using assms by (auto simp: feed_chat_def run_Nil)
next
  case False
  have "agrees m (s\<lparr>c_buf := c_buf s @ chunk\<rparr>)" using assms(1) agrees_frame by blast
  moreover obtain x where "feed_lines backfill [] (s\<lparr>c_buf := c_buf s @ chunk\<rparr>) = (evs, x, s')" "e = x"
    using assms(2) False by (auto simp: feed_chat_def split: prod.splits option.splits)
  ultimately show ?thesis using lines_accepted [of m _ "[]" m] False run_Nil by simp
qed

theorem body_accepted:
  "agrees m s \<Longrightarrow> feed_body backfill cs s = (evs, e, s') \<Longrightarrow>
     \<exists>m'. run evs m = Some m' \<and> (e = None \<longrightarrow> agrees m' s')"
proof (induction cs arbitrary: m s evs)
  case Nil
  then show ?case by (auto simp: run_Nil)
next
  case (Cons c cs)
  obtain evs1 d e1 s1 where f: "feed_chat backfill c s = (evs1, d, e1, s1)" by (cases "feed_chat backfill c s")
  obtain m1 where m1: "run evs1 m = Some m1" "e1 = None \<longrightarrow> agrees m1 s1"
    using feed_accepted [OF Cons.prems(1) f] by blast
  show ?case
  proof (cases e1)
    case (Some x)
    then show ?thesis using Cons.prems(2) f m1 by auto
  next
    case None
    obtain evs2 where r: "feed_body backfill cs s1 = (evs2, e, s')" "evs = evs1 @ evs2"
      using Cons.prems(2) f None by (auto split: prod.splits)
    then show ?thesis using Cons.IH [of m1 s1] m1 None by (auto simp: run_append)
  qed
qed

end

section \<open>The two synthesized targets\<close>

definition claude_agrees :: "monitor \<Rightarrow> cc \<Rightarrow> bool" where
  "claude_agrees m s = (seen_by m s \<and> c_target s = ToClaude \<and> (c_done s \<longrightarrow> m_open m = None))"

lemma claude_line_done:
  assumes "claude_line l s = (None, s')" "\<not> c_done s" "c_done s'"
  shows "s' = claude_done s"
proof (cases "sse_data l")
  case (Some data)
  obtain r u where u: "decode_chunk data s = (r, u)" by fastforce
  then have "c_done u = c_done s" using conv_decode [of data s] by (simp add: conv_def)
  moreover have "c_done (claude_chunk ch u) = c_done u" for ch using conv_claude_chunk [of ch u] by (simp add: conv_def)
  ultimately show ?thesis using Some u assms
    by (auto simp: claude_line_def split: option.splits sum.splits if_splits)
qed (use assms in \<open>simp add: claude_line_def\<close>)

interpretation claude: monitored watch_all backfill claude_agrees for backfill
proof
  show "watch_all (xs @ ys) m = Option.bind (watch_all xs m) (watch_all ys)" for xs ys m by (rule watch_append)
  show "claude_agrees m (s\<lparr>c_buf := b\<rparr>) = claude_agrees m s" "claude_agrees m (s\<lparr>c_out := evs\<rparr>) = claude_agrees m s" for m s b evs
    by (simp_all add: claude_agrees_def seen_by_def open_blocks_def open_tools_def tool_blocks_def)
next
  fix m s l s'
  assume a: "claude_agrees m s" "c_out s = []" "\<not> c_done s" "handle_line backfill l s = (None, s')"
  then have l: "claude_line l s = (None, s')" by (simp add: handle_line_def claude_agrees_def)
  have "accepted m s" using a by (intro acceptedI [of s m m]) (simp_all add: claude_agrees_def)
  then obtain m' where m': "watch_all (c_out s') m = Some m'" "seen_by m' s'"
    using accepted_line [of m s l s'] l by (auto simp: accepted_def)
  have "m_open m' = None" if "c_done s'"
  proof -
    have "s' = claude_done s" using claude_line_done [OF l a(3) that] .
    then have "open_blocks s' = []" using accepted_done [OF \<open>accepted m s\<close>] by simp
    then show ?thesis using m'(2) by (auto simp: seen_by_def split: option.splits)
  qed
  moreover have "c_target s' = ToClaude"
    using staysD [OF stays_line [of s backfill l]] a(1,4) by (simp add: claude_agrees_def)
  ultimately show "\<exists>m'. watch_all (c_out s') m = Some m' \<and> claude_agrees m' s'"
    using m' by (auto simp: claude_agrees_def)
qed simp

definition responses_agrees :: "rmonitor \<Rightarrow> cc \<Rightarrow> bool" where
  "responses_agrees m s = (tracks m s \<and> sound s \<and> all_sent s \<and> c_target s = ToResponses \<and> (c_done s \<longrightarrow> rm_completed m))"

lemma responses_line_done:
  assumes "responses_line l s = (None, s')" "\<not> c_done s" "c_done s'" "steady m0 s"
  shows "c_terminal_sent s'"
proof (cases "sse_data l")
  case (Some data)
  obtain r u where u: "decode_chunk data s = (r, u)" by fastforce
  then have cu: "c_done u = c_done s" using conv_decode [of data s] by (simp add: conv_def)
  obtain e v where t: "responses_terminal True (stop_reasoning s) = (e, v)" by fastforce
  have st: "c_terminal_sent v" if "e = None"
    using steady_terminal [OF steady_stop_reasoning [OF assms(4), THEN conjunct1], of True v] t that by simp
  have "c_done w = c_done u" if "responses_chunk ch u = (x, w)" for ch x w
    using conv_responses_chunk [of ch u] that by (simp add: conv_def)
  then show ?thesis using Some u t assms(1-3) cu st
    by (cases e; cases r) (auto simp: responses_line_def progress_def split: if_splits)
qed (use assms in \<open>simp add: responses_line_def\<close>)

interpretation responses: monitored rwatch_all backfill responses_agrees for backfill
proof
  show "rwatch_all (xs @ ys) m = Option.bind (rwatch_all xs m) (rwatch_all ys)" for xs ys m by (rule rwatch_append)
  show "responses_agrees m (s\<lparr>c_buf := b\<rparr>) = responses_agrees m s"
    "responses_agrees m (s\<lparr>c_out := evs\<rparr>) = responses_agrees m s" for m s b evs
    by (simp_all add: responses_agrees_def tracks_def sound_def all_sent_def lives_def opens_def keys_def
        think_live_def text_live_def)
next
  fix m s l s'
  assume a: "responses_agrees m s" "c_out s = []" "\<not> c_done s" "handle_line backfill l s = (None, s')"
  then have l: "responses_line l s = (None, s')" by (simp add: handle_line_def responses_agrees_def)
  have st: "steady m s" using a(1,2) by (simp add: steady_def responses_agrees_def trackedI)
  then have "steady m s'" using steady_line l by blast
  then obtain m' where m': "rwatch_all (c_out s') m = Some m'" "tracks m' s'" "sound s'" "all_sent s'"
    by (auto simp: steady_def tracked_def)
  have "rm_completed m'" if "c_done s'"
    using responses_line_done [OF l a(3) that st] m'(2) by (simp add: tracks_def)
  moreover have "c_target s' = ToResponses"
    using staysD [OF stays_line [of s backfill l]] a(1,4) by (simp add: responses_agrees_def)
  ultimately show "\<exists>m'. rwatch_all (c_out s') m = Some m' \<and> responses_agrees m' s'"
    using m' by (auto simp: responses_agrees_def)
qed simp

subsection \<open>The end of an Anthropic stream\<close>

text \<open>A second monitor: nothing follows message_stop.\<close>

fun ends :: "event list \<Rightarrow> bool \<Rightarrow> bool option" where
  "ends [] stopped = Some stopped"
| "ends (e # es) stopped = (if stopped then None else ends es (e = EvClaude CMessageStop))"

lemma ends_append: "ends (xs @ ys) b = Option.bind (ends xs b) (ends ys)"
  by (induction xs b rule: ends.induct) auto

lemma ends_quiet: "EvClaude CMessageStop \<notin> set xs \<Longrightarrow> ends xs False = Some False"
  by (induction xs) auto

lemma ends_last:
  "ends evs False = Some b \<Longrightarrow>
     (if b then \<exists>es. evs = es @ [EvClaude CMessageStop] \<and> EvClaude CMessageStop \<notin> set es
      else EvClaude CMessageStop \<notin> set evs)"
proof (induction evs)
  case (Cons e es)
  then show ?case by (cases es; cases "e = EvClaude CMessageStop") (auto split: if_splits intro: exI [of _ "e # _"])
qed simp

definition quiet :: "cc \<Rightarrow> bool" where
  "quiet s = (EvClaude CMessageStop \<notin> set (c_out s))"

lemma quiet_base [simp]:
  "quiet (emit e s) = (quiet s \<and> e \<noteq> EvClaude CMessageStop)" "quiet (progress f s) = quiet s"
  "quiet (usage_step u s) = quiet s"
  by (auto simp: quiet_def emit_def progress_def usage_step_def split: option.splits)

lemma quiet_stop [simp]: "quiet (stop_blocks s) = quiet s"
  by (auto simp: quiet_def stop_blocks_out)

lemma quiet_observe [simp]: "quiet (observe_choice c s) = quiet s"
  by (simp add: observe_choice_def Let_def)

lemma quiet_terminal [simp]: "quiet (claude_terminal s) = quiet s"
  by (simp add: claude_terminal_def Let_def) (simp add: quiet_def)

lemma quiet_ops [simp]:
  "quiet (claude_thinking r s) = quiet s" "quiet (claude_content t s) = quiet s" "quiet (claude_tool tc s) = quiet s"
  "quiet (claude_finish f s) = quiet s" "quiet (claude_start ch s) = quiet s"
proof -
  have k: "quiet (s0\<lparr>c_think_index := k, c_next := n, c_think_open := b\<rparr>) = quiet s0"
    "quiet (s0\<lparr>c_text_index := k, c_next := n, c_text_open := b\<rparr>) = quiet s0"
    "quiet (s0\<lparr>c_next := n, c_tools := ts, c_tools_seen := b\<rparr>) = quiet s0" "quiet (s0\<lparr>c_tools := ts\<rparr>) = quiet s0"
    "quiet (s0\<lparr>c_started := b\<rparr>) = quiet s0" "quiet (s0\<lparr>c_finished := b, c_held := f\<rparr>) = quiet s0" for s0 k n b ts f
    by (simp_all add: quiet_def)
  show "quiet (claude_thinking r s) = quiet s" "quiet (claude_content t s) = quiet s"
    by (simp_all add: claude_thinking_def claude_content_def Let_def k)
  show "quiet (claude_tool tc s) = quiet s"
    by (simp add: claude_tool_def claude_tool_args_def claude_open_tool_def Let_def k split: option.splits)
  show "quiet (claude_finish f s) = quiet s" by (simp add: claude_finish_def k)
  show "quiet (claude_start ch s) = quiet s" by (simp add: claude_start_def k)
qed

lemma quiet_tools [simp]: "quiet (fold claude_tool tcs s) = quiet s"
  by (induction tcs arbitrary: s) simp_all

lemma quiet_chunk [simp]: "quiet (claude_chunk ch s) = quiet s"
  by (simp add: claude_chunk_def claude_choice_def Let_def split: list.splits)

definition end_agrees :: "bool \<Rightarrow> cc \<Rightarrow> bool" where
  "end_agrees stopped s = (c_target s = ToClaude \<and> stopped = c_done s)"

lemma claude_line_quiet:
  assumes "claude_line l s = (None, s')" "\<not> c_done s" "\<not> c_done s'" "quiet s"
  shows "quiet s'"
proof (cases "sse_data l")
  case (Some data)
  obtain r u where u: "decode_chunk data s = (r, u)" by fastforce
  then have "quiet u = quiet s"
    by (auto simp: decode_chunk_def quiet_def split: prod.splits bool.splits option.splits if_splits)
  moreover have "conv (claude_done s) = conv (s\<lparr>c_done := True\<rparr>)" by (simp add: claude_done_def)
  then have "c_done (claude_done s)" by (simp add: conv_def)
  ultimately show ?thesis using Some u assms
    by (auto simp: claude_line_def split: option.splits sum.splits if_splits)
qed (use assms in \<open>simp add: claude_line_def\<close>)

interpretation claude_end: monitored ends backfill end_agrees for backfill
proof
  show "ends (xs @ ys) m = Option.bind (ends xs m) (ends ys)" for xs ys m by (rule ends_append)
next
  fix m s l s'
  assume a: "end_agrees m s" "c_out s = []" "\<not> c_done s" "handle_line backfill l s = (None, s')"
  then have l: "claude_line l s = (None, s')" by (simp add: handle_line_def end_agrees_def)
  have t: "c_target s' = ToClaude"
    using staysD [OF stays_line [of s backfill l]] a(1,4) by (simp add: end_agrees_def)
  have q: "quiet s" using a(2) by (simp add: quiet_def)
  show "\<exists>m'. ends (c_out s') m = Some m' \<and> end_agrees m' s'"
  proof (cases "c_done s'")
    case True
    define u where "u = claude_terminal (stop_blocks
          (progress (st_terminal ''message_stop'') (progress st_done (s\<lparr>c_done := True\<rparr>))))"
    have "s' = emit (EvClaude CMessageStop) u"
      using claude_line_done [OF l a(3) True] by (simp add: claude_done_def u_def)
    moreover have "quiet u" using q by (simp add: u_def) (simp add: quiet_def)
    ultimately have "ends (c_out s') False = Some True"
      using ends_quiet [of "c_out u"] by (simp add: quiet_def emit_def ends_append)
    then show ?thesis using True a(1,3) t by (auto simp: end_agrees_def)
  next
    case False
    then have "ends (c_out s') False = Some False"
      using ends_quiet claude_line_quiet [OF l a(3) _ q] by (simp add: quiet_def)
    then show ?thesis using False a(1,3) t by (auto simp: end_agrees_def)
  qed
qed (simp_all add: end_agrees_def)

section \<open>Properties\<close>

text \<open>A short upstream stream in two chunks that cut its last line.\<close>

definition chat_sample :: "string list" where
  "chat_sample = [''data: {\"id\":\"r\",\"choices\":[{\"delta\":{\"content\":\"hi\"},\"finish_reason\":\"stop\"}]}'',
     [nl] @ ''data: [DO'', ''NE]'' @ [nl]]"

lemma claude_sample_done:
  "Option.is_none (fst (snd (feed_body (\<lambda>_. None) chat_sample (new_cc ''claude'' empty_tool_context))))
   \<and> c_done (snd (snd (feed_body (\<lambda>_. None) chat_sample (new_cc ''claude'' empty_tool_context))))"
  by code_simp

definition tool_sample :: "string list" where
  "tool_sample = [''data: {\"choices\":[{\"delta\":{\"tool_calls\":[{\"id\":\"c\",\"function\":{\"name\":\"f\"}}]}}]}'' @ [nl]
     @ ''data: [DO'', ''NE]'' @ [nl]]"

lemma responses_sample_done:
  "Option.is_none (fst (snd (feed_body (\<lambda>_. None) tool_sample (new_cc ''openai-response'' empty_tool_context))))
   \<and> c_done (snd (snd (feed_body (\<lambda>_. None) tool_sample (new_cc ''openai-response'' empty_tool_context))))"
  by code_simp

text \<open>
  C12. Whatever bytes an upstream Chat Completions stream consists of and however they are cut into
  chunks, the Anthropic Messages events the converter gives keep these rules: message_start at most
  once and before every block; block indices that count up from 0, a block starting only when none
  is open; text and thinking deltas only for the open block of their kind; argument deltas only for
  a tool block that was started, which may be stopped already; stops only of the open block; at
  most one message_delta, while no block is open; message_stop at most once, last, and with a block
  open only if a block was started after message_delta; and no block is left open when the
  upstream's [DONE] was read. The two exceptions, arguments for a stopped block and blocks after
  message_delta, are marks of the monitor.
\<close>

theorem claude_stream_disciplined:
  "case feed_body backfill chunks (new_cc ''claude'' ctx) of
     (evs, e, s) \<Rightarrow> (\<exists>m. watch_all evs monitor_zero = Some m \<and> (e = None \<and> c_done s \<longrightarrow> m_open m = None))
       \<and> EvClaude CMessageStop \<notin> set (butlast evs)"
proof -
  let ?s = "new_cc ''claude'' ctx"
  have a: "claude_agrees monitor_zero ?s" "end_agrees False ?s"
    by (simp_all add: claude_agrees_def seen_by_def monitor_zero_def new_cc_def open_blocks_def open_tools_def
        tool_blocks_def target_of_def end_agrees_def)
  obtain evs e s where r: "feed_body backfill chunks ?s = (evs, e, s)" by (rule prod_cases3)
  obtain b where "ends evs False = Some b" using claude_end.body_accepted [OF a(2) r] by blast
  then have "EvClaude CMessageStop \<notin> set (butlast evs)"
    using ends_last [of evs b] by (auto split: if_splits dest: in_set_butlastD)
  then show ?thesis using claude.body_accepted [OF a(1) r] unfolding r prod.case
    by (auto simp: claude_agrees_def)
qed

lemma claude_stream_disciplined_witness:
  "case feed_body (\<lambda>_. None) chat_sample (new_cc ''claude'' empty_tool_context) of
     (evs, e, s) \<Rightarrow> (\<exists>m. watch_all evs monitor_zero = Some m \<and> m_open m = None)"
proof -
  obtain evs e s where r: "feed_body (\<lambda>_. None) chat_sample (new_cc ''claude'' empty_tool_context) = (evs, e, s)"
    by (rule prod_cases3)
  then have "e = None \<and> c_done s" using claude_sample_done by (simp add: Option.is_none_def)
  then show ?thesis using claude_stream_disciplined [of "\<lambda>_. None" chat_sample empty_tool_context]
    unfolding r prod.case by simp
qed

text \<open>
  An Anthropic stream ends once: as long as no line failed, message_stop has been sent exactly
  when the upstream's [DONE] was read, it was sent once, and nothing was sent after it, whatever
  the upstream sends after its own end.
\<close>

theorem claude_stream_ends_once:
  "case feed_body backfill chunks (new_cc ''claude'' ctx) of
     (evs, None, s) \<Rightarrow> (if c_done s then \<exists>es. evs = es @ [EvClaude CMessageStop] \<and> EvClaude CMessageStop \<notin> set es
                         else EvClaude CMessageStop \<notin> set evs)
   | (_, Some _, _) \<Rightarrow> True"
proof -
  obtain evs e s where r: "feed_body backfill chunks (new_cc ''claude'' ctx) = (evs, e, s)" by (rule prod_cases3)
  have "end_agrees False (new_cc ''claude'' ctx)" by (simp add: end_agrees_def new_cc_def target_of_def)
  then obtain b where "ends evs False = Some b" "e = None \<longrightarrow> b = c_done s"
    using claude_end.body_accepted [OF _ r, of False] by (auto simp: end_agrees_def)
  then show ?thesis unfolding r prod.case using ends_last by (auto split: option.splits)
qed

text \<open>
  C13. Whatever bytes an upstream Chat Completions stream consists of and however they are cut into
  chunks, the Responses events the converter gives keep the item lifecycle: sequence numbers
  1, 2, 3, ..., response.created first and once, every item announced once at a fresh index,
  deltas and done events only for items that are open, response.completed at most once, with no
  item open and one output entry per finished item; and it has been sent when the stream is done.
\<close>

theorem responses_stream_disciplined:
  "case feed_body backfill chunks (new_cc ''openai-response'' ctx) of
     (evs, e, s) \<Rightarrow> (\<exists>m. rwatch_all evs rmonitor_zero = Some m \<and> (e = None \<and> c_done s \<longrightarrow> rm_completed m))"
proof -
  have "responses_agrees rmonitor_zero (new_cc ''openai-response'' ctx)"
    by (simp add: responses_agrees_def tracks_def sound_def all_sent_def rmonitor_zero_def new_cc_def lives_def
        opens_def keys_def think_live_def text_live_def target_of_def)
  then show ?thesis
    using responses.body_accepted [of rmonitor_zero "new_cc ''openai-response'' ctx" backfill chunks]
    by (cases "feed_body backfill chunks (new_cc ''openai-response'' ctx)") (fastforce simp: responses_agrees_def)
qed

lemma responses_stream_disciplined_witness:
  "case feed_body (\<lambda>_. None) tool_sample (new_cc ''openai-response'' empty_tool_context) of
     (evs, e, s) \<Rightarrow> (\<exists>m. rwatch_all evs rmonitor_zero = Some m \<and> rm_completed m)"
proof -
  obtain evs e s where r: "feed_body (\<lambda>_. None) tool_sample (new_cc ''openai-response'' empty_tool_context) = (evs, e, s)"
    by (rule prod_cases3)
  then have "e = None \<and> c_done s" using responses_sample_done by (simp add: Option.is_none_def)
  then show ?thesis using responses_stream_disciplined [of "\<lambda>_. None" tool_sample empty_tool_context]
    unfolding r prod.case by simp
qed

section \<open>One line at a time\<close>

text \<open>The chunk of a data line, and a call of \<open>Feed\<close> that brings one whole line.\<close>

definition chunk_of :: "string \<Rightarrow> cc_chunk option" where
  "chunk_of line =
     (case sse_data line of
        None \<Rightarrow> None
      | Some data \<Rightarrow>
          (if data = [] \<or> is_sse_done data then None
           else (case unmarshal dec_cc_chunk data cc_chunk_zero of
                   (ch, ok) \<Rightarrow> if ok \<and> ch_error ch = None then Some ch else None)))"

lemma claude_chunk_line:
  "chunk_of line = Some ch \<Longrightarrow>
     claude_line line s = (None, claude_chunk ch (if ch_usage ch = None then s else s\<lparr>c_usage := ch_usage ch\<rparr>))"
  by (auto simp: chunk_of_def claude_line_def decode_chunk_def split: option.splits if_splits prod.splits bool.splits)

lemma feed_claude_line:
  assumes "c_target s = ToClaude" "\<not> c_done s" "c_buf s = []" "nl \<notin> set line"
    and "chunk_of (trim_suffix line [cr]) = Some ch"
  shows "\<exists>u. feed_chat backfill (line @ [nl]) s = (c_out u, False, None, u\<lparr>c_out := []\<rparr>) \<and> c_done u = False \<and> c_buf u = []
    \<and> u = claude_chunk ch (if ch_usage ch = None then s\<lparr>c_out := []\<rparr> else s\<lparr>c_out := [], c_usage := ch_usage ch\<rparr>)"
proof -
  let ?s = "s\<lparr>c_out := []\<rparr>"
  define u where "u = claude_chunk ch (if ch_usage ch = None then ?s else ?s\<lparr>c_usage := ch_usage ch\<rparr>)"
  have e: "s\<lparr>c_buf := line @ [nl], c_buf := [], c_out := []\<rparr> = ?s" using assms(3) by (cases s) simp
  have h: "handle_line backfill (trim_suffix line [cr]) ?s = (None, u)"
    using claude_chunk_line [OF assms(5), of ?s] assms(1) by (simp add: handle_line_def u_def)
  have "conv u = conv ?s" by (simp add: u_def)
  then have k: "c_done u = False" "c_buf u = []" using assms(2,3) by (simp_all add: conv_def)
  have stop: "feed_lines backfill es (u\<lparr>c_out := []\<rparr>) = (es, None, u\<lparr>c_out := []\<rparr>)" for es
    by (subst feed_lines.simps) (simp add: k)
  have "feed_lines backfill [] (s\<lparr>c_buf := line @ [nl]\<rparr>) = (c_out u, None, u\<lparr>c_out := []\<rparr>)"
    by (subst feed_lines.simps) (use assms(4) h k stop e in \<open>simp add: Let_def\<close>)
  then show ?thesis using assms(2,3) k by (intro exI [of _ u]) (simp add: feed_chat_def u_def)
qed

text \<open>A chunk that brings fragments of tool calls and nothing else.\<close>

definition brings_calls :: "tool_delta list \<Rightarrow> cc_chunk \<Rightarrow> bool" where
  "brings_calls tcs ch =
     (case ch_choices ch of
        [] \<Rightarrow> False
      | c # _ \<Rightarrow> cx_tools c = tcs \<and> cx_content c = [] \<and> \<not> snd (reasoning_text (cx_reasoning c)) \<and> cx_finish c = [])"

lemma calls_chunk:
  assumes "brings_calls tcs ch" "c_started s" "c_held s = []"
  obtains v where "claude_chunk ch s = fold claude_tool tcs v" "c_out v = c_out s" "c_tools v = c_tools s" "c_next v = c_next s"
    "open_blocks v = open_blocks s"
proof -
  obtain c cs where c: "ch_choices ch = c # cs" "cx_tools c = tcs" "cx_content c = []"
      "\<not> snd (reasoning_text (cx_reasoning c))" "cx_finish c = []"
    using assms(1) by (auto simp: brings_calls_def split: list.splits)
  define s1 where "s1 = (if \<not> s_started (c_snap s) then progress st_start s else s)"
  define v where "v = observe_choice c (usage_step (ch_usage ch) s1)"
  define view :: "cc \<Rightarrow> _" where "view x = (c_out x, c_tools x, c_next x, open_blocks x)" for x
  have p: "view (progress f x) = view x" "view (x\<lparr>c_usage_progress := y\<rparr>) = view x" for f x y
    by (simp_all add: view_def progress_def open_blocks_def open_tools_def)
  have "view v = view s"
    unfolding v_def s1_def observe_choice_def usage_step_def Let_def by (auto simp: p split: option.split)
  then have k: "c_out v = c_out s" "c_tools v = c_tools s" "c_next v = c_next s" "open_blocks v = open_blocks s"
    by (simp_all add: view_def)
  have h: "c_held s1 = []" "c_started (usage_step (ch_usage ch) s1)"
    using assms(2,3) by (simp_all add: s1_def progress_def usage_step_def split: option.splits)
  have "claude_chunk ch s = fold claude_tool tcs v"
    using c h by (simp add: claude_chunk_def claude_choice_def claude_start_def claude_thinking_def claude_content_def
        claude_finish_def v_def s1_def [symmetric] Let_def)
  then show thesis
    by (rule that) (rule k)+
qed

text \<open>
  C36. Interleaved fragments of parallel tool calls, which the upstream protocol allows, break the
  Anthropic protocol. Whenever the first fragment of a new call is followed by an argument fragment
  of an earlier call, the blocks that are open are stopped, the block of the new call is started,
  and then the arguments of the earlier call are sent for its block, which by then is stopped: it
  was stopped before, or it is one of those just stopped.
\<close>

theorem interleaved_arguments_after_stop:
  assumes "c_target s = ToClaude" "\<not> c_done s" "c_buf s = []" "c_started s" "c_held s = []"
    and "nl \<notin> set line" "chunk_of (trim_suffix line [cr]) = Some ch" "brings_calls [a, b] ch"
    and "map_of (c_tools s) (td_index a) = None" "map_of (c_tools s) (td_index b) = Some t" "td_args b \<noteq> []"
  shows "fst (feed_chat backfill (line @ [nl]) s) =
      map (\<lambda>(k, _). EvClaude (CBlockStop k)) (open_blocks s)
      @ [EvClaude (CBlockStart (c_next s) (BTool (td_id a) (td_name a)))]
      @ (if td_args a = [] then [] else [EvClaude (CBlockDelta (c_next s) (DJson (td_args a)))])
      @ [EvClaude (CBlockDelta (t_block t) (DJson (td_args b)))]
    \<and> (t_stopped t \<or> (t_block t, KTool) \<in> set (open_blocks s))"
proof
  let ?u = "if ch_usage ch = None then s\<lparr>c_out := []\<rparr> else s\<lparr>c_out := [], c_usage := ch_usage ch\<rparr>"
  obtain v where v: "claude_chunk ch ?u = fold claude_tool [a, b] v" "c_out v = []" "c_tools v = c_tools s" "c_next v = c_next s"
      "open_blocks v = open_blocks s"
  proof -
    have u: "c_started ?u" "c_held ?u = []" "c_out ?u = []" "c_tools ?u = c_tools s" "c_next ?u = c_next s" "open_blocks ?u = open_blocks s"
      using assms(4,5) by (simp_all add: open_blocks_def open_tools_def)
    obtain w where "claude_chunk ch ?u = fold claude_tool [a, b] w" "c_out w = c_out ?u" "c_tools w = c_tools ?u"
        "c_next w = c_next ?u" "open_blocks w = open_blocks ?u"
      by (rule calls_chunk [OF assms(8) u(1,2)])
    then show thesis using that [of w] by (simp only: u)
  qed
  have ne: "td_index b \<noteq> td_index a" using assms(9,10) by auto
  have sm: "map_of (map (\<lambda>(i, t). (i, t\<lparr>t_stopped := True\<rparr>)) xs) k = map_option (\<lambda>t. t\<lparr>t_stopped := True\<rparr>) (map_of xs k)" for xs k
    by (induction xs) auto
  have "c_out (fold claude_tool [a, b] v) = c_out (stop_blocks v)
      @ [EvClaude (CBlockStart (c_next s) (BTool (td_id a) (td_name a)))]
      @ (if td_args a = [] then [] else [EvClaude (CBlockDelta (c_next s) (DJson (td_args a)))])
      @ [EvClaude (CBlockDelta (t_block t) (DJson (td_args b)))]"
    using assms(9-11) ne v(3,4)
    by (auto simp: claude_tool_def claude_open_tool_def claude_tool_args_def emit_def Let_def sm new_tool_def map_add_def
        update_conv' map_of_append)
  then show "fst (feed_chat backfill (line @ [nl]) s) =
      map (\<lambda>(k, _). EvClaude (CBlockStop k)) (open_blocks s)
      @ [EvClaude (CBlockStart (c_next s) (BTool (td_id a) (td_name a)))]
      @ (if td_args a = [] then [] else [EvClaude (CBlockDelta (c_next s) (DJson (td_args a)))])
      @ [EvClaude (CBlockDelta (t_block t) (DJson (td_args b)))]"
    using feed_claude_line [OF assms(1-3,6,7), of backfill] v by (auto simp: stop_blocks_out)
  show "t_stopped t \<or> (t_block t, KTool) \<in> set (open_blocks s)"
    using map_of_SomeD [OF assms(10)] by (force simp: open_blocks_def open_tools_def)
qed

text \<open>A call is opened, then a second one in the chunk that brings the arguments of the first.\<close>

definition first_call_line :: string where
  "first_call_line = ''data: {\"choices\":[{\"delta\":{\"tool_calls\":[{\"id\":\"a\",\"function\":{\"name\":\"f\"}}]}}]}''"

definition second_call_line :: string where
  "second_call_line =
     ''data: {\"choices\":[{\"delta\":{\"tool_calls\":[{\"index\":1,\"id\":\"b\"},{\"function\":{\"arguments\":\"{}\"}}]}}]}''"

definition one_call :: cc where
  "one_call = snd (snd (snd (feed_chat (\<lambda>_. None) (first_call_line @ [nl]) (new_cc ''claude'' empty_tool_context))))"

definition new_fragment :: tool_delta where
  "new_fragment = \<lparr>td_index = 1, td_id = ''b'', td_name = [], td_args = []\<rparr>"

definition old_fragment :: tool_delta where
  "old_fragment = \<lparr>td_index = 0, td_id = [], td_name = [], td_args = ''{}''\<rparr>"

lemma one_call_sample:
  "let s = one_call in c_target s = ToClaude \<and> \<not> c_done s \<and> c_buf s = [] \<and> c_started s \<and> c_held s = []
     \<and> c_tools s = [(0, new_tool 0 ''a'' ''f'')] \<and> c_next s = 1 \<and> open_blocks s = [(0, KTool)]"
  by code_simp

lemma second_call_sample:
  "nl \<notin> set second_call_line
   \<and> (case chunk_of (trim_suffix second_call_line [cr]) of None \<Rightarrow> False | Some ch \<Rightarrow> brings_calls [new_fragment, old_fragment] ch)"
  by code_simp

lemma interleaved_arguments_after_stop_witness:
  "fst (feed_chat (\<lambda>_. None) (second_call_line @ [nl]) one_call) =
     [EvClaude (CBlockStop 0), EvClaude (CBlockStart 1 (BTool ''b'' [])), EvClaude (CBlockDelta 0 (DJson ''{}''))]"
proof -
  note s = one_call_sample [unfolded Let_def]
  obtain ch where ch: "chunk_of (trim_suffix second_call_line [cr]) = Some ch" "brings_calls [new_fragment, old_fragment] ch"
    using second_call_sample by (auto split: option.splits)
  show ?thesis
    using interleaved_arguments_after_stop [of one_call second_call_line ch new_fragment old_fragment
        "new_tool 0 ''a'' ''f''" "\<lambda>_. None", OF _ _ _ _ _ _ ch] s second_call_sample
    by (simp add: new_fragment_def old_fragment_def) (simp add: new_tool_def)
qed

end
