(* ===== verification/Messages_Stream.thy ===== *)
theory Messages_Stream
  imports Chat_Common
begin

text \<open>
  The converter of \<open>internal/adapter/messages/stream.go\<close>: an upstream Anthropic Messages
  stream, framed by the shared framer, becomes Chat Completions chunks, Responses events, or is
  passed through. Handlers collect the events of a call in \<open>ms_out\<close> (the slice
  \<open>events\<close> they get a pointer to). Maps are association lists; the order of Go's map
  iteration is never observable here (a validation that fails gives the same error for every
  block, and the output items are sorted).
\<close>

section \<open>Upstream events\<close>

record ms_usage =
  mu_input :: rat
  mu_output :: rat
  mu_read :: "rat option"
  mu_creation :: "rat option"

record start_message =
  sm_id :: string
  sm_model :: string
  sm_usage :: ms_usage

record content_block =
  bk_type :: string
  bk_id :: string
  bk_name :: string

record delta_body =
  dl_type :: string
  dl_text :: string
  dl_json :: string
  dl_stop :: string

record sse_ev =
  ev_type :: string
  ev_index :: rat
  ev_message :: start_message
  ev_block :: content_block
  ev_delta :: delta_body
  ev_usage :: ms_usage
  ev_error :: "(string \<times> json) list option"

definition ms_usage_zero :: ms_usage where
  "ms_usage_zero = \<lparr>mu_input = 0, mu_output = 0, mu_read = None, mu_creation = None\<rparr>"

definition dec_ms_usage :: "ms_usage dec" where
  "dec_ms_usage = dec_struct
     [(''input_tokens'', field mu_input mu_input_update dec_float),
      (''output_tokens'', field mu_output mu_output_update dec_float),
      (''cache_read_input_tokens'', field mu_read mu_read_update (dec_ptr 0 dec_float)),
      (''cache_creation_input_tokens'', field mu_creation mu_creation_update (dec_ptr 0 dec_float))]"

definition dec_start_message :: "start_message dec" where
  "dec_start_message = dec_struct
     [(''id'', field sm_id sm_id_update dec_string), (''model'', field sm_model sm_model_update dec_string),
      (''usage'', field sm_usage sm_usage_update dec_ms_usage)]"

definition dec_content_block :: "content_block dec" where
  "dec_content_block = dec_struct
     [(''type'', field bk_type bk_type_update dec_string), (''id'', field bk_id bk_id_update dec_string),
      (''name'', field bk_name bk_name_update dec_string)]"

definition dec_delta_body :: "delta_body dec" where
  "dec_delta_body = dec_struct
     [(''type'', field dl_type dl_type_update dec_string), (''text'', field dl_text dl_text_update dec_string),
      (''partial_json'', field dl_json dl_json_update dec_string),
      (''stop_reason'', field dl_stop dl_stop_update dec_string)]"

definition sse_ev_zero :: sse_ev where
  "sse_ev_zero = \<lparr>ev_type = [], ev_index = 0,
     ev_message = \<lparr>sm_id = [], sm_model = [], sm_usage = ms_usage_zero\<rparr>,
     ev_block = \<lparr>bk_type = [], bk_id = [], bk_name = []\<rparr>,
     ev_delta = \<lparr>dl_type = [], dl_text = [], dl_json = [], dl_stop = []\<rparr>,
     ev_usage = ms_usage_zero, ev_error = None\<rparr>"

definition dec_sse_ev :: "sse_ev dec" where
  "dec_sse_ev = dec_struct
     [(''type'', field ev_type ev_type_update dec_string), (''index'', field ev_index ev_index_update dec_float),
      (''message'', field ev_message ev_message_update dec_start_message),
      (''content_block'', field ev_block ev_block_update dec_content_block),
      (''delta'', field ev_delta ev_delta_update dec_delta_body),
      (''usage'', field ev_usage ev_usage_update dec_ms_usage),
      (''error'', field ev_error ev_error_update dec_raw_map)]"

text \<open>\<open>mget\<close> and \<open>sget\<close> on a possibly nil map.\<close>

definition mget :: "(string \<times> json) list option \<Rightarrow> string \<Rightarrow> (string \<times> json) list option" where
  "mget m k = (case m of
     None \<Rightarrow> None
   | Some kvs \<Rightarrow> (case map_of kvs k of Some (JObj o') \<Rightarrow> Some (raw_map o') | _ \<Rightarrow> None))"

definition sget :: "(string \<times> json) list option \<Rightarrow> string \<Rightarrow> string" where
  "sget m k = (case m of
     None \<Rightarrow> []
   | Some kvs \<Rightarrow> (case map_of kvs k of Some (JStr t) \<Rightarrow> unquote t | _ \<Rightarrow> []))"

definition anthropic_error_status :: "string \<Rightarrow> int" where
  "anthropic_error_status t =
     (if t = ''invalid_request_error'' then 400
      else if t = ''authentication_error'' then 401
      else if t = ''permission_error'' then 403
      else if t = ''not_found_error'' then 404
      else if t = ''request_too_large'' then 413
      else if t = ''rate_limit_error'' then 429
      else if t = ''overloaded_error'' then 503
      else 500)"

definition sse_error :: "(string \<times> json) list option \<Rightarrow> err" where
  "sse_error e =
     (let ty = sget e ''type''; msg = sget e ''message''; low = to_lower ty
      in from_status (anthropic_error_status ty)
           (if contains low ''gousagelimiterror'' \<or> contains low ''freeusagelimiterror''
            then ty @ '': '' @ msg else msg))"

section \<open>The state of the converter\<close>

record blk =
  b_kind :: string
  b_id :: string
  b_name :: string
  b_ordinal :: int
  b_out_idx :: int
  b_emitted :: bool
  b_text :: string
  b_args :: string

record ms =
  ms_framer :: framer
  ms_target :: target
  ms_created :: int
  ms_blocks :: "(int \<times> blk) list"
  ms_tool_ordinal :: int
  ms_id :: string
  ms_model :: string
  ms_prompt :: int
  ms_completion :: int
  ms_cache_read :: "int option"
  ms_cache_creation :: "int option"
  ms_stop :: string
  ms_tools_seen :: bool
  ms_role_sent :: bool
  ms_msg_idx :: int
  ms_out_count :: int
  ms_emitted :: bool
  ms_flushed :: bool
  ms_snap :: snapshot
  ms_last_usage :: ms_usage
  ms_seen :: "(int \<times> string) list"
  ms_out :: "event list"

definition new_ms :: "string \<Rightarrow> int \<Rightarrow> ms" where
  "new_ms source now = \<lparr>ms_framer = new_framer (source = ''claude''), ms_target = target_of source, ms_created = now,
     ms_blocks = [], ms_tool_ordinal = 0, ms_id = [], ms_model = [], ms_prompt = 0, ms_completion = 0,
     ms_cache_read = None, ms_cache_creation = None, ms_stop = [], ms_tools_seen = False, ms_role_sent = False,
     ms_msg_idx = - 1, ms_out_count = 0, ms_emitted = False, ms_flushed = False, ms_snap = snapshot_zero,
     ms_last_usage = ms_usage_zero, ms_seen = [], ms_out = []\<rparr>"

definition ms_emit :: "event \<Rightarrow> ms \<Rightarrow> ms" where
  "ms_emit e s = s\<lparr>ms_out := ms_out s @ [e]\<rparr>"

definition ms_progress :: "(snapshot \<Rightarrow> snapshot) \<Rightarrow> ms \<Rightarrow> ms" where
  "ms_progress f s = s\<lparr>ms_snap := f (ms_snap s)\<rparr>"

definition value_or_zero :: "int option \<Rightarrow> int" where
  "value_or_zero v = (case v of None \<Rightarrow> 0 | Some n \<Rightarrow> n)"

definition ms_input_total :: "ms \<Rightarrow> int" where
  "ms_input_total s =
     wrap64 (wrap64 (ms_prompt s + value_or_zero (ms_cache_read s)) + value_or_zero (ms_cache_creation s))"

definition capture_cache :: "ms_usage \<Rightarrow> ms \<Rightarrow> ms" where
  "capture_cache u s =
     (let s1 = (case mu_read u of None \<Rightarrow> s | Some v \<Rightarrow> s\<lparr>ms_cache_read := Some (trunc v)\<rparr>)
      in case mu_creation u of None \<Rightarrow> s1 | Some v \<Rightarrow> s1\<lparr>ms_cache_creation := Some (trunc v)\<rparr>)"

definition validate_tools :: "ms \<Rightarrow> err option" where
  "validate_tools s =
     (if list_ex (\<lambda>(_, b). b_kind b = ''tool_use'' \<and> \<not> json_valid (default_args (b_args b))) (ms_blocks s)
      then Some (translation ''Messages tool arguments were incomplete at stream completion'') else None)"

section \<open>The Chat Completions target\<close>

definition ms_builder :: "ms \<Rightarrow> chat_builder" where
  "ms_builder s = \<lparr>cb_chat_id = ms_id s, cb_model = ms_model s, cb_created = ms_created s\<rparr>"

definition emit_role :: "ms \<Rightarrow> ms" where
  "emit_role s =
     (if ms_role_sent s then s
      else ms_emit (EvChat (ms_builder s) role_chunk) (s\<lparr>ms_role_sent := True\<rparr>))"

definition emit_chunk :: "chat_delta \<Rightarrow> string \<Rightarrow> bool \<Rightarrow> ms \<Rightarrow> ms" where
  "emit_chunk d fin with_usage s =
     (if fin = [] then ms_emit (EvChat (ms_builder s) (delta_chunk d)) s
      else ms_emit (EvChat (ms_builder s) (finish_chunk fin
        (if with_usage
         then Some (cc_usage_from (ms_input_total s) (ms_completion s) (no_details\<lparr>u_cached := ms_cache_read s\<rparr>))
         else None))) s)"

definition new_blk :: "content_block \<Rightarrow> blk" where
  "new_blk b = \<lparr>b_kind = bk_type b, b_id = bk_id b, b_name = bk_name b, b_ordinal = 0, b_out_idx = 0,
     b_emitted = False, b_text = [], b_args = []\<rparr>"

definition put_blk :: "int \<Rightarrow> blk \<Rightarrow> ms \<Rightarrow> ms" where
  "put_blk i b s = s\<lparr>ms_blocks := AList.update i b (ms_blocks s)\<rparr>"

definition orphan_fragment :: err where
  "orphan_fragment = translation ''tool arguments fragment without a tool_use block start''"

definition ms_begin :: "sse_ev \<Rightarrow> ms \<Rightarrow> ms" where
  "ms_begin ev s =
     capture_cache (sm_usage (ev_message ev))
       (s\<lparr>ms_id := sm_id (ev_message ev), ms_model := sm_model (ev_message ev),
          ms_prompt := trunc (mu_input (sm_usage (ev_message ev)))\<rparr>)"

definition ms_count :: "sse_ev \<Rightarrow> ms \<Rightarrow> ms" where
  "ms_count ev s =
     capture_cache (ev_usage ev)
       ((if mu_input (ev_usage ev) \<noteq> 0 then s\<lparr>ms_prompt := trunc (mu_input (ev_usage ev))\<rparr> else s)
        \<lparr>ms_completion := trunc (mu_output (ev_usage ev))\<rparr>)"

definition openai_block :: "sse_ev \<Rightarrow> ms \<Rightarrow> ms" where
  "openai_block ev s =
     (let b = new_blk (ev_block ev); i = trunc (ev_index ev)
      in if b_kind b = ''tool_use''
         then put_blk i (b\<lparr>b_ordinal := ms_tool_ordinal s\<rparr>)
                (s\<lparr>ms_tool_ordinal := ms_tool_ordinal s + 1, ms_tools_seen := True\<rparr>)
         else put_blk i b s)"

definition openai_delta :: "sse_ev \<Rightarrow> ms \<Rightarrow> err option \<times> ms" where
  "openai_delta ev s =
     (let i = trunc (ev_index ev); b = map_of (ms_blocks s) i; d = ev_delta ev
      in if dl_type d = ''text_delta'' then (None, emit_chunk (ChatContent (dl_text d)) [] False (emit_role s))
         else if dl_type d = ''input_json_delta'' then
           (case b of
              None \<Rightarrow> (Some orphan_fragment, s)
            | Some t \<Rightarrow>
                (if b_kind t \<noteq> ''tool_use'' then (Some orphan_fragment, s)
                 else if \<not> b_emitted t then
                   (None, emit_chunk (ChatToolOpen (b_ordinal t) (b_id t) (b_name t) (dl_json d)) [] False
                            (emit_role (put_blk i (t\<lparr>b_emitted := True\<rparr>) s)))
                 else (None, emit_chunk (ChatToolArgs (b_ordinal t) (dl_json d)) [] False (emit_role s))))
         else (None, s))"

text \<open>A dispatch gives whether the stream is done, the error, and the state.\<close>

definition dispatch_openai :: "string \<Rightarrow> sse_ev \<Rightarrow> ms \<Rightarrow> bool \<times> err option \<times> ms" where
  "dispatch_openai etype ev s =
     (if etype = ''message_start'' then (False, None, emit_role (ms_begin ev s))
      else if etype = ''content_block_start'' then (False, None, openai_block ev s)
      else if etype = ''content_block_delta'' then (False, openai_delta ev s)
      else if etype = ''message_delta'' then
        (let s1 = ms_count ev s in
         (False, None, emit_chunk ChatEmpty
            (terminal_reason (ms_tools_seen s1) ''tool_calls'' (claude_stop_to_finish (dl_stop (ev_delta ev)))) True s1))
      else if etype = ''message_stop'' then (True, None, s)
      else if etype = ''error'' then (False, Some (sse_error (ev_error ev)), s)
      else (False, None, s))"

section \<open>The Responses target\<close>

definition ms_remit :: "resp_body \<Rightarrow> ms \<Rightarrow> ms" where
  "ms_remit b s = ms_emit (EvResp (None, b)) s"

definition responses_block :: "sse_ev \<Rightarrow> ms \<Rightarrow> ms" where
  "responses_block ev s0 =
     (let b = new_blk (ev_block ev); i = trunc (ev_index ev); s = put_blk i b s0
      in if b_kind b = ''text'' then
           (if 0 \<le> ms_msg_idx s then s
            else ms_remit (RItemAdded (ms_out_count s) (MsgOpen (ms_id s)))
                   (s\<lparr>ms_msg_idx := ms_out_count s, ms_out_count := ms_out_count s + 1\<rparr>))
         else if b_kind b = ''tool_use'' then
           ms_remit (RItemAdded (ms_out_count s) (CallOpen (b_id b) (b_name b) []))
             (put_blk i (b\<lparr>b_out_idx := ms_out_count s\<rparr>)
                (s\<lparr>ms_tools_seen := True, ms_out_count := ms_out_count s + 1\<rparr>))
         else s)"

definition responses_delta :: "sse_ev \<Rightarrow> ms \<Rightarrow> err option \<times> ms" where
  "responses_delta ev s =
     (let i = trunc (ev_index ev); b = map_of (ms_blocks s) i; d = ev_delta ev
      in if dl_type d = ''text_delta'' then
           (let s1 = (case b of None \<Rightarrow> s | Some t \<Rightarrow> put_blk i (t\<lparr>b_text := b_text t @ dl_text d\<rparr>) s)
            in (None, ms_remit (RTextDelta (ms_id s1) (if 0 \<le> ms_msg_idx s1 then ms_msg_idx s1 else i) (dl_text d)) s1))
         else if dl_type d = ''input_json_delta'' then
           (case b of
              None \<Rightarrow> (Some orphan_fragment, s)
            | Some t \<Rightarrow>
                (if b_kind t \<noteq> ''tool_use'' then (Some orphan_fragment, s)
                 else (None, ms_remit (RArgsDelta (b_id t) (b_out_idx t) (dl_json d))
                         (put_blk i (t\<lparr>b_args := b_args t @ dl_json d\<rparr>) s))))
         else (None, s))"

text \<open>\<open>outputItems\<close>: the blocks in upstream index order, through the shared assembler.\<close>

definition assemble_blk :: "blk \<Rightarrow> assembler \<Rightarrow> assembler" where
  "assemble_blk b a =
     (if b_kind b = ''text'' then add_text (b_text b) (reserve_text_slot a)
      else if b_kind b = ''tool_use'' then append_function_call (b_id b) (b_name b) [] (default_args (b_args b)) a
      else a)"

definition ms_output_items :: "ms \<Rightarrow> out_item list" where
  "ms_output_items s =
     List.map_filter id (assembled (fold assemble_blk (map snd (sort_key fst (ms_blocks s))) (new_assembler (ms_id s))))"

definition responses_completed :: "ms \<Rightarrow> resp_body" where
  "responses_completed s =
     RCompleted (ms_id s) (ms_model s) (response_status_from_claude_stop (ms_stop s))
       (new_responses_usage_from (ms_input_total s) (ms_completion s)
          \<lparr>u_cached = ms_cache_read s, u_cache_write = ms_cache_creation s, u_reasoning = None\<rparr>)
       (ms_output_items s)"

definition dispatch_responses :: "string \<Rightarrow> sse_ev \<Rightarrow> ms \<Rightarrow> bool \<times> err option \<times> ms" where
  "dispatch_responses etype ev s =
     (if etype = ''message_start'' then
        (let s1 = ms_begin ev s in (False, None, ms_remit (RCreated (ms_id s1) (ms_model s1)) s1))
      else if etype = ''content_block_start'' then (False, None, responses_block ev s)
      else if etype = ''content_block_delta'' then (False, responses_delta ev s)
      else if etype = ''message_delta'' then (False, None, (ms_count ev s)\<lparr>ms_stop := dl_stop (ev_delta ev)\<rparr>)
      else if etype = ''message_stop'' then (True, None, ms_remit (responses_completed s) s)
      else if etype = ''error'' then (False, Some (sse_error (ev_error ev)), s)
      else (False, None, s))"

section \<open>Passthrough\<close>

definition probe :: "string \<Rightarrow> (string \<times> json) list option" where
  "probe data = fst (unmarshal dec_raw_map data None)"

definition dispatch_claude :: "string \<Rightarrow> string \<Rightarrow> string \<Rightarrow> ms \<Rightarrow> bool \<times> err option \<times> ms" where
  "dispatch_claude etype0 data raw s =
     (let payload0 = (if etype0 = [] \<and> data \<noteq> [] then probe data else None);
          etype = (if etype0 = [] \<and> data \<noteq> [] then sget payload0 ''type'' else etype0)
      in if etype = ''error'' then
           (False, Some (sse_error (mget (if payload0 = None \<and> data \<noteq> [] then probe data else payload0) ''error'')), s)
         else (etype = ''message_stop'', None, if raw \<noteq> [] then ms_emit (EvRaw raw) s else s))"

section \<open>Feeding\<close>

definition messages_path :: string where
  "messages_path = ''/v1/messages''"

definition dispatch :: "string \<Rightarrow> string \<Rightarrow> string \<Rightarrow> ms \<Rightarrow> bool \<times> err option \<times> ms" where
  "dispatch etype0 data raw s =
     (if ms_target s = ToClaude then dispatch_claude etype0 data raw s
      else (case (if data \<noteq> [] then unmarshal dec_sse_ev data sse_ev_zero else (sse_ev_zero, True)) of
              (_, False) \<Rightarrow>
                (False, Some (translation (''malformed SSE data JSON: '' @ redacted_snippet data)), s)
            | (ev, True) \<Rightarrow>
                (let etype = (if data \<noteq> [] \<and> etype0 = [] then ev_type ev else etype0)
                 in case ms_target s of
                      ToOpenAI \<Rightarrow> dispatch_openai etype ev s
                    | ToResponses \<Rightarrow> dispatch_responses etype ev s
                    | ToOther f \<Rightarrow> (False, Some (unsupported_format f messages_path), s)
                    | ToClaude \<Rightarrow> (False, None, s))))"

definition block_signature :: "content_block \<Rightarrow> string" where
  "block_signature b = bk_type b @ [CHR 0x00] @ bk_id b @ [CHR 0x00] @ bk_name b"

definition observe_frame :: "string \<Rightarrow> string \<Rightarrow> ms \<Rightarrow> ms" where
  "observe_frame etype data s =
     (let ev = fst (unmarshal dec_sse_ev data sse_ev_zero) in
      if etype = ''message_start'' then (if s_started (ms_snap s) then s else ms_progress st_start s)
      else if etype = ''content_block_start'' then
        (let i = trunc (ev_index ev); sig = block_signature (ev_block ev)
         in if map_of (ms_seen s) i = Some sig then s
            else ms_progress st_advance (s\<lparr>ms_seen := AList.update i sig (ms_seen s)\<rparr>))
      else if etype = ''content_block_delta'' then
        (if dl_text (ev_delta ev) \<noteq> [] \<or> dl_json (ev_delta ev) \<noteq> [] then ms_progress st_advance s else s)
      else if etype = ''message_delta'' then
        (let s1 = (if trim_space (dl_stop (ev_delta ev)) \<noteq> [] \<and> \<not> s_finish (ms_snap s)
                   then ms_progress st_finish s else s)
         in if ev_usage ev = ms_last_usage s1 then s1
            else ms_progress st_advance (s1\<lparr>ms_last_usage := ev_usage ev\<rparr>))
      else if etype = ''message_stop'' then
        (if validate_tools s = None then ms_progress (st_terminal ''message_stop'') (ms_progress st_done s) else s)
      else s)"

text \<open>One iteration of the loop of \<open>Feed\<close> on a frame.\<close>

definition frame_step :: "frame \<Rightarrow> ms \<Rightarrow> bool \<times> err option \<times> ms" where
  "frame_step fr s =
     (case fr of (etype, data, raw) \<Rightarrow>
        (case dispatch etype data raw s of
           (d, e, s1) \<Rightarrow>
             (let s2 = (if ms_out s1 \<noteq> [] then s1\<lparr>ms_emitted := True\<rparr> else s1)
              in if e \<noteq> None then (False, e, s2)
                 else if d \<and> validate_tools s2 \<noteq> None then (False, validate_tools s2, s2)
                 else (d, None, observe_frame etype data s2))))"

function ms_loop :: "framer \<Rightarrow> ms \<Rightarrow> bool \<times> err option \<times> framer \<times> ms" where
  "ms_loop f s =
     (case frame_next f of
        (f', None) \<Rightarrow> (False, None, f', s)
      | (f', Some fr) \<Rightarrow>
          (case frame_step fr s of
             (d, e, s') \<Rightarrow> if d \<or> e \<noteq> None then (d, e, f', s') else ms_loop f' s'))"
  by pat_completeness auto
termination
  by (relation "measure (\<lambda>(f, _). length (fr_buf f))") (auto dest: frame_next_shorter [OF sym])

declare ms_loop.simps [simp del]

definition feed_ms :: "string \<Rightarrow> ms \<Rightarrow> event list \<times> bool \<times> err option \<times> ms" where
  "feed_ms chunk s =
     (case ms_loop (push (ms_framer s) chunk) (s\<lparr>ms_out := []\<rparr>) of
        (d, e, f, s') \<Rightarrow> (ms_out s', d, e, s'\<lparr>ms_framer := f, ms_out := []\<rparr>))"

definition flush_ms :: "ms \<Rightarrow> event list \<times> ms" where
  "flush_ms s =
     (if ms_flushed s then ([], s)
      else (let s1 = s\<lparr>ms_flushed := True\<rparr> in
            if \<not> ms_emitted s then ([], s1)
            else if ms_target s = ToResponses then ([EvResp (None, responses_completed s1)], s1)
            else ([], s1)))"

definition finalize_ms :: "ms \<Rightarrow> event list \<times> err option \<times> ms" where
  "finalize_ms s =
     (if s_terminal (ms_snap s) then ([], None, s)
      else if \<not> s_finish (ms_snap s)
      then ([], Some (translation ''Messages stream ended before a terminal stop reason''), s)
      else (case validate_tools s of
              Some e \<Rightarrow> ([], Some e, s)
            | None \<Rightarrow> (let (evs, s') = flush_ms s in (evs, None, ms_progress (st_terminal ''finish'') s'))))"

end
