(* ===== verification/Streaming.thy ===== *)
theory Streaming
  imports Pump Chat_Stream Messages_Stream
begin

text \<open>
  A running stream of \<open>internal/plugin/executor.go\<close>: the pump together with its controller,
  in every interleaving, and with the converters it drives. A reading the pump gets carries the
  cause the controller shows at that moment; the timer calls of a turn are the controller's own
  actions, with the expiry of timers and their callbacks anywhere between them.
\<close>

section \<open>Pump and timers\<close>

text \<open>The actions of the pump among those of the controller.\<close>

definition owner :: "action \<Rightarrow> bool" where
  "owner a = (case a of Arm _ _ \<Rightarrow> True | Stop \<Rightarrow> True | _ \<Rightarrow> False)"

definition timer_acts :: "'e act list \<Rightarrow> action list" where
  "timer_acts as = List.map_filter (\<lambda>a. case a of Timer t \<Rightarrow> Some t | _ \<Rightarrow> None) as"

text \<open>
  \<open>bound\<close> is the delay of the total timer and \<open>d\<close> that of the first-data timer. After
  its turn the pump waits in \<open>StreamRead\<close> while timers expire and callbacks run.
\<close>

inductive system :: "('s, 'e) pump_env \<Rightarrow> int \<Rightarrow> int \<Rightarrow> 's \<Rightarrow> ('s, 'e) pump \<Rightarrow> controller \<Rightarrow> bool"
  for x bound d c where
  start: "ctl_run as (new_controller bound) k \<Longrightarrow> filter owner as = [Arm d ''first_data''] \<Longrightarrow>
    system x bound d c (start_pump d c) k"
| wait: "system x bound d c p k \<Longrightarrow> ctl_step a k k' \<Longrightarrow> \<not> owner a \<Longrightarrow> system x bound d c p k'"
| turn: "system x bound d c p k \<Longrightarrow> \<not> p_over p \<Longrightarrow> rd_cause r = ct_cause k \<Longrightarrow> ctl_run as k k' \<Longrightarrow>
    timer_acts (p_acts (pump_turn x r p)) = timer_acts (p_acts p) @ filter owner as \<Longrightarrow>
    system x bound d c (pump_turn x r p) k'"

lemma timer_acts_simps [simp]:
  "timer_acts [] = []" "timer_acts (as @ bs) = timer_acts as @ timer_acts bs"
  "timer_acts (Deliver e # as) = timer_acts as" "timer_acts (CloseUp # as) = timer_acts as"
  "timer_acts (CloseDown m # as) = timer_acts as" "timer_acts (Timer t # as) = t # timer_acts as"
  "timer_acts (LogDone b f # as) = timer_acts as"
  by (simp_all add: timer_acts_def List.map_filter_def)

lemma ctl_run_append: "ctl_run bs s' s'' \<Longrightarrow> ctl_run as s s' \<Longrightarrow> ctl_run (as @ bs) s s''"
proof (induction rule: ctl_run.induct)
  case (snoc bs s' t a u)
  then show ?case using ctl_run.snoc by fastforce
qed simp

lemma system_history:
  "system x bound d c p k \<Longrightarrow> \<exists>as. ctl_run as (new_controller bound) k \<and> filter owner as = timer_acts (p_acts p)"
proof (induction rule: system.induct)
  case (start as k)
  then show ?case by (auto simp: start_pump_def)
next
  case (wait p k a k')
  then obtain as where "ctl_run as (new_controller bound) k" "filter owner as = timer_acts (p_acts p)" by blast
  then show ?case using ctl_run.snoc wait.hyps by (intro exI [of _ "as @ [a]"]) auto
next
  case (turn p k r as k')
  then obtain bs where "ctl_run bs (new_controller bound) k" "filter owner bs = timer_acts (p_acts p)" by blast
  then show ?case using ctl_run_append turn.hyps by (intro exI [of _ "bs @ as"]) auto
qed

text \<open>A cause was armed, or is that of the total timer.\<close>

definition known_causes :: "string set \<Rightarrow> controller \<Rightarrow> bool" where
  "known_causes C s = ((ct_cause s = [] \<or> ct_cause s \<in> C) \<and> (\<forall>t \<in> live_timers s. tm_cause t \<in> C))"

definition causes_of :: "action list \<Rightarrow> string set" where
  "causes_of as = insert ''total'' {cause. \<exists>d. Arm d cause \<in> set as}"

lemma known_mono: "known_causes C s \<Longrightarrow> C \<subseteq> D \<Longrightarrow> known_causes D s"
  by (auto simp: known_causes_def)

lemma known_step:
  assumes "ctl_step a s s'" "known_causes C s" "\<forall>d cause. a = Arm d cause \<longrightarrow> cause \<in> C"
  shows "known_causes C s'"
  using assms
proof (induction rule: ctl_step.induct)
  case (fire t s)
  have "live_timers (Controller.fire t (s\<lparr>ct_running := remove1 t (ct_running s)\<rparr>)) \<subseteq> live_timers s"
    by (auto simp: live_timers_def fire_def dest: set_remove1_le)
  moreover have "t \<in> live_timers s" using fire(1) by (simp add: live_timers_def)
  ultimately show ?case using fire(2) by (auto simp: known_causes_def fire_def)
qed (auto simp: known_causes_def live_timers_def arm_phase_def Let_def close_upstream_def stop_def)

lemma known_run: "ctl_run as (new_controller bound) k \<Longrightarrow> known_causes (causes_of as) k"
proof (induction as "new_controller bound" k rule: ctl_run.induct)
  case none
  then show ?case by (auto simp: known_causes_def new_controller_def arm_total_def live_timers_def causes_of_def)
next
  case (snoc as k a k')
  then have "known_causes (causes_of (as @ [a])) k" by (auto simp: causes_of_def elim!: known_mono)
  then show ?case using known_step [OF snoc(3)] by (auto simp: causes_of_def)
qed

lemma system_cause:
  assumes "system x bound d c p k" "ct_cause k \<noteq> []" "ct_cause k \<noteq> ''total''"
  shows "\<exists>e. Timer (Arm e (ct_cause k)) \<in> set (p_acts p)"
proof -
  obtain as where as: "ctl_run as (new_controller bound) k" "filter owner as = timer_acts (p_acts p)"
    using system_history [OF assms(1)] by blast
  then obtain e where "Arm e (ct_cause k) \<in> set as"
    using known_run [OF as(1)] assms(2,3) by (auto simp: known_causes_def causes_of_def)
  then have "Arm e (ct_cause k) \<in> set (timer_acts (p_acts p))" by (simp add: owner_def flip: as(2))
  then show ?thesis by (auto simp: timer_acts_def map_filter_def split: act.splits)
qed

section \<open>The timers never block the pump\<close>

lemma stopped_iff: "ctl_run as (new_controller bound) k \<Longrightarrow> ct_stopped k = (Stop \<in> set as)"
proof (induction as "new_controller bound" k rule: ctl_run.induct)
  case none
  then show ?case by (simp add: new_controller_def arm_total_def)
next
  case (snoc as k a k')
  from snoc(3) have "ct_stopped k' = (ct_stopped k \<or> a = Stop)"
    by (cases rule: ctl_step.cases) (auto simp: arm_phase_def Let_def fire_def close_upstream_def stop_def)
  then show ?case using snoc by auto
qed

definition arming :: "action \<Rightarrow> bool" where
  "arming a = (case a of Arm _ cause \<Rightarrow> cause \<noteq> [] | _ \<Rightarrow> False)"

lemma working_timers: "list_all working as \<Longrightarrow> list_all arming (timer_acts as)"
  by (induction as) (auto simp: working_def arming_def split: act.splits action.splits)

lemma arming_run:
  "list_all arming ts \<Longrightarrow> \<not> ct_stopped k \<Longrightarrow> \<exists>k'. ctl_run ts k k' \<and> \<not> ct_stopped k' \<and> ct_cause k' = ct_cause k"
proof (induction ts rule: rev_induct)
  case (snoc t ts)
  then obtain k' where k': "ctl_run ts k k'" "\<not> ct_stopped k'" "ct_cause k' = ct_cause k" by auto
  obtain d cause where t: "t = Arm d cause" "cause \<noteq> []" using snoc.prems(1) by (auto simp: arming_def split: action.splits)
  have "ctl_step t k' (arm_phase d cause k')" using t k'(2) ctl_step.arm by simp
  then show ?case using ctl_run.snoc [OF k'(1)] k' by (intro exI [of _ "arm_phase d cause k'"]) (simp add: arm_phase_def Let_def)
qed (auto intro: ctl_run.none)

lemma arming_owner: "list_all arming ts \<Longrightarrow> filter owner ts = ts \<and> Stop \<notin> set ts"
  by (induction ts) (auto simp: arming_def owner_def split: action.splits)

text \<open>
  In every state of the system a running pump can take its turn with any reading that carries the
  cause the controller shows; the controller's cause does not change by it.
\<close>

lemma turn_possible:
  assumes "system x bound d c p k" "live_pump p" "rd_cause r = ct_cause k"
  shows "\<exists>k'. system x bound d c (pump_turn x r p) k' \<and> ct_cause k' = ct_cause k"
proof -
  let ?p = "pump_turn x r p"
  obtain bs where bs: "p_acts ?p = p_acts p @ bs" using acts_turn [of p x r] by (auto simp: prefix_def)
  obtain as where as: "ctl_run as (new_controller bound) k" "filter owner as = timer_acts (p_acts p)"
    using system_history [OF assms(1)] by blast
  have w: "list_all working (p_acts p)" using assms(2) by (simp add: live_pump_def)
  have "Stop \<notin> set (timer_acts (p_acts p))" using arming_owner [OF working_timers [OF w]] by blast
  then have ns: "\<not> ct_stopped k" using stopped_iff [OF as(1)] by (auto simp: owner_def simp flip: as(2))
  obtain ts e where ts: "timer_acts bs = ts @ e" "list_all arming ts" "e = [] \<or> e = [Stop]"
  proof (cases "live_pump ?p")
    case True
    then have "list_all arming (timer_acts bs)" using working_timers bs by (auto simp: live_pump_def)
    then show ?thesis using that [of _ "[]"] by simp
  next
    case False
    then have "released (p_acts p @ bs)" using turn_shape [OF assms(2), of x r] bs by simp
    then obtain pre z where pz: "p_acts p @ bs = pre @ z" "list_all working pre" "z \<noteq> []" "\<not> working (hd z)" "timer_acts z = [Stop]"
      unfolding released_def by (fastforce simp: working_def)
    have "prefix (p_acts p) pre"
    proof (rule ccontr)
      assume n: "\<not> prefix (p_acts p) pre"
      then obtain us where us: "p_acts p = pre @ us" "us @ bs = z"
        using pz(1) by (auto simp: append_eq_append_conv2 prefix_def)
      then have "us \<noteq> []" using n by auto
      then have "hd z \<in> set (p_acts p)" using us by auto
      then show False using w pz(4) by (auto simp: list_all_iff)
    qed
    then obtain zs where "pre = p_acts p @ zs" by (auto simp: prefix_def)
    then have "timer_acts bs = timer_acts zs @ [Stop]" "list_all arming (timer_acts zs)"
      using pz working_timers by auto
    then show ?thesis using that by blast
  qed
  obtain k1 where k1: "ctl_run ts k k1" "\<not> ct_stopped k1" "ct_cause k1 = ct_cause k"
    using arming_run [OF ts(2) ns] by blast
  have "\<exists>k2. ctl_run (ts @ e) k k2 \<and> ct_cause k2 = ct_cause k"
    using ts(3) k1 ctl_run.snoc [OF k1(1) ctl_step.stop [OF k1(2)]] by (auto simp: stop_def)
  then obtain k2 where k2: "ctl_run (ts @ e) k k2" "ct_cause k2 = ct_cause k" by blast
  have "filter owner (ts @ e) = ts @ e" using ts(3) arming_owner [OF ts(2)] by (auto simp: owner_def)
  then have "timer_acts (p_acts ?p) = timer_acts (p_acts p) @ filter owner (ts @ e)" using bs ts(1) by simp
  then have "system x bound d c ?p k2"
    using system.turn [OF assms(1) _ assms(3) k2(1)] assms(2) by (simp add: live_pump_def)
  then show ?thesis using k2(2) by blast
qed

text \<open>Without an expiry every run of the pump is one of the system.\<close>

lemma quiet_system:
  "list_all (\<lambda>r. rd_cause r = []) rs \<Longrightarrow> \<exists>k. system x bound d c (pump_run x rs (start_pump d c)) k \<and> ct_cause k = []"
proof (induction rs rule: rev_induct)
  case Nil
  let ?k = "new_controller bound"
  have k: "\<not> ct_stopped ?k" "ct_cause ?k = []" by (simp_all add: new_controller_def arm_total_def)
  then have "ctl_run ([] @ [Arm d ''first_data'']) ?k (arm_phase d ''first_data'' ?k)"
    by (intro ctl_run.snoc [OF ctl_run.none] ctl_step.arm) simp_all
  then have "system x bound d c (start_pump d c) (arm_phase d ''first_data'' ?k)"
    by (rule system.start) (simp add: owner_def)
  then show ?case using k by (auto simp: arm_phase_def Let_def)
next
  case (snoc r rs)
  let ?p = "pump_run x rs (start_pump d c)"
  obtain k where k: "system x bound d c ?p k" "ct_cause k = []" using snoc by auto
  have a: "pump_run x (as @ bs) s = pump_run x bs (pump_run x as s)" for as bs and s :: "('a, 'b) pump"
    by (induction as arbitrary: s) (simp_all add: run_over)
  show ?case
  proof (cases "p_over ?p")
    case True
    then show ?thesis using k a [of rs "[r]"] by auto
  next
    case False
    then have "live_pump ?p" using run_shape [OF disjI1 [OF live_start], of x rs d c] by simp
    then show ?thesis using turn_possible [OF k(1)] k(2) snoc.prems a [of rs "[r]"] False by auto
  qed
qed

section \<open>Accepted streams\<close>

text \<open>The stream closed without an error.\<close>

definition clean_end :: "'e act list \<Rightarrow> bool" where
  "clean_end as = (as \<noteq> [] \<and> last as = CloseDown [])"

definition grace_armed :: "'e act list \<Rightarrow> bool" where
  "grace_armed as = list_ex (\<lambda>a. case a of Timer (Arm _ cause) \<Rightarrow> cause = ''finish_grace'' | _ \<Rightarrow> False) as"

lemma grace_simps [simp]:
  "grace_armed (as @ bs) = (grace_armed as \<or> grace_armed bs)" "\<not> grace_armed []"
  "grace_armed (Timer (Arm d cause) # as) = (cause = ''finish_grace'' \<or> grace_armed as)"
  "grace_armed (Deliver e # as) = grace_armed as" "grace_armed (LogDone b f # as) = grace_armed as"
  by (simp_all add: grace_armed_def)

lemma grace_emit: "emit_all sink evs s = (y, s') \<Longrightarrow> grace_armed (p_acts s') = grace_armed (p_acts s)"
  by (induction sink evs s rule: emit_all.induct) (auto split: option.splits)

lemma grace_observe:
  "grace_armed (p_acts (observe_progress l snap s)) \<Longrightarrow> grace_armed (p_acts s) \<or> s_finish snap"
  by (auto simp: observe_progress_def Let_def split: if_splits)

text \<open>What a monitor says of a returned pump.\<close>

definition accounted_for :: "('e list \<Rightarrow> 'm \<Rightarrow> 'm option) \<Rightarrow> ('m \<Rightarrow> bool) \<Rightarrow> 'm \<Rightarrow> ('s, 'e) pump \<Rightarrow> bool" where
  "accounted_for run ended m0 p =
     (\<exists>m. run (delivered (p_acts p)) m0 = Some m \<and> (clean_end (p_acts p) \<longrightarrow> ended m))"

text \<open>
  The contract of a converter with a monitor of its events: fed from a state the monitor agrees
  with, its events are accepted and the monitor agrees with the new state, and has reached the end
  when the converter says it is done; so has it when the converter is flushed, or finalized after
  a finish was seen, without an error.
\<close>

locale pumped = acceptor run for run :: "'e list \<Rightarrow> 'm \<Rightarrow> 'm option" +
  fixes ops :: "('s, 'e) conv_ops"
    and agrees :: "'m \<Rightarrow> 's \<Rightarrow> bool"
    and ended :: "'m \<Rightarrow> bool"
  assumes feed: "agrees m s \<Longrightarrow> op_feed ops b s = (evs, d, e, s') \<Longrightarrow>
      \<exists>m'. run evs m = Some m' \<and> (e = None \<longrightarrow> agrees m' s' \<and> (d \<longrightarrow> ended m'))"
    and flush: "agrees m s \<Longrightarrow> op_flush ops s = (evs, None, s') \<Longrightarrow> \<exists>m'. run evs m = Some m' \<and> ended m'"
    and final: "agrees m s \<Longrightarrow> s_finish (op_snap ops s) \<Longrightarrow> op_final ops s = (evs, None, s') \<Longrightarrow>
      \<exists>m'. run evs m = Some m' \<and> ended m'"
    and finish_stays: "agrees m s \<Longrightarrow> op_feed ops b s = (evs, d, None, s') \<Longrightarrow> s_finish (op_snap ops s) \<Longrightarrow>
      s_finish (op_snap ops s')"
begin

lemma accepted_prefix: "prefix es evs \<Longrightarrow> run evs m = Some m' \<Longrightarrow> \<exists>m1. run es m = Some m1"
  using run_prefix [of es _ m] by (force simp: prefix_def)

lemma failed_accounted: "failed s \<Longrightarrow> run (delivered (p_acts s)) m0 = Some m \<Longrightarrow> accounted_for run ended m0 (deferred s)"
  by (auto simp: accounted_for_def failed_def clean_end_def deferred_def close_streams_def)

lemma fail_accounted:
  "live_pump s \<Longrightarrow> run (delivered (p_acts s)) m0 = Some m \<Longrightarrow> accounted_for run ended m0 (deferred (fail_with a b d s))"
  by (rule failed_accounted [OF failed_fail]) simp_all

lemma ended_accounted:
  "run (delivered (p_acts s)) m0 = Some m \<Longrightarrow> ended m \<Longrightarrow> accounted_for run ended m0 (deferred s)"
  by (auto simp: accounted_for_def)

lemma final_accounted:
  assumes l: "live_pump s" and m: "run (delivered (p_acts s)) m0 = Some m"
    and r: "\<And>evs c. r = (evs, None, c) \<Longrightarrow> \<exists>m'. run evs m = Some m' \<and> ended m'"
  shows "accounted_for run ended m0 (deferred (emit_final x bad cause b r s))"
proof -
  obtain evs e c where e: "r = (evs, e, c)" by (cases r)
  show ?thesis
  proof (cases e)
    case (Some y)
    then show ?thesis using e fail_accounted [of "s\<lparr>p_conv := c\<rparr>" m0 m] l m by (simp add: emit_final_def)
  next
    case None
    then obtain m' where m': "run evs m = Some m'" "ended m'" using r e by blast
    obtain y s' where s': "emit_all (px_sink x) evs (s\<lparr>p_conv := c\<rparr>) = (y, s')" by fastforce
    obtain es where es: "prefix es evs" "delivered (p_acts s') = delivered (p_acts s) @ es" "y = None \<longrightarrow> es = evs"
      using emit_delivers [OF s'] by auto
    obtain m1 where m1: "run es m = Some m1" using accepted_prefix es(1) m'(1) by blast
    have "live_pump s'" using live_emit [OF s'] l by simp
    moreover have "run (delivered (p_acts s')) m0 = Some m1" using run_snoc [OF m m1] es(2) by simp
    ultimately show ?thesis
      using fail_accounted [of s' m0 m1] ended_accounted [of "log_done cause b s'" m0 m1] e None s' m' m1 es(3)
      by (cases y) (simp_all add: emit_final_def)
  qed
qed

text \<open>What holds between turns.\<close>

lemma turn_accounted:
  assumes x: "px_ops x = ops" and l: "live_pump p" and m: "run (delivered (p_acts p)) m0 = Some m" "agrees m (p_conv p)"
    and g: "grace_armed (p_acts p) \<Longrightarrow> s_finish (op_snap ops (p_conv p))"
    and c: "rd_cause r = ''finish_grace'' \<Longrightarrow> grace_armed (p_acts p)"
  shows "if p_over (pump_turn x r p) then accounted_for run ended m0 (pump_turn x r p)
    else \<exists>m'. run (delivered (p_acts (pump_turn x r p))) m0 = Some m' \<and> agrees m' (p_conv (pump_turn x r p))
      \<and> (grace_armed (p_acts (pump_turn x r p)) \<longrightarrow> s_finish (op_snap ops (p_conv (pump_turn x r p))))"
proof (cases "feeds x r p")
  case False
  then have o: "p_over (pump_turn x r p)" using over_unless_taken [OF l] by blast
  have s0: "delivered (p_acts (count_bytes y p)) = delivered (p_acts p)" for y by (simp add: count_bytes_def)
  have f: "accounted_for run ended m0 (deferred (fail_with a b d p))"
    "accounted_for run ended m0 (deferred (fail_with a b d (count_bytes y p)))" for a b d y
    using fail_accounted [of p m0 m] fail_accounted [of "count_bytes y p" m0 m] l m(1) s0 by simp_all
  have "accounted_for run ended m0 (deferred (on_cause x r p))"
  proof (cases "rd_cause r = ''finish_grace''")
    case True
    then show ?thesis unfolding on_cause_def x
      using final_accounted [OF l m(1)] final [OF m(2) g [OF c]] by simp
  qed (simp add: on_cause_def f)
  then show ?thesis using o False f
    by (auto simp: pump_turn_def turn_def feeds_def Let_def total_count split: option.splits)
next
  case True
  obtain evs d e c' where fd: "op_feed ops (rd_payload r) (p_conv p) = (evs, d, e, c')"
    by (cases "op_feed ops (rd_payload r) (p_conv p)")
  obtain m' where m': "run evs m = Some m'" "e = None \<longrightarrow> agrees m' c' \<and> (d \<longrightarrow> ended m')"
    using feed [OF m(2) fd] by blast
  let ?s = "count_bytes (rd_payload r) p"
  have s: "live_pump ?s" "delivered (p_acts ?s) = delivered (p_acts p)" "p_conv ?s = p_conv p" "p_acts ?s = p_acts p"
    using l by simp_all
  obtain f s' where t: "convert x r ?s = (f, s')" by fastforce
  have tr: "turn x r p = (f, s')" using True t by (simp add: turn_def feeds_def Let_def count_bytes_def)
  have lv: "case f of Returned \<Rightarrow> failed s' \<or> concluded s' | _ \<Rightarrow> live_pump s'" by (rule live_turn [OF l tr])
  have cd: "(f = Again \<longrightarrow> e = None \<and> \<not> d) \<and> (f \<noteq> Returned \<longrightarrow> delivered (p_acts s') = delivered (p_acts p) @ evs \<and> p_conv s' = c'
      \<and> e = None \<and> p_done s' = d) \<and> (\<exists>es. prefix es evs \<and> delivered (p_acts s') = delivered (p_acts p) @ es)"
    using convert_delivers [of x r ?s evs d e c' f s'] fd t s x by simp
  have gr: "grace_armed (p_acts s') \<longrightarrow> s_finish (op_snap ops c')" if "f \<noteq> Returned"
  proof -
    obtain y s2 where s2: "emit_all (px_sink x) evs (observe_progress (px_limits x) (op_snap ops c') (?s\<lparr>p_conv := c'\<rparr>)) = (y, s2)"
      by fastforce
    have "p_acts s' = p_acts s2" using t fd s x that s2
      by (auto simp: convert_def Let_def split: option.splits if_splits)
    then have "grace_armed (p_acts s') \<longrightarrow> grace_armed (p_acts p) \<or> s_finish (op_snap ops c')"
      using grace_emit [OF s2] grace_observe [of "px_limits x" "op_snap ops c'" "?s\<lparr>p_conv := c'\<rparr>"] s by auto
    then show ?thesis using g finish_stays [OF m(2)] fd cd that by auto
  qed
  show ?thesis
  proof (cases f)
    case Again
    then show ?thesis using tr lv cd m' gr run_snoc [OF m(1) m'(1)] by (simp add: pump_turn_def live_pump_def)
  next
    case Broke
    have a: "run (delivered (p_acts s')) m0 = Some m'" using run_snoc [OF m(1) m'(1)] cd Broke by simp
    have "accounted_for run ended m0 (deferred (after_loop x (rd_closed r) s'))"
    proof (cases "\<not> p_done s' \<and> rd_closed r")
      case True
      then show ?thesis unfolding after_loop_def
        using final_accounted [OF _ a] flush [of m' c'] lv Broke cd m' x by simp
    next
      case False
      then have "d" using t fd s x Broke cd
        by (auto simp: convert_def Let_def split: option.splits prod.splits if_splits)
      then show ?thesis using False ended_accounted [of "log_done b y s'" m0 m' for b y] a m' cd Broke
        by (simp add: after_loop_def)
    qed
    then show ?thesis using tr Broke lv released_deferred [OF settled_after_loop, of s' x "rd_closed r"] by (simp add: pump_turn_def)
  next
    case Returned
    have fs: "failed s'" using t fd s x Returned live_emit failed_fail
      by (fastforce simp: convert_def Let_def split: option.splits prod.splits if_splits)
    obtain es where es: "prefix es evs" "delivered (p_acts s') = delivered (p_acts p) @ es" using cd by blast
    obtain m1 where "run es m = Some m1" using accepted_prefix es(1) m'(1) by blast
    then have "run (delivered (p_acts s')) m0 = Some m1" using run_snoc [OF m(1)] es(2) by simp
    then show ?thesis using failed_accounted [OF fs] tr Returned released_deferred [OF disjI1 [OF fs]] by (simp add: pump_turn_def)
  qed
qed

theorem system_accounted:
  assumes "system x bound d c p k" "px_ops x = ops" "agrees m0 c"
  shows "p_over p \<Longrightarrow> accounted_for run ended m0 p"
    and "\<exists>m. run (delivered (p_acts p)) m0 = Some m"
proof -
  have "if p_over p then accounted_for run ended m0 p
    else live_pump p \<and> (\<exists>m. run (delivered (p_acts p)) m0 = Some m \<and> agrees m (p_conv p)
      \<and> (grace_armed (p_acts p) \<longrightarrow> s_finish (op_snap ops (p_conv p))))"
    using assms(1)
  proof (induction rule: system.induct)
    case (start as k)
    have "\<not> p_over (start_pump d c)" "\<not> grace_armed (p_acts (start_pump d c))" by (simp_all add: start_pump_def)
    then show ?case using assms(3) run_Nil live_start by auto
  next
    case (turn p k r as k')
    then obtain m where m: "live_pump p" "run (delivered (p_acts p)) m0 = Some m" "agrees m (p_conv p)"
        "grace_armed (p_acts p) \<longrightarrow> s_finish (op_snap ops (p_conv p))" by auto
    have "grace_armed (p_acts p)" if "rd_cause r = ''finish_grace''"
    proof -
      have "\<exists>e. Timer (Arm e ''finish_grace'') \<in> set (p_acts p)"
        using system_cause [OF turn.hyps(1)] that turn.hyps(3) by simp
      then show ?thesis by (auto simp: grace_armed_def list_ex_iff intro!: bexI)
    qed
    then show ?case using turn_accounted [OF assms(2) m(1-3), of r] m(4) turn_shape [OF m(1), of x r]
      by (auto simp: split: if_splits)
  qed simp
  then show "p_over p \<Longrightarrow> accounted_for run ended m0 p" "\<exists>m. run (delivered (p_acts p)) m0 = Some m"
    by (auto simp: accounted_for_def split: if_splits)
qed

end

end
