(* ===== verification/Chat_End.thy ===== *)
theory Chat_End
  imports Streaming
begin

text \<open>
  The Chat Completions converter driven by the pump of \<open>internal/plugin/executor.go\<close>, end to
  end: what an Anthropic or a Responses client has received when its stream is closed.
\<close>

section \<open>The converter behind the pump\<close>

definition chat_ops :: "(string \<Rightarrow> string option) \<Rightarrow> (cc, event) conv_ops" where
  "chat_ops backfill = \<lparr>op_feed = feed_chat backfill, op_snap = c_snap, op_final = finalize_chat, op_flush = flush_with_error\<rparr>"

lemma chat_ops_simps [simp]:
  "op_feed (chat_ops b) = feed_chat b" "op_snap (chat_ops b) = c_snap"
  "op_final (chat_ops b) = finalize_chat" "op_flush (chat_ops b) = flush_with_error"
  by (simp_all add: chat_ops_def)

lemma feed_chat_done: "feed_chat b chunk s = (evs, d, e, s') \<Longrightarrow> e = None \<Longrightarrow> d \<Longrightarrow> c_done s'"
  by (auto simp: feed_chat_def split: prod.splits option.splits if_splits)

section \<open>Anthropic clients\<close>

text \<open>What decides whether an Anthropic stream can be finalized.\<close>

definition verdict :: "cc \<Rightarrow> bool \<times> bool \<times> bool \<times> string \<times> bool" where
  "verdict s = (s_terminal (c_snap s), s_finish (c_snap s), c_finished s, c_held s, c_terminal_sent s)"

lemma verdict_fields [simp]:
  "verdict (s\<lparr>c_out := evs\<rparr>) = verdict s" "verdict (s\<lparr>c_usage := u\<rparr>) = verdict s" "verdict (s\<lparr>c_buf := b\<rparr>) = verdict s"
  "verdict (s\<lparr>c_tools := ts\<rparr>) = verdict s" "verdict (s\<lparr>c_started := st\<rparr>) = verdict s"
  "verdict (s\<lparr>c_done := d\<rparr>) = verdict s" "verdict (s\<lparr>c_flushed := d\<rparr>) = verdict s"
  "verdict (emit e s) = verdict s" "verdict (progress st_advance s) = verdict s" "verdict (progress st_start s) = verdict s"
  "verdict (usage_step v s) = verdict s" "verdict (stop_blocks s) = verdict s"
  by (simp_all add: verdict_def emit_def progress_def usage_step_def stream_state stop_blocks_def stop_tools_def
      stop_text_def stop_thinking_def split: option.splits)

lemma verdict_ops [simp]:
  "verdict (claude_thinking r s) = verdict s" "verdict (claude_content t s) = verdict s"
  "verdict (claude_tool tc s) = verdict s" "verdict (claude_start ch s) = verdict s"
proof -
  have k: "verdict (s0\<lparr>c_think_index := k, c_next := n, c_think_open := b\<rparr>) = verdict s0"
    "verdict (s0\<lparr>c_text_index := k, c_next := n, c_text_open := b\<rparr>) = verdict s0"
    "verdict (s0\<lparr>c_next := n, c_tools := ts, c_tools_seen := b\<rparr>) = verdict s0" for s0 k n b ts
    by (simp_all add: verdict_def)
  show "verdict (claude_thinking r s) = verdict s" "verdict (claude_content t s) = verdict s"
    by (simp_all add: claude_thinking_def claude_content_def Let_def k)
  show "verdict (claude_tool tc s) = verdict s"
    by (simp add: claude_tool_def claude_tool_args_def claude_open_tool_def Let_def k split: option.splits)
  show "verdict (claude_start ch s) = verdict s" by (simp add: claude_start_def)
qed

lemma verdict_tools [simp]: "verdict (fold claude_tool tcs s) = verdict s"
  by (induction tcs arbitrary: s) simp_all

definition finalizable :: "cc \<Rightarrow> bool" where
  "finalizable s = (\<not> c_flushed s \<and> s_terminal (c_snap s) = c_done s \<and> (s_finish (c_snap s) \<longrightarrow> c_finished s)
     \<and> (c_finished s \<longrightarrow> c_held s \<noteq> [] \<or> c_terminal_sent s))"

lemma finalizable_cong:
  "conv s' = conv s \<Longrightarrow> verdict s' = verdict s \<Longrightarrow> finalizable s' = finalizable s"
  by (simp add: finalizable_def conv_def verdict_def)

lemma terminal_verdict:
  "verdict (claude_terminal s) = (s_terminal (c_snap s), s_finish (c_snap s), c_finished s, [], c_terminal_sent s \<or> c_held s \<noteq> [])"
  by (simp add: claude_terminal_def Let_def) (simp add: verdict_def emit_def)

lemma finalizable_terminal: "finalizable s \<Longrightarrow> finalizable (claude_terminal s)"
  using terminal_verdict [of s] conv_claude(2) [of s] by (simp add: finalizable_def verdict_def conv_def) blast

lemma finalizable_choice: "finalizable s \<Longrightarrow> finalizable (claude_choice c s)"
proof -
  assume f: "finalizable s"
  let ?o = "observe_choice c s"
  define u where "u = fold claude_tool (cx_tools c) (claude_content (cx_content c)
     (claude_thinking (reasoning_text (cx_reasoning c)) ?o))"
  have o: "verdict ?o = (s_terminal (c_snap s), s_finish (c_snap s) \<or> cx_finish c \<noteq> [], c_finished s, c_held s, c_terminal_sent s)"
    by (simp add: observe_choice_def Let_def verdict_def progress_def stream_state)
  have u: "verdict u = verdict ?o" "conv u = conv s" by (simp_all add: u_def)
  have "verdict (claude_finish (cx_finish c) u) =
      (if cx_finish c \<noteq> [] \<and> \<not> c_finished u then (s_terminal (c_snap u), s_finish (c_snap u), True, cx_finish c, c_terminal_sent u)
       else verdict u)"
    by (simp add: claude_finish_def) (simp add: verdict_def)
  moreover have "conv (claude_finish (cx_finish c) u) = conv s" using u by simp
  ultimately show ?thesis using f o u
    by (auto simp: claude_choice_def u_def [symmetric] finalizable_def verdict_def conv_def split: if_splits)
qed

lemma finalizable_chunk: "finalizable s \<Longrightarrow> finalizable (claude_chunk chunk s)"
proof -
  assume f: "finalizable s"
  let ?s1 = "if \<not> s_started (c_snap s) \<and> ch_choices chunk \<noteq> [] then progress st_start s else s"
  let ?s2 = "if c_held ?s1 \<noteq> [] then claude_terminal ?s1 else ?s1"
  have "finalizable ?s1" using f finalizable_cong [of "progress st_start s" s] by simp
  then have "finalizable ?s2" using finalizable_terminal [of ?s1] by simp
  then have "finalizable (claude_start chunk (usage_step (ch_usage chunk) ?s2))"
    using finalizable_cong [of "claude_start chunk (usage_step (ch_usage chunk) ?s2)" ?s2] by simp
  then show ?thesis unfolding claude_chunk_def Let_def using finalizable_choice by (auto split: list.splits)
qed

lemma finalizable_line:
  assumes "claude_line l s = (None, s')" "\<not> c_done s" "finalizable s"
  shows "finalizable s'"
proof (cases "c_done s'")
  case True
  let ?s = "stop_blocks (progress (st_terminal ''message_stop'') (progress st_done (s\<lparr>c_done := True\<rparr>)))"
  have "s' = claude_done s" by (rule claude_line_done [OF assms(1,2) True])
  then have e: "s' = emit (EvClaude CMessageStop) (claude_terminal ?s)" by (simp add: claude_done_def)
  have "verdict (progress (st_terminal ''message_stop'') (progress st_done (s\<lparr>c_done := True\<rparr>))) = (True, snd (verdict s))"
    by (simp add: verdict_def progress_def stream_state)
  then have "verdict ?s = (True, snd (verdict s))" by simp
  moreover have "conv ?s = conv (s\<lparr>c_done := True\<rparr>)" by simp
  ultimately have "finalizable ?s" using assms(3) by (simp add: finalizable_def verdict_def conv_def)
  then show ?thesis using finalizable_cong [of s' "claude_terminal ?s"] finalizable_terminal e by simp
next
  case False
  show ?thesis
  proof (cases "sse_data l")
    case (Some data)
    obtain r u where u: "decode_chunk data s = (r, u)" by fastforce
    then have "verdict u = verdict s" "conv u = conv s" using conv_decode [of data s]
      by (auto simp: decode_chunk_def split: prod.splits bool.splits option.splits if_splits)
    then have "finalizable u" using finalizable_cong assms(3) by blast
    moreover have "conv (claude_done s) = conv (s\<lparr>c_done := True\<rparr>)" by (simp add: claude_done_def)
    then have d: "c_done (claude_done s)" by (simp add: conv_def)
    moreover note d
    ultimately show ?thesis using Some u assms finalizable_chunk False
      by (auto simp: claude_line_def split: option.splits sum.splits if_splits)
  qed (use assms in \<open>simp add: claude_line_def\<close>)
qed

lemma finish_line:
  assumes "claude_line l s = (None, s')" "s_finish (c_snap s)"
  shows "s_finish (c_snap s')"
proof -
  have t: "s_finish (c_snap (claude_terminal u)) = s_finish (c_snap u)" for u
    using terminal_verdict [of u] by (simp add: verdict_def)
  have v: "s_finish (c_snap v) = s_finish (c_snap u)" if "verdict v = verdict u" for u v
    using that by (simp add: verdict_def)
  have o: "s_finish (c_snap u) \<Longrightarrow> s_finish (c_snap (claude_choice c u))" for c u
    by (simp add: claude_choice_def claude_finish_def v [OF verdict_fields(12)] v [OF verdict_tools] v [OF verdict_ops(1)]
        v [OF verdict_ops(2)] observe_choice_def Let_def progress_def stream_state)
  have ch: "s_finish (c_snap u) \<Longrightarrow> s_finish (c_snap (claude_chunk c u))" for c u
    by (auto simp: claude_chunk_def Let_def t v [OF verdict_ops(4)] v [OF verdict_fields(11)] v [OF verdict_fields(10)]
        intro!: o split: list.splits)
  show ?thesis
  proof (cases "sse_data l")
    case (Some data)
    obtain r u where u: "decode_chunk data s = (r, u)" by fastforce
    then have "c_snap u = c_snap s" by (auto simp: decode_chunk_def split: prod.splits bool.splits option.splits if_splits)
    moreover have "s_finish (c_snap (claude_done s))" using assms(2)
      by (simp add: claude_done_def v [OF verdict_fields(8)] t v [OF verdict_fields(12)] progress_def stream_state)
    ultimately show ?thesis using Some u assms ch
      by (auto simp: claude_line_def split: option.splits sum.splits if_splits)
  qed (use assms in \<open>simp add: claude_line_def\<close>)
qed

section \<open>From lines to streams\<close>

text \<open>
  A target of the converter with a monitor, twice: the relation between monitor and state, and the
  same with a finish already seen. What it owes besides its lines is an end when it is done,
  flushed, or finalized after a finish. Then the pump can drive it.
\<close>

locale finalized =
  monitored run backfill "agrees False" + seen: monitored run backfill "agrees True"
  for run :: "event list \<Rightarrow> 'm \<Rightarrow> 'm option" and backfill and agrees :: "bool \<Rightarrow> 'm \<Rightarrow> cc \<Rightarrow> bool" +
  fixes ended :: "'m \<Rightarrow> bool"
  assumes seen_finish: "agrees True m s = (agrees False m s \<and> s_finish (c_snap s))"
    and done_ended: "agrees False m s \<Longrightarrow> c_done s \<Longrightarrow> ended m"
    and flushed_ended: "agrees False m s \<Longrightarrow> flush_with_error s = (evs, None, s') \<Longrightarrow> \<exists>m'. run evs m = Some m' \<and> ended m'"
    and finalized_ended: "agrees True m s \<Longrightarrow> finalize_chat s = (evs, None, s') \<Longrightarrow> \<exists>m'. run evs m = Some m' \<and> ended m'"

sublocale finalized \<subseteq> pumped run "chat_ops backfill" "agrees False" ended
proof
  fix m s b evs d e s'
  assume a: "agrees False m s" "op_feed (chat_ops backfill) b s = (evs, d, e, s')"
  then have f: "feed_chat backfill b s = (evs, d, e, s')" by simp
  obtain m' where "run evs m = Some m'" "e = None \<longrightarrow> agrees False m' s'" using feed_accepted [OF a(1) f] by blast
  then show "\<exists>m'. run evs m = Some m' \<and> (e = None \<longrightarrow> agrees False m' s' \<and> (d \<longrightarrow> ended m'))"
    using feed_chat_done [OF f] done_ended by blast
next
  fix m s b evs d s'
  assume a: "agrees False m s" "op_feed (chat_ops backfill) b s = (evs, d, None, s')" "s_finish (op_snap (chat_ops backfill) s)"
  then have "agrees True m s" "feed_chat backfill b s = (evs, d, None, s')" by (simp_all add: seen_finish)
  then obtain m' where "agrees True m' s'" using seen.feed_accepted by blast
  then show "s_finish (op_snap (chat_ops backfill) s')" by (simp add: seen_finish)
qed (simp_all add: flushed_ended finalized_ended seen_finish)

definition claude_ends :: "bool \<Rightarrow> bool \<Rightarrow> cc \<Rightarrow> bool" where
  "claude_ends seen stopped s = (end_agrees stopped s \<and> finalizable s \<and> (seen \<longrightarrow> s_finish (c_snap s)))"

lemma claude_ends_monitored: "monitored ends backfill (claude_ends seen)"
proof
  show "claude_ends seen m (s\<lparr>c_buf := b\<rparr>) = claude_ends seen m s" "claude_ends seen m (s\<lparr>c_out := evs\<rparr>) = claude_ends seen m s" for m s b evs
    by (simp_all add: claude_ends_def end_agrees_def finalizable_def)
next
  fix m s l s'
  assume a: "claude_ends seen m s" "c_out s = []" "\<not> c_done s" "handle_line backfill l s = (None, s')"
  then have l: "claude_line l s = (None, s')" by (simp add: handle_line_def claude_ends_def end_agrees_def)
  then have "finalizable s'" using finalizable_line a(1,3) by (simp add: claude_ends_def)
  then show "\<exists>m'. ends (c_out s') m = Some m' \<and> claude_ends seen m' s'"
    using claude_end.line [of m s backfill l s'] finish_line [OF l] a by (auto simp: claude_ends_def)
qed

lemma claude_flush_ends:
  assumes "finalizable s" "c_finished s" "c_out s = []"
  shows "ends (c_out (claude_flush s)) False = Some True"
proof -
  have "quiet (claude_terminal s)" using assms(3) by simp (simp add: quiet_def)
  moreover have "claude_flush s = emit (EvClaude CMessageStop) (claude_terminal s)"
    using assms(1,2) by (auto simp: claude_flush_def Let_def finalizable_def)
  ultimately show ?thesis using ends_quiet [of "c_out (claude_terminal s)"]
    by (simp add: quiet_def emit_def ends_append)
qed

lemma claude_finalized:
  assumes "claude_ends False m s" "finalize_chat s = (evs, None, s')"
  shows "ends evs m = Some True"
proof (cases "s_terminal (c_snap s)")
  case True
  then show ?thesis using assms by (auto simp: finalize_chat_def claude_ends_def end_agrees_def finalizable_def)
next
  case False
  have c: "c_target s = ToClaude" "\<not> c_flushed s" "m = False" "s_finish (c_snap s)" "validate_accumulated_tools s = None"
    using assms False by (auto simp: finalize_chat_def claude_ends_def end_agrees_def finalizable_def split: if_splits option.splits)
  let ?s = "s\<lparr>c_flushed := True, c_out := []\<rparr>"
  have "evs = c_out (claude_flush ?s)"
    using assms(2) c False by (auto simp: finalize_chat_def flush_chat_def Let_def)
  moreover have "claude_flush ?s = (claude_flush (s\<lparr>c_out := []\<rparr>))\<lparr>c_flushed := True\<rparr>"
    by (simp add: claude_flush_def claude_terminal_def Let_def emit_def)
  moreover have "finalizable (s\<lparr>c_out := []\<rparr>)" "c_finished s"
    using assms(1) c(4) by (simp_all add: claude_ends_def finalizable_def)
  ultimately show ?thesis using claude_flush_ends [of "s\<lparr>c_out := []\<rparr>"] c(3) by simp
qed

interpretation claude_whole: finalized ends backfill claude_ends "\<lambda>stopped. stopped" for backfill
proof (rule finalized.intro [OF claude_ends_monitored claude_ends_monitored], unfold_locales)
  fix m s evs s'
  show "claude_ends True m s = (claude_ends False m s \<and> s_finish (c_snap s))" by (auto simp: claude_ends_def)
  show "claude_ends False m s \<Longrightarrow> c_done s \<Longrightarrow> m" by (simp add: claude_ends_def end_agrees_def)
  show "claude_ends False m s \<Longrightarrow> flush_with_error s = (evs, None, s') \<Longrightarrow> \<exists>m'. ends evs m = Some m' \<and> m'"
    using claude_finalized [of m s] by (intro exI [of _ True]) (simp add: flush_with_error_def claude_ends_def end_agrees_def)
  show "claude_ends True m s \<Longrightarrow> finalize_chat s = (evs, None, s') \<Longrightarrow> \<exists>m'. ends evs m = Some m' \<and> m'"
    using claude_finalized [of m s] by (intro exI [of _ True]) (simp add: claude_ends_def)
qed

section \<open>Responses clients\<close>

text \<open>What decides whether a Responses stream can be completed.\<close>

definition held :: "cc \<Rightarrow> bool \<times> string \<times> bool" where
  "held s = (s_finish (c_snap s), c_held s, c_terminal_sent s)"

lemma held_base [simp]:
  "held (emit e s) = held s" "held (remit b s) = held s" "held (put_item k i s) = held s" "held (put_tool j t s) = held s"
  "held (progress st_advance s) = held s" "held (progress st_start s) = held s" "held (progress st_done s) = held s"
  "held (progress (st_terminal k') s) = held s" "held (usage_step u s) = held s" "held (s\<lparr>c_done := d\<rparr>) = held s"
  "held (s\<lparr>c_think_stopped := b1\<rparr>) = held s" "held (s\<lparr>c_text_closed := b1\<rparr>) = held s"
  by (simp_all add: held_def usage_step_def progress_def emit_def remit_def put_item_def put_tool_def stream_state split: option.splits)

lemma held_items [simp]:
  "held (stop_reasoning s) = held s" "held (close_text st s) = held s"
  "held (resp_thinking r s) = held s" "held (resp_content t s) = held s"
proof -
  show c: "held (stop_reasoning s) = held s" "held (close_text st s) = held s" for s st
    by (simp_all add: stop_reasoning_def close_text_def Let_def)
  have o: "held (resp_open_reasoning s) = held s" "held (resp_open_text s) = held s" for s
    by (simp_all add: resp_open_reasoning_def resp_open_text_def Let_def) (simp_all add: held_def remit_def emit_def)
  have b: "held (s\<lparr>c_think_buf := x\<rparr>) = held s" "held (s\<lparr>c_resp_text := x\<rparr>) = held s" for s x
    by (simp_all add: held_def)
  show "held (resp_thinking r s) = held s" "held (resp_content t s) = held s"
    by (simp_all add: resp_thinking_def resp_content_def Let_def b c o)
qed

lemma held_tool_parts [simp]:
  "held (snd (resp_announce i t s)) = held s" "held (snd (resp_pending t s)) = held s"
  by (auto simp: resp_announce_def resp_pending_def Let_def split: prod.splits)

lemma held_tool [simp]: "held (snd (resp_tool tc s)) = held s"
proof -
  have "held (s0\<lparr>c_next := n, c_tools_seen := b\<rparr>) = held s0" for s0 n b by (simp add: held_def)
  then show ?thesis by (simp add: resp_tool_def Let_def split_beta split: option.splits)
qed

lemma held_tools: "held (snd (resp_tools tcs s)) = held s"
proof (induction tcs arbitrary: s)
  case (Cons tc tcs)
  then show ?case using held_tool [of tc s] by (auto split: prod.splits option.splits simp del: held_tool)
qed simp

lemma held_finish_tools: "held (snd (finish_tools is s)) = held s"
proof (induction "is" arbitrary: s)
  case (Cons i "is")
  have "held (snd (finish_tool i t s)) = held s" for t
    by (simp add: finish_tool_def Let_def split_beta split: sum.splits)
  then show ?case using Cons by (auto split: prod.splits option.splits) (metis snd_conv)+
qed simp

lemma held_close_tools: "held (snd (close_tools is s)) = held s"
proof (induction "is" arbitrary: s)
  case (Cons i "is")
  have "held (snd (close_tool i t s)) = held s" for t
    by (simp add: close_tool_def Let_def split: sum.splits)
  then show ?case using Cons by (auto split: prod.splits option.splits) (metis snd_conv)+
qed simp

text \<open>A finish that was seen is held until the completion was sent.\<close>

definition completable :: "cc \<Rightarrow> bool" where
  "completable s = (s_finish (c_snap s) \<longrightarrow> c_held s \<noteq> [] \<or> c_terminal_sent s)"

lemma completable_held: "completable s = (case held s of (f, h, t) \<Rightarrow> f \<longrightarrow> h \<noteq> [] \<or> t)"
  by (simp add: completable_def held_def)

lemma held_eqD: "held t = held s \<Longrightarrow> completable t = completable s \<and> s_finish (c_snap t) = s_finish (c_snap s)"
  by (simp add: completable_held) (simp add: held_def)

lemma close_sends: "resp_close fin s = (None, s') \<Longrightarrow> c_terminal_sent s' \<and> s_finish (c_snap s') = s_finish (c_snap s)"
proof -
  assume r: "resp_close fin s = (None, s')"
  define s1 where "s1 = close_text (if response_status_from_cc_finish fin = ''incomplete'' then ''incomplete'' else ''completed'') (stop_reasoning s)"
  obtain s2 where s2: "close_tools (map fst (c_tools s1)) s1 = (None, s2)" "s' = resp_complete (response_status_from_cc_finish fin) s2"
    using r by (auto simp: resp_close_def Let_def s1_def split: prod.splits option.splits if_splits)
  have "held s2 = held s" using held_close_tools [of "map fst (c_tools s1)" s1] s2(1) by (simp add: s1_def)
  then have "s_finish (c_snap s2) = s_finish (c_snap s)" by (simp add: held_def)
  then show ?thesis using s2(2) by (simp add: resp_complete_def Let_def remit_def emit_def progress_def stream_state)
qed

lemma terminal_completable:
  assumes "responses_terminal allow s = (None, s')" "completable s"
  shows "completable s' \<and> (s_finish (c_snap s) \<longrightarrow> c_terminal_sent s' \<and> s_finish (c_snap s')) "
proof (cases "c_terminal_sent s \<or> (c_held s = [] \<and> \<not> allow)")
  case True
  then show ?thesis using assms by (auto simp: responses_terminal_def Let_def completable_def split: if_splits)
next
  case False
  then obtain fin where "resp_close fin (s\<lparr>c_held := []\<rparr>) = (None, s')"
    using assms(1) by (auto simp: responses_terminal_def Let_def split: if_splits)
  then show ?thesis using close_sends by (fastforce simp: completable_def)
qed

lemma finish_completable:
  assumes "resp_finish fin s = (None, s')" "completable s"
  shows "completable s' \<and> (s_finish (c_snap s) \<longrightarrow> s_finish (c_snap s'))"
proof (cases "fin = [] \<or> c_finished s")
  case False
  then obtain s1 where s1: "finish_tools (map fst (c_tools s)) s = (None, s1)"
      "s' = stop_reasoning (progress st_finish (s1\<lparr>c_finished := True, c_held := fin\<rparr>))"
    using assms(1) by (auto simp: resp_finish_def split: prod.splits option.splits)
  have "held s' = held (progress st_finish (s1\<lparr>c_finished := True, c_held := fin\<rparr>))" using s1(2) by simp
  also have "\<dots> = (True, fin, c_terminal_sent s1)" by (simp add: held_def progress_def stream_state)
  finally show ?thesis using False by (simp add: completable_def held_def)
qed (use assms in \<open>auto simp: resp_finish_def\<close>)

lemma choice_completable:
  assumes "resp_choice b c s = (None, s')" "completable s"
  shows "completable s' \<and> (s_finish (c_snap s) \<longrightarrow> s_finish (c_snap s'))"
proof -
  define u where "u = resp_content (cx_content c) (resp_thinking (reasoning_text (cx_reasoning c)) s)"
  obtain s1 where s1: "resp_tools (cx_tools c) u = (None, s1)"
    using assms(1) by (auto simp: resp_choice_def u_def [symmetric] split: prod.splits option.splits)
  obtain s2 where s2: "resp_finish (cx_finish c) s1 = (None, s2)"
    using assms(1) s1 by (auto simp: resp_choice_def u_def [symmetric] split: prod.splits option.splits)
  have "held s1 = held s" using held_tools [of "cx_tools c" u] s1 by (simp add: u_def)
  then have c1: "completable s1" "s_finish (c_snap s1) = s_finish (c_snap s)"
    using assms(2) by (simp_all add: completable_held held_def)
  have "held s' = held s2" using assms(1) s1 s2 by (auto simp: resp_choice_def u_def [symmetric] Let_def)
  then show ?thesis using finish_completable [OF s2 c1(1)] c1(2) by (simp add: completable_held held_def)
qed

lemma chunk_completable:
  assumes "responses_chunk ch s = (None, s')" "completable s"
  shows "completable s' \<and> (s_finish (c_snap s) \<longrightarrow> s_finish (c_snap s'))"
proof -
  obtain s1 where s1: "(if c_held s \<noteq> [] then responses_terminal False s else (None, s)) = (None, s1)"
    using assms(1) by (auto simp: responses_chunk_def split: prod.splits option.splits)
  have c1: "completable s1" "s_finish (c_snap s) \<longrightarrow> s_finish (c_snap s1)"
    using s1 terminal_completable [of False s s1] assms(2) by (auto split: if_splits)
  let ?s2 = "usage_step (ch_usage ch) s1"
  have "held (resp_start ch ?s2) = held s1"
  proof -
    have "held (s\<lparr>c_started := b, c_id := i, c_model := m\<rparr>) = held s" for b i m s by (simp add: held_def)
    then show ?thesis by (simp add: resp_start_def)
  qed
  then have c3: "completable (resp_start ch ?s2)" "s_finish (c_snap (resp_start ch ?s2)) = s_finish (c_snap s1)"
    using c1(1) by (simp_all add: completable_held held_def)
  have r: "(case ch_choices ch of [] \<Rightarrow> (None, resp_start ch ?s2)
      | c # _ \<Rightarrow> resp_choice (\<not> c_started ?s2) c (resp_start ch ?s2)) = (None, s')"
    using assms(1) s1 by (auto simp: responses_chunk_def Let_def split: prod.splits)
  show ?thesis
  proof (cases "ch_choices ch")
    case (Cons c cs)
    then show ?thesis using choice_completable [of "\<not> c_started ?s2" c "resp_start ch ?s2" s'] r c1 c3 by auto
  qed (use r c1 c3 in auto)
qed

lemma line_completable:
  assumes "responses_line l s = (None, s')" "completable s"
  shows "completable s' \<and> (s_finish (c_snap s) \<longrightarrow> s_finish (c_snap s'))"
proof (cases "sse_data l")
  case (Some data)
  obtain r u where u: "decode_chunk data s = (r, u)" by fastforce
  then have "held u = held s"
    by (auto simp: decode_chunk_def held_def split: prod.splits bool.splits option.splits if_splits)
  then have cu: "completable u" "s_finish (c_snap u) = s_finish (c_snap s)"
    using assms(2) by (simp_all add: completable_held held_def)
  have cr: "completable (stop_reasoning s)" "s_finish (c_snap (stop_reasoning s)) = s_finish (c_snap s)"
    using held_eqD [OF held_items(1)] assms(2) by simp_all
  obtain e v where t: "responses_terminal True (stop_reasoning s) = (e, v)" by fastforce
  have "completable (progress st_done (v\<lparr>c_done := True\<rparr>)) = completable v"
    "s_finish (c_snap (progress st_done (v\<lparr>c_done := True\<rparr>))) = s_finish (c_snap v)"
    using held_eqD [of "progress st_done (v\<lparr>c_done := True\<rparr>)" v] by simp_all
  then have d: "completable s' \<and> (s_finish (c_snap s) \<longrightarrow> s_finish (c_snap s'))" if "is_sse_done data" "data \<noteq> []"
    using Some t assms(1) that cr terminal_completable [of True "stop_reasoning s" v]
    by (cases e) (auto simp: responses_line_def)
  have "completable s' \<and> (s_finish (c_snap s) \<longrightarrow> s_finish (c_snap s'))" if "\<not> is_sse_done data" "data \<noteq> []"
    using Some u assms(1) that cu chunk_completable [of _ u s']
    by (cases r) (auto simp: responses_line_def)
  then show ?thesis using d assms Some by (cases "data = []") (auto simp: responses_line_def)
qed (use assms in \<open>simp add: responses_line_def\<close>)

definition responses_whole_agrees :: "bool \<Rightarrow> rmonitor \<Rightarrow> cc \<Rightarrow> bool" where
  "responses_whole_agrees seen m s =
     (responses_agrees m s \<and> completable s \<and> \<not> c_flushed s \<and> (seen \<longrightarrow> s_finish (c_snap s)))"

lemma responses_monitored: "monitored rwatch_all backfill (responses_whole_agrees seen)"
proof
  show "responses_whole_agrees seen m (s\<lparr>c_buf := b\<rparr>) = responses_whole_agrees seen m s"
    "responses_whole_agrees seen m (s\<lparr>c_out := evs\<rparr>) = responses_whole_agrees seen m s" for m s b evs
    by (simp_all add: responses_whole_agrees_def completable_def responses.agrees_frame)
next
  fix m s l s'
  assume a: "responses_whole_agrees seen m s" "c_out s = []" "\<not> c_done s" "handle_line backfill l s = (None, s')"
  then have "responses_line l s = (None, s')" by (simp add: handle_line_def responses_whole_agrees_def responses_agrees_def)
  then have "completable s' \<and> (s_finish (c_snap s) \<longrightarrow> s_finish (c_snap s'))"
    using line_completable a(1) by (simp add: responses_whole_agrees_def)
  moreover have "c_flushed s' = c_flushed s" using staysD [OF stays_line [of s backfill l]] a(4) by simp
  ultimately show "\<exists>m'. rwatch_all (c_out s') m = Some m' \<and> responses_whole_agrees seen m' s'"
    using responses.line [of m s backfill l s'] a by (auto simp: responses_whole_agrees_def)
qed

lemma responses_closed:
  assumes "responses_agrees m s" "c_out s = []" "responses_terminal allow s = (None, s')"
    "allow \<or> (completable s \<and> s_finish (c_snap s))"
  shows "\<exists>m'. rwatch_all (c_out s') m = Some m' \<and> rm_completed m'"
proof -
  have st: "steady m s" using assms(1,2) by (simp add: steady_def responses_agrees_def trackedI)
  have "steady m s'" "allow \<longrightarrow> c_terminal_sent s'" using steady_terminal [OF st assms(3)] by simp_all
  moreover have "c_terminal_sent s'" if "\<not> allow"
    using terminal_completable [OF assms(3)] assms(4) that by (simp add: completable_def)
  ultimately show ?thesis by (auto simp: steady_def tracked_def tracks_def)
qed

interpretation responses_whole: finalized rwatch_all backfill responses_whole_agrees rm_completed for backfill
proof (rule finalized.intro [OF responses_monitored responses_monitored], unfold_locales)
  fix m s evs s'
  show "responses_whole_agrees True m s = (responses_whole_agrees False m s \<and> s_finish (c_snap s))"
    by (auto simp: responses_whole_agrees_def)
  show "responses_whole_agrees False m s \<Longrightarrow> c_done s \<Longrightarrow> rm_completed m"
    by (simp add: responses_whole_agrees_def responses_agrees_def)
  show "\<exists>m'. rwatch_all evs m = Some m' \<and> rm_completed m'"
    if a: "responses_whole_agrees False m s" "flush_with_error s = (evs, None, s')"
  proof -
    let ?s = "s\<lparr>c_flushed := True, c_out := []\<rparr>"
    obtain u where u: "responses_terminal True ?s = (None, u)" "evs = c_out u"
      using a by (auto simp: flush_with_error_def terminal_events_def responses_whole_agrees_def responses_agrees_def
          split: if_splits prod.splits option.splits)
    have "responses_agrees m ?s = responses_agrees m s"
      by (simp add: responses_agrees_def tracks_def sound_def all_sent_def lives_def opens_def keys_def think_live_def text_live_def)
    then show ?thesis using responses_closed [OF _ _ u(1)] u(2) a(1) by (simp add: responses_whole_agrees_def)
  qed
  show "\<exists>m'. rwatch_all evs m = Some m' \<and> rm_completed m'"
    if a: "responses_whole_agrees True m s" "finalize_chat s = (evs, None, s')"
  proof -
    obtain u where u: "responses_terminal False (s\<lparr>c_out := []\<rparr>) = (None, u)" "evs = c_out u"
      using a by (auto simp: finalize_chat_def terminal_events_def responses_whole_agrees_def responses_agrees_def
          split: if_splits prod.splits option.splits)
    then show ?thesis using responses_closed [OF _ _ u(1), of m] u(2) a(1)
      by (simp add: responses_whole_agrees_def responses.agrees_frame completable_def)
  qed
qed

subsection \<open>The block discipline to the end\<close>

definition claude_blocks :: "bool \<Rightarrow> monitor \<Rightarrow> cc \<Rightarrow> bool" where
  "claude_blocks seen m s = (claude_agrees m s \<and> (seen \<longrightarrow> s_finish (c_snap s)))"

lemma claude_blocks_monitored: "monitored watch_all backfill (claude_blocks seen)"
proof
  show "claude_blocks seen m (s\<lparr>c_buf := b\<rparr>) = claude_blocks seen m s"
    "claude_blocks seen m (s\<lparr>c_out := evs\<rparr>) = claude_blocks seen m s" for m s b evs
    by (simp_all add: claude_blocks_def claude.agrees_frame)
next
  fix m s l s'
  assume a: "claude_blocks seen m s" "c_out s = []" "\<not> c_done s" "handle_line backfill l s = (None, s')"
  then have "claude_line l s = (None, s')" by (simp add: handle_line_def claude_blocks_def claude_agrees_def)
  then show "\<exists>m'. watch_all (c_out s') m = Some m' \<and> claude_blocks seen m' s'"
    using claude.line [of m s backfill l s'] finish_line a by (auto simp: claude_blocks_def)
qed

lemma claude_finalized_accepted:
  assumes "claude_agrees m s" "finalize_chat s = (evs, None, s')"
  shows "\<exists>m'. watch_all evs m = Some m'"
proof (cases "s_terminal (c_snap s) \<or> c_flushed s")
  case True
  then show ?thesis using assms
    by (auto simp: finalize_chat_def flush_chat_def claude_agrees_def Let_def split: if_splits option.splits)
next
  case False
  let ?s = "s\<lparr>c_flushed := True, c_out := []\<rparr>"
  have "evs = c_out (claude_flush ?s)"
    using assms False by (auto simp: finalize_chat_def flush_chat_def claude_agrees_def Let_def split: if_splits option.splits)
  moreover have "seen_by m ?s = seen_by m s"
    by (simp add: seen_by_def open_blocks_def open_tools_def tool_blocks_def)
  then have "accepted m ?s" using assms(1) by (intro acceptedI [of _ m m]) (simp_all add: claude_agrees_def)
  ultimately show ?thesis using accepted_flush [of m ?s] by (auto simp: accepted_def)
qed

interpretation claude_blocks: finalized watch_all backfill claude_blocks "\<lambda>_. True" for backfill
proof (rule finalized.intro [OF claude_blocks_monitored claude_blocks_monitored], unfold_locales)
  fix m s evs s'
  show "claude_blocks True m s = (claude_blocks False m s \<and> s_finish (c_snap s))" by (auto simp: claude_blocks_def)
  show "claude_blocks False m s \<Longrightarrow> flush_with_error s = (evs, None, s') \<Longrightarrow> \<exists>m'. watch_all evs m = Some m' \<and> True"
    using claude_finalized_accepted [of m s] by (simp add: flush_with_error_def claude_blocks_def claude_agrees_def)
  show "claude_blocks True m s \<Longrightarrow> finalize_chat s = (evs, None, s') \<Longrightarrow> \<exists>m'. watch_all evs m = Some m' \<and> True"
    using claude_finalized_accepted [of m s] by (simp add: claude_blocks_def)
qed simp

end
