(* ===== verification/Chat_Served.thy ===== *)
theory Chat_Served
  imports Chat_End
begin

text \<open>
  What the clients of a Chat Completions upstream have received when their stream is closed, with
  the pump, the timers and the converter running together, and two streams that end in a way the
  README does not promise.
\<close>

section \<open>Properties\<close>

definition roomy :: "(string \<Rightarrow> string option) \<Rightarrow> (cc, event) pump_env" where
  "roomy backfill = \<lparr>px_ops = chat_ops backfill, px_limits = \<lparr>lm_first = 4, lm_idle = 3, lm_total = 9, lm_grace = 2\<rparr>,
     px_max = 4096, px_sink = (\<lambda>_ _. None)\<rparr>"

definition read :: "string \<Rightarrow> bool \<Rightarrow> reading" where
  "read payload eof = \<lparr>rd_payload = payload, rd_msg = [], rd_closed = eof, rd_err = None, rd_cause = []\<rparr>"

text \<open>Upstream streams: one with its \<open>[DONE]\<close>, one that ends after the finish reason, one cut before it.\<close>

definition finish_line_sample :: string where
  "finish_line_sample =
     ''data: {\"choices\":[{\"finish_reason\":\"stop\"}]}'' @ [nl]"

definition usage_line_sample :: string where
  "usage_line_sample = ''data: {\"usage\":{\"prompt_tokens\":1}}''"

definition cut_sample :: string where
  "cut_sample = ''data: {\"choices\":[{\"delta\":{}}]}'' @ [nl]"

definition caused :: "string \<Rightarrow> reading" where
  "caused cause = (read [] True)\<lparr>rd_cause := cause\<rparr>"

definition completed_ok :: "event \<Rightarrow> bool" where
  "completed_ok e = (case e of EvResp (_, RCompleted _ _ status _ _) \<Rightarrow> status = ''completed'' | _ \<Rightarrow> False)"

definition started :: "string \<Rightarrow> (cc, event) pump" where
  "started source = start_pump 4 (new_cc source empty_tool_context)"

text \<open>The sample streams, evaluated two by two.\<close>

lemma samples:
  "let x = roomy (\<lambda>_. None);
       whole = pump_run x [read finish_line_sample True] (started ''claude'');
       answered = pump_run x [read finish_line_sample True] (started ''openai-response'')
   in (p_over whole \<and> clean_end (p_acts whole)) \<and> (p_over answered \<and> clean_end (p_acts answered))"
  by code_simp

lemma cut_samples:
  "let x = roomy (\<lambda>_. None);
       cut = pump_run x [read cut_sample True] (started ''openai-response'');
       refused = pump_run x [read cut_sample True] (started ''claude'')
   in \<not> s_finish (p_last cut) \<and> clean_end (p_acts cut) \<and> completed_ok (last (delivered (p_acts cut)))
      \<and> \<not> clean_end (p_acts refused)
      \<and> CloseDown ''Chat Completions stream ended before finish_reason'' \<in> set (p_acts refused)"
  by code_simp

lemma roomy_ops: "px_ops (roomy b) = chat_ops b"
  by (simp add: roomy_def)

lemma sample_system:
  "\<exists>k. system (roomy b) 9 4 c (pump_run (roomy b) [read payload eof] (start_pump 4 c)) k"
  using quiet_system [of "[read payload eof]" "roomy b" 9 4 c] by (auto simp: read_def)

lemma stop_needs_closed: "watch_all (es @ [EvClaude CMessageStop]) m0 = Some m \<Longrightarrow> m_open m = None \<or> m_late m"
  by (auto simp: watch_append split: bind_splits if_splits)

text \<open>
  C1. An Anthropic client is served whole: whatever the upstream sends, whatever the timers and
  the host do and in whatever order, at every moment the events delivered to the client keep the
  rules of the monitor: blocks numbered 0, 1, 2 and so on, a block starting only when none is open,
  text and thinking for the open block of their kind, arguments for a tool block that was started,
  stops of the open block, one message_start before every block and at most one message_delta,
  while no block is open. A stream that is closed without an error ended with message_stop,
  delivered once and last, with every block stopped unless a block was started after message_delta.
\<close>

theorem claude_client_served:
  assumes "system x bound d (new_cc ''claude'' ctx) p k" "px_ops x = chat_ops backfill"
  shows "\<exists>m. watch_all (delivered (p_acts p)) monitor_zero = Some m
    \<and> (p_over p \<and> clean_end (p_acts p) \<longrightarrow>
         (\<exists>es. delivered (p_acts p) = es @ [EvClaude CMessageStop] \<and> EvClaude CMessageStop \<notin> set es)
         \<and> (m_open m = None \<or> m_late m))"
proof -
  have "claude_blocks False monitor_zero (new_cc ''claude'' ctx)" "claude_ends False False (new_cc ''claude'' ctx)"
    by (simp_all add: claude_blocks_def claude_ends_def claude_agrees_def seen_by_def monitor_zero_def new_cc_def
        open_blocks_def open_tools_def tool_blocks_def target_of_def end_agrees_def finalizable_def snapshot_zero_def)
  then obtain m where m: "watch_all (delivered (p_acts p)) monitor_zero = Some m"
      "p_over p \<and> clean_end (p_acts p) \<longrightarrow>
         (\<exists>es. delivered (p_acts p) = es @ [EvClaude CMessageStop] \<and> EvClaude CMessageStop \<notin> set es)"
    using claude_blocks.system_accounted(2) [OF assms] claude_whole.system_accounted(1) [OF assms] ends_last [of "delivered (p_acts p)" True]
    by (fastforce simp: accounted_for_def)
  then show ?thesis using stop_needs_closed [of _ monitor_zero m] by (intro exI [of _ m]) force
qed

lemma claude_client_served_witness:
  "\<exists>p es. p = pump_run (roomy (\<lambda>_. None)) [read finish_line_sample True] (started ''claude'')
     \<and> delivered (p_acts p) = es @ [EvClaude CMessageStop]"
proof -
  let ?p = "pump_run (roomy (\<lambda>_. None)) [read finish_line_sample True] (started ''claude'')"
  have c: "p_over ?p \<and> clean_end (p_acts ?p)" using samples unfolding Let_def by blast
  obtain k where k: "system (roomy (\<lambda>_. None)) 9 4 (new_cc ''claude'' empty_tool_context) ?p k"
    using sample_system unfolding started_def by blast
  show ?thesis using claude_client_served [OF k roomy_ops] c by blast
qed

text \<open>
  C2. A Responses client is served whole: whatever the upstream sends, whatever the timers and the
  host do and in whatever order, the events delivered keep the item lifecycle at every moment; and
  a stream that is closed without an error has delivered response.completed.
\<close>

theorem responses_client_served:
  assumes "system x bound d (new_cc ''openai-response'' ctx) p k" "px_ops x = chat_ops backfill"
  shows "case rwatch_all (delivered (p_acts p)) rmonitor_zero of
      None \<Rightarrow> False
    | Some m \<Rightarrow> p_over p \<and> clean_end (p_acts p) \<longrightarrow> rm_completed m"
proof -
  have "responses_whole_agrees False rmonitor_zero (new_cc ''openai-response'' ctx)"
    by (simp add: responses_whole_agrees_def responses_agrees_def tracks_def sound_def all_sent_def rmonitor_zero_def
        new_cc_def lives_def opens_def keys_def think_live_def text_live_def target_of_def completable_def snapshot_zero_def)
  then show ?thesis
    using responses_whole.system_accounted [OF assms] by (fastforce simp: accounted_for_def)
qed

lemma responses_client_served_witness:
  "\<exists>p m. p = pump_run (roomy (\<lambda>_. None)) [read finish_line_sample True] (started ''openai-response'')
     \<and> rwatch_all (delivered (p_acts p)) rmonitor_zero = Some m \<and> rm_completed m"
proof -
  let ?p = "pump_run (roomy (\<lambda>_. None)) [read finish_line_sample True] (started ''openai-response'')"
  have c: "p_over ?p \<and> clean_end (p_acts ?p)" using samples unfolding Let_def by blast
  obtain k where k: "system (roomy (\<lambda>_. None)) 9 4 (new_cc ''openai-response'' empty_tool_context) ?p k"
    using sample_system unfolding started_def by blast
  note s = responses_client_served [OF k roomy_ops]
  show ?thesis
  proof (cases "rwatch_all (delivered (p_acts ?p)) rmonitor_zero")
    case None
    then show ?thesis using s by (simp only: option.case)
  next
    case (Some m)
    then have "rm_completed m" using s c by (simp only: option.case)
    then show ?thesis using Some by blast
  qed
qed

lemma emit_takes_all:
  assumes "\<And>es e. sink es e = None"
  shows "\<exists>w. emit_all sink evs q = (None, w) \<and> timer_acts (p_acts w) = timer_acts (p_acts q) \<and> p_last w = p_last q"
proof (induction evs arbitrary: q)
  case (Cons ev evs)
  obtain w where "emit_all sink evs (act (Deliver ev) q) = (None, w)"
      "timer_acts (p_acts w) = timer_acts (p_acts (act (Deliver ev) q))" "p_last w = p_last (act (Deliver ev) q)"
    using Cons.IH [of "act (Deliver ev) q"] by blast
  moreover from this(1) have "emit_all sink (ev # evs) q = (None, w)"
    by (simp only: emit_all.simps assms option.case)
  ultimately show ?case by auto
qed simp

text \<open>
  C37. The usage trailer takes the finish grace away. Once a finish reason was observed, a line of
  a later network chunk that brings a new usage and no choices is progress, so the idle timer is
  armed in place of the grace timer, and the grace is not armed again: the stream goes on, and when
  the idle timer then ends it, the client gets the idle timeout error.
\<close>

theorem usage_disarms_grace:
  assumes "live_pump p" "px_ops x = chat_ops backfill" "\<And>es e. px_sink x es e = None"
    and "c_target (p_conv p) = ToClaude" "\<not> c_done (p_conv p)" "c_buf (p_conv p) = []"
    and "s_finish (p_last p)" "p_last p = c_snap (p_conv p)" "s_progress (p_last p) < 2 ^ 64 - 1"
    and "nl \<notin> set line" "chunk_of (trim_suffix line [cr]) = Some ch" "ch_choices ch = []"
    and "ch_usage ch = Some u" "c_usage_progress (p_conv p) \<noteq> Some u" "p_total p + int (length line) < px_max x"
  shows "let p' = pump_turn x (read (line @ [nl]) False) p in
      live_pump p' \<and> s_finish (p_last p')
      \<and> timer_acts (p_acts p') = timer_acts (p_acts p) @ [Arm (lm_idle (px_limits x)) ''idle'']
      \<and> CloseDown ''stream idle timeout'' \<in> set (p_acts (pump_turn x (caused ''idle'') p'))"
proof -
  let ?r = "read (line @ [nl]) False"
  let ?c = "(p_conv p)\<lparr>c_out := [], c_usage := Some u\<rparr>"
  obtain v where v: "feed_chat backfill (line @ [nl]) (p_conv p) = (c_out v, False, None, v\<lparr>c_out := []\<rparr>)" "v = claude_chunk ch ?c"
    using feed_claude_line [OF assms(4-6,10,11), of backfill] assms(13) by auto
  have t: "c_snap (claude_terminal s) = c_snap s" "c_usage_progress (claude_terminal s) = c_usage_progress s" for s
    by (simp_all add: claude_terminal_def Let_def emit_def)
  have snap: "c_snap v = st_advance (p_last p)"
    using assms(8,12-14) by (simp add: v(2) claude_chunk_def claude_start_def usage_step_def progress_def Let_def t)
  have adv: "s_progress (p_last p) < s_progress (c_snap v)"
  proof (cases "0 \<le> s_progress (p_last p)")
    case True
    then show ?thesis using assms(9) by (simp add: snap st_advance_def mod_pos_pos_trivial)
  next
    case False
    then show ?thesis using pos_mod_sign [of "2 ^ 64" "s_progress (p_last p) + 1"] by (simp add: snap st_advance_def)
  qed
  have fin: "s_finish (c_snap v)" using assms(7) by (simp add: snap st_advance_def)
  let ?p = "(count_bytes (line @ [nl]) p)\<lparr>p_conv := v\<lparr>c_out := []\<rparr>\<rparr>"
  let ?o = "observe_progress (px_limits x) (c_snap v) ?p"
  have o: "timer_acts (p_acts ?o) = timer_acts (p_acts p) @ [Arm (lm_idle (px_limits x)) ''idle'']" "p_last ?o = c_snap v"
    "p_conv ?o = v\<lparr>c_out := []\<rparr>"
    using assms(7) adv by (simp_all add: observe_progress_def count_bytes_def Let_def)
  obtain w where w: "emit_all (px_sink x) (c_out v) ?o = (None, w)" "timer_acts (p_acts w) = timer_acts (p_acts ?o)" "p_last w = p_last ?o"
    using emit_takes_all [of "px_sink x" "c_out v" ?o] assms(3) by blast
  have "convert x ?r (count_bytes (line @ [nl]) p) = (Again, w\<lparr>p_done := False\<rparr>)"
    using v(1) w(1) by (simp add: convert_def read_def assms(2) Let_def)
  then have tn: "turn x ?r p = (Again, w\<lparr>p_done := False\<rparr>)" using assms(15) by (simp add: turn_def read_def total_count)
  then have n: "pump_turn x ?r p = w\<lparr>p_done := False\<rparr>" by (simp add: pump_turn_def)
  have l: "live_pump (w\<lparr>p_done := False\<rparr>)" using live_turn [OF assms(1) tn] by simp
  have "CloseDown ''stream idle timeout'' \<in> set (p_acts (pump_turn x (caused ''idle'') (w\<lparr>p_done := False\<rparr>)))"
    using l by (simp add: pump_turn_def turn_def caused_def read_def on_cause_def stream_cause_error_def fail_with_def
        deferred_def close_streams_def log_done_def live_pump_def)
  then show ?thesis using l o w(2,3) fin by (simp add: n Let_def)
qed

text \<open>A stream with its finish reason read, and the usage trailer.\<close>

definition finished_pump :: "(cc, event) pump" where
  "finished_pump = pump_run (roomy (\<lambda>_. None)) [read finish_line_sample False] (started ''claude'')"

lemma finished_sample:
  "let p = finished_pump in live_pump p \<and> c_target (p_conv p) = ToClaude \<and> \<not> c_done (p_conv p) \<and> c_buf (p_conv p) = []
     \<and> s_finish (p_last p) \<and> p_last p = c_snap (p_conv p) \<and> s_progress (p_last p) < 2 ^ 64 - 1
     \<and> c_usage_progress (p_conv p) = None \<and> p_total p < 100
     \<and> timer_acts (p_acts p) = [Arm 4 ''first_data'', Arm 3 ''idle'', Arm 2 ''finish_grace'']"
  by code_simp

lemma trailer_sample:
  "nl \<notin> set usage_line_sample \<and> length usage_line_sample < 100
   \<and> (case chunk_of (trim_suffix usage_line_sample [cr]) of
        None \<Rightarrow> False | Some ch \<Rightarrow> ch_choices ch = [] \<and> ch_usage ch \<noteq> None)"
  by code_simp

lemma usage_disarms_grace_witness:
  "timer_acts (p_acts (pump_turn (roomy (\<lambda>_. None)) (read (usage_line_sample @ [nl]) False) finished_pump))
     = [Arm 4 ''first_data'', Arm 3 ''idle'', Arm 2 ''finish_grace'', Arm 3 ''idle'']"
proof -
  note p = finished_sample [unfolded Let_def]
  obtain ch u where ch: "chunk_of (trim_suffix usage_line_sample [cr]) = Some ch" "ch_choices ch = []" "ch_usage ch = Some u"
    using trailer_sample by (auto split: option.splits)
  have x: "px_sink (roomy (\<lambda>_. None)) es e = None" "lm_idle (px_limits (roomy (\<lambda>_. None))) = 3"
    "px_max (roomy (\<lambda>_. None)) = 4096" for es e
    by (simp_all add: roomy_def)
  have "p_total finished_pump + int (length usage_line_sample) < px_max (roomy (\<lambda>_. None))"
    "c_usage_progress (p_conv finished_pump) \<noteq> Some u" "nl \<notin> set usage_line_sample"
    using p trailer_sample by (simp_all add: x)
  then have "timer_acts (p_acts (pump_turn (roomy (\<lambda>_. None)) (read (usage_line_sample @ [nl]) False) finished_pump))
      = timer_acts (p_acts finished_pump) @ [Arm (lm_idle (px_limits (roomy (\<lambda>_. None)))) ''idle'']"
    using usage_disarms_grace [of finished_pump "roomy (\<lambda>_. None)" "\<lambda>_. None" usage_line_sample ch u, OF _ roomy_ops x(1) _ _ _ _ _ _ _ ch]
      p unfolding Let_def by blast
  then show ?thesis using p by (simp add: x)
qed

text \<open>
  A block that is started after message_delta is never stopped when the upstream closes without
  [DONE]: what \<open>FinalizeStream\<close> adds is message_stop alone, whatever blocks are open.
\<close>

theorem late_block_never_stopped:
  assumes "c_target s = ToClaude" "c_terminal_sent s" "c_held s = []" "\<not> c_flushed s" "s_finish (c_snap s)"
    and "\<not> s_terminal (c_snap s)" "validate_accumulated_tools s = None"
  shows "fst (finalize_chat s) = [EvClaude CMessageStop]"
  using assms by (simp add: finalize_chat_def flush_chat_def claude_flush_def claude_terminal_def Let_def emit_def)

text \<open>
  A Chat Completions stream that is cut before any finish reason ends, for a Responses client,
  with response.completed, status completed, and no error, while an Anthropic client gets the error.
\<close>

theorem truncated_stream_completed:
  "let x = roomy (\<lambda>_. None);
       p = pump_run x [read cut_sample True] (started ''openai-response'');
       q = pump_run x [read cut_sample True] (started ''claude'')
   in \<not> s_finish (p_last p) \<and> clean_end (p_acts p) \<and> completed_ok (last (delivered (p_acts p)))
      \<and> \<not> clean_end (p_acts q)
      \<and> CloseDown ''Chat Completions stream ended before finish_reason'' \<in> set (p_acts q)"
  using cut_samples unfolding Let_def by blast

lemma pump_returns_witness:
  "p_over (pump_run (roomy (\<lambda>_. None)) [read finish_line_sample True] (started ''claude''))"
  using pump_returns [of "[read finish_line_sample True]" "roomy (\<lambda>_. None)"] by (simp add: read_def ending_def roomy_def started_def)

end
