(* ===== verification/Messages_Contract.thy ===== *)
theory Messages_Contract
  imports Messages_Stream Framer
begin

text \<open>
  What the converter of Messages_Stream promises: feeding is a run over the frames of the whole
  body, however it was cut; and invariants of that run for the synthesized targets.
\<close>

section \<open>The run over frames\<close>

text \<open>The abstract view of a stream: frame after frame, up to the first error or the end.\<close>

fun run_frames :: "frame list \<Rightarrow> ms \<Rightarrow> bool \<times> err option \<times> ms" where
  "run_frames [] s = (False, None, s)"
| "run_frames (fr # frs) s =
     (case frame_step fr s of
        (d, e, s') \<Rightarrow> if d \<or> e \<noteq> None then (d, e, s') else run_frames frs s')"

lemma run_frames_append:
  "run_frames (xs @ ys) s =
    (case run_frames xs s of (d, e, s') \<Rightarrow> if d \<or> e \<noteq> None then (d, e, s') else run_frames ys s')"
  by (induction xs arbitrary: s) (auto split: prod.splits)

lemma ms_loop_run:
  "ms_loop f s = (d, e, f', s') \<Longrightarrow>
     run_frames (snd (drain f)) s = (d, e, s') \<and> (\<not> d \<and> e = None \<longrightarrow> f' = fst (drain f))"
proof (induction "length (fr_buf f)" arbitrary: f s rule: less_induct)
  case less
  show ?case
  proof (cases "frame_next f")
    case (Pair g x)
    show ?thesis
    proof (cases x)
      case None
      then have "drain f = (g, [])" using Pair by (subst drain.simps) simp
      then show ?thesis using less.prems Pair None by (subst (asm) ms_loop.simps) auto
    next
      case (Some fr)
      obtain d1 e1 s1 where st: "frame_step fr s = (d1, e1, s1)" by (cases "frame_step fr s")
      have dr: "drain f = (fst (drain g), fr # snd (drain g))"
        using Pair Some by (subst drain.simps) (simp add: split_beta)
      show ?thesis
      proof (cases "d1 \<or> e1 \<noteq> None")
        case True
        then show ?thesis using less.prems Pair Some st dr by (subst (asm) ms_loop.simps) auto
      next
        case False
        then have "ms_loop g s1 = (d, e, f', s')"
          using less.prems Pair Some st by (subst (asm) ms_loop.simps) auto
        moreover have "length (fr_buf g) < length (fr_buf f)" using Pair Some frame_next_shorter by blast
        ultimately show ?thesis using less.hyps [of g s1] False st dr by auto
      qed
    qed
  qed
qed

section \<open>Events already sent and the framer do not matter\<close>

definition pre :: "event list \<Rightarrow> framer \<Rightarrow> ms \<Rightarrow> ms" where
  "pre xs g s = s\<lparr>ms_out := xs @ ms_out s, ms_framer := g\<rparr>"

lemma pre_simps [simp]:
  "ms_framer (pre xs g s) = g" "ms_target (pre xs g s) = ms_target s"
  "ms_created (pre xs g s) = ms_created s" "ms_blocks (pre xs g s) = ms_blocks s"
  "ms_tool_ordinal (pre xs g s) = ms_tool_ordinal s" "ms_id (pre xs g s) = ms_id s"
  "ms_model (pre xs g s) = ms_model s" "ms_prompt (pre xs g s) = ms_prompt s"
  "ms_completion (pre xs g s) = ms_completion s" "ms_cache_read (pre xs g s) = ms_cache_read s"
  "ms_cache_creation (pre xs g s) = ms_cache_creation s" "ms_stop (pre xs g s) = ms_stop s"
  "ms_tools_seen (pre xs g s) = ms_tools_seen s" "ms_role_sent (pre xs g s) = ms_role_sent s"
  "ms_msg_idx (pre xs g s) = ms_msg_idx s" "ms_out_count (pre xs g s) = ms_out_count s"
  "ms_emitted (pre xs g s) = ms_emitted s" "ms_flushed (pre xs g s) = ms_flushed s"
  "ms_snap (pre xs g s) = ms_snap s" "ms_last_usage (pre xs g s) = ms_last_usage s"
  "ms_seen (pre xs g s) = ms_seen s" "ms_out (pre xs g s) = xs @ ms_out s"
  by (simp_all add: pre_def)

lemma pre_updates:
  "pre xs g s\<lparr>ms_blocks := b\<rparr> = pre xs g (s\<lparr>ms_blocks := b\<rparr>)"
  "pre xs g s\<lparr>ms_tool_ordinal := i\<rparr> = pre xs g (s\<lparr>ms_tool_ordinal := i\<rparr>)"
  "pre xs g s\<lparr>ms_id := t\<rparr> = pre xs g (s\<lparr>ms_id := t\<rparr>)"
  "pre xs g s\<lparr>ms_model := t\<rparr> = pre xs g (s\<lparr>ms_model := t\<rparr>)"
  "pre xs g s\<lparr>ms_prompt := i\<rparr> = pre xs g (s\<lparr>ms_prompt := i\<rparr>)"
  "pre xs g s\<lparr>ms_completion := i\<rparr> = pre xs g (s\<lparr>ms_completion := i\<rparr>)"
  "pre xs g s\<lparr>ms_cache_read := oi\<rparr> = pre xs g (s\<lparr>ms_cache_read := oi\<rparr>)"
  "pre xs g s\<lparr>ms_cache_creation := oi\<rparr> = pre xs g (s\<lparr>ms_cache_creation := oi\<rparr>)"
  "pre xs g s\<lparr>ms_stop := t\<rparr> = pre xs g (s\<lparr>ms_stop := t\<rparr>)"
  "pre xs g s\<lparr>ms_tools_seen := q\<rparr> = pre xs g (s\<lparr>ms_tools_seen := q\<rparr>)"
  "pre xs g s\<lparr>ms_role_sent := q\<rparr> = pre xs g (s\<lparr>ms_role_sent := q\<rparr>)"
  "pre xs g s\<lparr>ms_msg_idx := i\<rparr> = pre xs g (s\<lparr>ms_msg_idx := i\<rparr>)"
  "pre xs g s\<lparr>ms_out_count := i\<rparr> = pre xs g (s\<lparr>ms_out_count := i\<rparr>)"
  "pre xs g s\<lparr>ms_emitted := q\<rparr> = pre xs g (s\<lparr>ms_emitted := q\<rparr>)"
  "pre xs g s\<lparr>ms_snap := sn\<rparr> = pre xs g (s\<lparr>ms_snap := sn\<rparr>)"
  "pre xs g s\<lparr>ms_last_usage := u\<rparr> = pre xs g (s\<lparr>ms_last_usage := u\<rparr>)"
  "pre xs g s\<lparr>ms_seen := se\<rparr> = pre xs g (s\<lparr>ms_seen := se\<rparr>)"
  by (simp_all add: pre_def)

lemma pre_emit: "ms_emit e (pre xs g s) = pre xs g (ms_emit e s)"
  by (simp add: ms_emit_def pre_def)

lemma pre_progress: "ms_progress f (pre xs g s) = pre xs g (ms_progress f s)"
  by (simp add: ms_progress_def pre_def)

lemma pre_put: "put_blk i b (pre xs g s) = pre xs g (put_blk i b s)"
  by (simp add: put_blk_def pre_updates)

lemma pre_capture: "capture_cache u (pre xs g s) = pre xs g (capture_cache u s)"
  by (auto simp: capture_cache_def pre_updates split: option.splits)

lemma pre_begin: "ms_begin ev (pre xs g s) = pre xs g (ms_begin ev s)"
  by (simp add: ms_begin_def pre_updates pre_capture)

lemma pre_count: "ms_count ev (pre xs g s) = pre xs g (ms_count ev s)"
  by (simp add: ms_count_def pre_updates pre_capture)

lemma pre_role: "emit_role (pre xs g s) = pre xs g (emit_role s)"
  by (simp add: emit_role_def pre_updates pre_emit ms_builder_def)

lemma pre_chunk: "emit_chunk d fin u (pre xs g s) = pre xs g (emit_chunk d fin u s)"
  by (simp add: emit_chunk_def pre_emit ms_builder_def ms_input_total_def)

lemma pre_remit: "ms_remit b (pre xs g s) = pre xs g (ms_remit b s)"
  by (simp add: ms_remit_def pre_emit)

lemmas pre_ops = pre_updates pre_emit pre_progress pre_put pre_capture pre_begin pre_count pre_role pre_chunk pre_remit

lemma pre_completed: "responses_completed (pre xs g s) = responses_completed s"
  by (simp add: responses_completed_def ms_input_total_def ms_output_items_def)

lemma pre_validate: "validate_tools (pre xs g s) = validate_tools s"
  by (simp add: validate_tools_def)

definition lift_out :: "event list \<Rightarrow> framer \<Rightarrow> bool \<times> err option \<times> ms \<Rightarrow> bool \<times> err option \<times> ms" where
  "lift_out xs g r = (case r of (d, e, s) \<Rightarrow> (d, e, pre xs g s))"

lemma lift_out_simps [simp]: "lift_out xs g (d, e, s) = (d, e, pre xs g s)"
  by (simp add: lift_out_def)

lemma pre_openai: "dispatch_openai etype ev (pre xs g s) = lift_out xs g (dispatch_openai etype ev s)"
  by (auto simp: dispatch_openai_def openai_block_def openai_delta_def Let_def pre_ops split: option.splits)

lemma pre_responses: "dispatch_responses etype ev (pre xs g s) = lift_out xs g (dispatch_responses etype ev s)"
  by (auto simp: dispatch_responses_def responses_block_def responses_delta_def Let_def pre_ops put_blk_def
      pre_completed split: option.splits)

lemma claude_view:
  "\<exists>c x b. \<forall>s. dispatch_claude etype data raw s =
     (if c then (False, Some x, s) else (b, None, if raw \<noteq> [] then ms_emit (EvRaw raw) s else s))"
  unfolding dispatch_claude_def Let_def by (intro exI allI, rule refl)

lemma pre_claude: "dispatch_claude etype data raw (pre xs g s) = lift_out xs g (dispatch_claude etype data raw s)"
proof -
  obtain c x b where "\<And>s. dispatch_claude etype data raw s =
      (if c then (False, Some x, s) else (b, None, if raw \<noteq> [] then ms_emit (EvRaw raw) s else s))"
    using claude_view by blast
  then show ?thesis by (simp add: pre_emit)
qed

lemma pre_dispatch: "dispatch etype data raw (pre xs g s) = lift_out xs g (dispatch etype data raw s)"
proof (cases "ms_target s = ToClaude")
  case True
  then show ?thesis by (simp add: dispatch_def pre_claude)
next
  case False
  obtain ev ok where u: "(if data \<noteq> [] then unmarshal dec_sse_ev data sse_ev_zero else (sse_ev_zero, True)) = (ev, ok)"
    by fastforce
  show ?thesis using False unfolding dispatch_def pre_simps u
    by (cases ok; cases "ms_target s") (simp_all add: pre_openai pre_responses Let_def)
qed

lemma pre_observe: "observe_frame etype data (pre xs g s) = pre xs g (observe_frame etype data s)"
proof -
  obtain ev where ev: "fst (unmarshal dec_sse_ev data sse_ev_zero) = ev" by simp
  have last: "ms_last_usage (ms_progress f s) = ms_last_usage s" for f s by (simp add: ms_progress_def)
  show ?thesis
    unfolding observe_frame_def ev Let_def
    by (simp only: pre_ops pre_validate pre_simps if_distrib [of "pre xs g"] if_distrib [of ms_last_usage] last
        if_distrib [of "ms_progress f" for f] if_distrib [of "\<lambda>s. s\<lparr>ms_last_usage := u\<rparr>" for u] if_cancel cong: if_cong)
qed

section \<open>What a dispatch leaves alone\<close>

definition outside :: "ms \<Rightarrow> bool \<times> snapshot \<times> framer \<times> target \<times> bool" where
  "outside s = (ms_emitted s, ms_snap s, ms_framer s, ms_target s, ms_flushed s)"

lemma outside_upd [simp]:
  "outside (s\<lparr>ms_blocks := b\<rparr>) = outside s" "outside (s\<lparr>ms_tool_ordinal := i\<rparr>) = outside s"
  "outside (s\<lparr>ms_id := t\<rparr>) = outside s" "outside (s\<lparr>ms_model := t\<rparr>) = outside s"
  "outside (s\<lparr>ms_prompt := i\<rparr>) = outside s" "outside (s\<lparr>ms_completion := i\<rparr>) = outside s"
  "outside (s\<lparr>ms_cache_read := oi\<rparr>) = outside s" "outside (s\<lparr>ms_cache_creation := oi\<rparr>) = outside s"
  "outside (s\<lparr>ms_stop := t\<rparr>) = outside s" "outside (s\<lparr>ms_tools_seen := q\<rparr>) = outside s"
  "outside (s\<lparr>ms_role_sent := q\<rparr>) = outside s" "outside (s\<lparr>ms_msg_idx := i\<rparr>) = outside s"
  "outside (s\<lparr>ms_out_count := i\<rparr>) = outside s" "outside (s\<lparr>ms_out := evs\<rparr>) = outside s"
  by (simp_all add: outside_def)

lemma outside_ops [simp]:
  "outside (ms_emit e s) = outside s" "outside (put_blk i b s) = outside s" "outside (ms_remit rb s) = outside s"
  "outside (emit_role s) = outside s" "outside (emit_chunk d fin u s) = outside s"
  "outside (capture_cache us s) = outside s" "outside (ms_begin ev s) = outside s" "outside (ms_count ev s) = outside s"
  by (simp_all add: ms_emit_def put_blk_def ms_remit_def emit_role_def emit_chunk_def capture_cache_def
      ms_begin_def ms_count_def Let_def split: option.split)

lemma outside_openai: "outside (snd (snd (dispatch_openai etype ev s))) = outside s"
  by (auto simp: dispatch_openai_def openai_block_def openai_delta_def Let_def split: option.split)

lemma outside_responses: "outside (snd (snd (dispatch_responses etype ev s))) = outside s"
  by (auto simp: dispatch_responses_def responses_block_def responses_delta_def Let_def split: option.split)

lemma outside_dispatch: "outside (snd (snd (dispatch etype data raw s))) = outside s"
proof (cases "ms_target s = ToClaude")
  case True
  obtain c x b where "\<And>s. dispatch_claude etype data raw s =
      (if c then (False, Some x, s) else (b, None, if raw \<noteq> [] then ms_emit (EvRaw raw) s else s))"
    using claude_view by blast
  then show ?thesis using True by (simp add: dispatch_def)
next
  case False
  obtain ev ok where u: "(if data \<noteq> [] then unmarshal dec_sse_ev data sse_ev_zero else (sse_ev_zero, True)) = (ev, ok)"
    by fastforce
  show ?thesis using False unfolding dispatch_def u
    by (cases ok; cases "ms_target s") (simp_all add: outside_openai outside_responses Let_def)
qed

lemma dispatch_keeps:
  assumes "dispatch etype data raw s = (d, e, s')"
  shows "ms_emitted s' = ms_emitted s \<and> ms_snap s' = ms_snap s \<and> ms_target s' = ms_target s \<and> ms_framer s' = ms_framer s"
  using outside_dispatch [of etype data raw s] assms by (simp add: outside_def)

lemma observe_keeps:
  "ms_emitted (observe_frame etype data s) = ms_emitted s" "ms_out (observe_frame etype data s) = ms_out s"
  "ms_target (observe_frame etype data s) = ms_target s" "ms_framer (observe_frame etype data s) = ms_framer s"
  by (simp_all add: observe_frame_def ms_progress_def Let_def)

lemma pre_step:
  assumes "xs \<noteq> [] \<longrightarrow> ms_emitted s"
  shows "frame_step fr (pre xs g s) = lift_out xs g (frame_step fr s)"
proof -
  obtain etype data raw where fr: "fr = (etype, data, raw)" by (cases fr)
  obtain d e s1 where dp: "dispatch etype data raw s = (d, e, s1)" by (cases "dispatch etype data raw s")
  then have em: "ms_emitted s1 = ms_emitted s" by (simp add: dispatch_keeps)
  have id: "xs \<noteq> [] \<Longrightarrow> s1\<lparr>ms_emitted := True\<rparr> = s1" using assms em by (cases s1) simp
  define s2 where "s2 = (if ms_out s1 \<noteq> [] then s1\<lparr>ms_emitted := True\<rparr> else s1)"
  have flag: "(if ms_out (pre xs g s1) \<noteq> [] then pre xs g s1\<lparr>ms_emitted := True\<rparr> else pre xs g s1)
      = pre xs g s2"
  proof (cases "xs = []")
    case True
    then show ?thesis by (simp only: s2_def pre_updates pre_simps append_Nil if_distrib [of "pre [] g"])
  next
    case False
    then show ?thesis unfolding s2_def pre_updates id [OF False] by simp
  qed
  have tail: "(if e \<noteq> None then (False, e, t) else if d \<and> validate_tools t \<noteq> None then (False, validate_tools t, t)
      else (d, None, observe_frame etype data t)) = lift_out xs g (if e \<noteq> None then (False, e, s2)
      else if d \<and> validate_tools s2 \<noteq> None then (False, validate_tools s2, s2)
      else (d, None, observe_frame etype data s2))" if "t = pre xs g s2" for t
    unfolding that by (cases e; cases "validate_tools s2"; cases d) (simp_all add: pre_validate pre_observe)
  show ?thesis
    by (simp only: fr frame_step_def prod.case pre_dispatch dp lift_out_simps Let_def tail [OF flag]
        s2_def [symmetric])
qed

lemma step_flagged:
  assumes "frame_step fr s = (d, e, s')" "ms_emitted s"
  shows "ms_emitted s'"
proof -
  obtain etype data raw where fr: "fr = (etype, data, raw)" by (cases fr)
  obtain d1 e1 s1 where dp: "dispatch etype data raw s = (d1, e1, s1)" by (cases "dispatch etype data raw s")
  then show ?thesis using assms dispatch_keeps [OF dp] fr
    by (auto simp: frame_step_def Let_def observe_keeps split: if_splits)
qed

lemma step_sets_flag:
  assumes "frame_step fr s = (d, e, s')" "ms_out s' \<noteq> []"
  shows "ms_emitted s'"
proof -
  obtain etype data raw where fr: "fr = (etype, data, raw)" by (cases fr)
  obtain d1 e1 s1 where dp: "dispatch etype data raw s = (d1, e1, s1)" by (cases "dispatch etype data raw s")
  then show ?thesis using assms fr
    by (auto simp: frame_step_def Let_def observe_keeps split: if_splits)
qed

lemma pre_run:
  "xs \<noteq> [] \<longrightarrow> ms_emitted s \<Longrightarrow> run_frames frs (pre xs g s) = lift_out xs g (run_frames frs s)"
proof (induction frs arbitrary: s)
  case (Cons fr frs)
  obtain d e s' where st: "frame_step fr s = (d, e, s')" by (cases "frame_step fr s")
  then have "xs \<noteq> [] \<longrightarrow> ms_emitted s'" using Cons.prems step_flagged by blast
  then show ?case using Cons st pre_step [OF Cons.prems, of fr] by simp
qed simp

lemma run_flagged:
  "run_frames frs s = (d, e, s') \<Longrightarrow> (ms_out s \<noteq> [] \<longrightarrow> ms_emitted s) \<Longrightarrow> ms_out s' \<noteq> [] \<longrightarrow> ms_emitted s'"
proof (induction frs arbitrary: s)
  case (Cons fr frs)
  obtain d1 e1 s1 where st: "frame_step fr s = (d1, e1, s1)" by (cases "frame_step fr s")
  then show ?case using Cons step_sets_flag [OF st] by (auto split: if_splits)
qed simp

section \<open>Bodies\<close>

text \<open>What a caller does with a stream: chunk after chunk, up to the end or the first error.\<close>

fun feed_ms_body :: "string list \<Rightarrow> ms \<Rightarrow> event list \<times> bool \<times> err option \<times> ms" where
  "feed_ms_body [] s = ([], False, None, s)"
| "feed_ms_body (c # cs) s =
     (case feed_ms c s of
        (evs, d, e, s') \<Rightarrow>
          if d \<or> e \<noteq> None then (evs, d, e, s')
          else (case feed_ms_body cs s' of (evs', r) \<Rightarrow> (evs @ evs', r)))"

text \<open>The frames a converter state still has to see when the bytes \<open>b\<close> arrive.\<close>

definition frames_of :: "ms \<Rightarrow> string \<Rightarrow> frame list" where
  "frames_of s b = snd (drain (push (ms_framer s) b))"

lemma frames_of_append:
  "frames_of s (a @ b) = frames_of s a @ snd (drain (push (fst (drain (push (ms_framer s) a))) b))"
proof -
  have "push (ms_framer s) (a @ b) = push (push (ms_framer s) a) b" by (simp add: push_def)
  then show ?thesis by (simp add: frames_of_def drain_push [of "push (ms_framer s) a" b])
qed

lemma feed_ms_run:
  assumes "feed_ms c s = (evs, d, e, s')" "ms_out s = []"
  obtains r where "run_frames (frames_of s c) s = (d, e, r)" "ms_out r = evs" "r = pre evs (ms_framer r) s'"
    "\<not> d \<and> e = None \<longrightarrow> ms_framer s' = fst (drain (push (ms_framer s) c))"
proof -
  have "s\<lparr>ms_out := []\<rparr> = s" using assms(2) by (cases s) simp
  then obtain f r where l: "ms_loop (push (ms_framer s) c) s = (d, e, f, r)" "ms_out r = evs"
    "s' = r\<lparr>ms_framer := f, ms_out := []\<rparr>"
    using assms(1) by (auto simp: feed_ms_def split: prod.splits)
  show thesis
  proof
    show "run_frames (frames_of s c) s = (d, e, r)" using ms_loop_run [OF l(1)] by (simp add: frames_of_def)
    show "ms_out r = evs" by (rule l(2))
    show "r = pre evs (ms_framer r) s'" using l by (cases r) (simp add: pre_def)
    show "\<not> d \<and> e = None \<longrightarrow> ms_framer s' = fst (drain (push (ms_framer s) c))"
      using ms_loop_run [OF l(1)] l(3) by auto
  qed
qed

lemma feed_body_run:
  "feed_ms_body cs s = (evs, d, e, s') \<Longrightarrow> ms_out s = [] \<Longrightarrow> split_at nl (fr_buf (ms_framer s)) = None \<Longrightarrow>
     \<exists>r. run_frames (frames_of s (concat cs)) s = (d, e, r) \<and> ms_out r = evs \<and> r = pre evs (ms_framer r) s'"
proof (induction cs arbitrary: s evs)
  case Nil
  moreover have "s = pre [] (ms_framer s) s" by (simp add: pre_def)
  ultimately show ?case by (auto simp: frames_of_def push_def drain_None)
next
  case (Cons c cs)
  obtain evs1 d1 e1 s1 where f: "feed_ms c s = (evs1, d1, e1, s1)" by (cases "feed_ms c s")
  obtain r1 where r1: "run_frames (frames_of s c) s = (d1, e1, r1)" "ms_out r1 = evs1"
      "r1 = pre evs1 (ms_framer r1) s1" "\<not> d1 \<and> e1 = None \<longrightarrow> ms_framer s1 = fst (drain (push (ms_framer s) c))"
    by (rule feed_ms_run [OF f Cons.prems(2)])
  show ?case
  proof (cases "d1 \<or> e1 \<noteq> None")
    case True
    then show ?thesis using Cons.prems(1) f r1(1-3) by (auto simp: frames_of_append run_frames_append)
  next
    case False
    then obtain evs2 where b: "feed_ms_body cs s1 = (evs2, d, e, s')" "evs = evs1 @ evs2"
      using Cons.prems(1) f by (auto split: prod.splits)
    have fr: "ms_framer s1 = fst (drain (push (ms_framer s) c))" using False r1(4) by auto
    have "ms_out s1 = []" using arg_cong [OF r1(3), of ms_out] r1(2) by simp
    moreover have "split_at nl (fr_buf (ms_framer s1)) = None" unfolding fr by (rule drain_done)
    ultimately obtain r2 where r2: "run_frames (frames_of s1 (concat cs)) s1 = (d, e, r2)" "ms_out r2 = evs2"
        "r2 = pre evs2 (ms_framer r2) s'"
      using Cons.IH b(1) by blast
    have "evs1 \<noteq> [] \<longrightarrow> ms_emitted r1" using run_flagged [OF r1(1)] Cons.prems(2) r1(2) by simp
    then have "evs1 \<noteq> [] \<longrightarrow> ms_emitted s1" using arg_cong [OF r1(3), of ms_emitted] by simp
    then have "run_frames (frames_of s1 (concat cs)) r1 = (d, e, pre evs1 (ms_framer r1) r2)"
      by (subst r1(3)) (simp add: pre_run r2(1))
    moreover have "frames_of s (concat (c # cs)) = frames_of s c @ frames_of s1 (concat cs)"
      using frames_of_append [of s c "concat cs"] fr by (simp add: frames_of_def)
    moreover have "pre evs1 (ms_framer r1) r2 = pre evs (ms_framer r1) s'"
      unfolding b(2) by (subst r2(3)) (simp add: pre_def)
    moreover have "ms_out s' = []" using arg_cong [OF r2(3), of ms_out] r2(2) by simp
    ultimately show ?thesis using False r1(1) r2(2) b(2) by (auto simp: run_frames_append)
  qed
qed

lemma new_ms_view:
  "ms_out (new_ms source now) = []" "ms_framer (new_ms source now) = new_framer (source = ''claude'')"
  "split_at nl (fr_buf (new_framer want)) = None"
  by (simp_all add: new_ms_def new_framer_def)

lemma new_body_run:
  assumes "feed_ms_body cs (new_ms source now) = (evs, d, e, s')"
  obtains r where "run_frames (snd (feed_framer (new_framer (source = ''claude'')) (concat cs))) (new_ms source now) = (d, e, r)"
    "ms_out r = evs" "r = pre evs (ms_framer r) s'"
  using feed_body_run [OF assms] by (auto simp: frames_of_def feed_framer_def new_ms_view)

section \<open>The event of a frame\<close>

text \<open>The event of a frame on a conversion target, when its payload decodes.\<close>

definition frame_event :: "string \<Rightarrow> string \<Rightarrow> (string \<times> sse_ev) option" where
  "frame_event etype data =
     (case (if data \<noteq> [] then unmarshal dec_sse_ev data sse_ev_zero else (sse_ev_zero, True)) of
        (_, False) \<Rightarrow> None
      | (ev, True) \<Rightarrow> Some (if data \<noteq> [] \<and> etype = [] then ev_type ev else etype, ev))"

lemma dispatch_event:
  assumes "ms_target s \<noteq> ToClaude"
  shows "dispatch etype data raw s =
    (case frame_event etype data of
       None \<Rightarrow> (False, Some (translation (''malformed SSE data JSON: '' @ redacted_snippet data)), s)
     | Some (t, ev) \<Rightarrow>
         (case ms_target s of
            ToOpenAI \<Rightarrow> dispatch_openai t ev s
          | ToResponses \<Rightarrow> dispatch_responses t ev s
          | ToOther f \<Rightarrow> (False, Some (unsupported_format f messages_path), s)
          | ToClaude \<Rightarrow> (False, None, s)))"
proof -
  obtain ev ok where u: "(if data \<noteq> [] then unmarshal dec_sse_ev data sse_ev_zero else (sse_ev_zero, True)) = (ev, ok)"
    by fastforce
  show ?thesis using assms unfolding dispatch_def frame_event_def u by (cases ok) (simp_all add: Let_def)
qed

section \<open>Invariants of a stream\<close>

text \<open>
  A predicate on states that every frame preserves, errors included, holds of all the events a
  client gets from a body: of some state of the run whose events are those of the body.
\<close>

locale frame_invariant =
  fixes holds :: "ms \<Rightarrow> bool"
  assumes step: "holds s \<Longrightarrow> frame_step fr s = (d, e, s') \<Longrightarrow> holds s'"
begin

lemma run: "holds s \<Longrightarrow> run_frames frs s = (d, e, s') \<Longrightarrow> holds s'"
  by (induction frs arbitrary: s) (auto split: prod.splits if_splits dest: step)

theorem body:
  assumes "feed_ms_body cs (new_ms source now) = (evs, d, e, s')" "holds (new_ms source now)"
  obtains r where "holds r" "ms_out r = evs"
  using that run [OF assms(2)] by (rule_tac new_body_run [OF assms(1)]) blast

end

text \<open>
  C14. Feeding is a run over frames: for every target and every way the network cuts a body into
  chunks, the events, the end flag and the error of the converter are those of handling, one by
  one, the frames of the whole body.
\<close>

theorem messages_feed_refines_frames:
  "(case feed_ms_body cs (new_ms source now) of (evs, d, e, _) \<Rightarrow> (d, e, evs))
   = (case run_frames (snd (feed_framer (new_framer (source = ''claude'')) (concat cs))) (new_ms source now) of
        (d, e, r) \<Rightarrow> (d, e, ms_out r))"
proof -
  obtain evs d e s' where f: "feed_ms_body cs (new_ms source now) = (evs, d, e, s')"
    by (cases "feed_ms_body cs (new_ms source now)")
  show ?thesis by (rule new_body_run [OF f]) (simp add: f)
qed

end
