(* ===== verification/Messages_Items.thy ===== *)
theory Messages_Items
  imports Messages_Contract
begin

text \<open>
  The Responses target of the Messages stream: the life of its output items. A monitor collects
  the announced items; the invariant ties it to the state of the converter; and when upstream
  starts its blocks in index order, the output of response.completed has the announced items at
  their announced positions.
\<close>

section \<open>Monitoring the items\<close>

definition is_message :: "out_item \<Rightarrow> bool" where
  "is_message x = (case x of MsgOpen _ \<Rightarrow> True | _ \<Rightarrow> False)"

definition opens_call :: "string \<Rightarrow> out_item \<Rightarrow> bool" where
  "opens_call i x = (case x of CallOpen j _ ns \<Rightarrow> i = j \<and> ns = [] | _ \<Rightarrow> False)"

text \<open>
  The monitor's state is the list of announced items. An item is announced at the next position,
  and only one is a message. Once there is a message a text delta goes to its position, whatever
  identity it carries; before, it may name any position, since the code then gives it the index of
  the upstream block. An argument delta goes to an announced call with its id.
\<close>

fun item_body :: "resp_body \<Rightarrow> out_item list \<Rightarrow> out_item list option" where
  "item_body (RItemAdded k x) L =
     (if k = int (length L) \<and> (is_message x \<longrightarrow> list_all (\<lambda>y. \<not> is_message y) L) then Some (L @ [x]) else None)"
| "item_body (RTextDelta _ k _) L =
     (if list_all (\<lambda>j. is_message (L ! j) \<longrightarrow> k = int j) [0..<length L] then Some L else None)"
| "item_body (RArgsDelta i k _) L =
     (if 0 \<le> k \<and> k < int (length L) \<and> opens_call i (L ! nat k) then Some L else None)"
| "item_body (RCreated _ _) L = Some L"
| "item_body (RCompleted _ _ _ _ _) L = Some L"
| "item_body _ L = None"

definition item_watch :: "event \<Rightarrow> out_item list \<Rightarrow> out_item list option" where
  "item_watch e L = (case e of EvResp (None, b) \<Rightarrow> item_body b L | _ \<Rightarrow> None)"

fun items_watch :: "event list \<Rightarrow> out_item list \<Rightarrow> out_item list option" where
  "items_watch [] L = Some L"
| "items_watch (e # es) L = Option.bind (item_watch e L) (items_watch es)"

lemma items_watch_append: "items_watch (xs @ ys) L = Option.bind (items_watch xs L) (items_watch ys)"
  by (induction xs arbitrary: L) (auto simp: Option.bind_assoc split: Option.bind_split)

section \<open>The invariant\<close>

definition message_at :: "ms \<Rightarrow> out_item list \<Rightarrow> bool" where
  "message_at s L = (\<forall>j < length L. is_message (L ! j) \<longleftrightarrow> ms_msg_idx s = int j)"

definition calls_at :: "(int \<times> blk) list \<Rightarrow> out_item list \<Rightarrow> bool" where
  "calls_at bs L = (\<forall>(i, b) \<in> set bs. b_kind b = ''tool_use'' \<longrightarrow>
     0 \<le> b_out_idx b \<and> b_out_idx b < int (length L) \<and> opens_call (b_id b) (L ! nat (b_out_idx b)))"

definition items_agree :: "out_item list \<Rightarrow> ms \<Rightarrow> bool" where
  "items_agree L s =
     (items_watch (ms_out s) [] = Some L \<and> ms_out_count s = int (length L) \<and> ms_msg_idx s < int (length L)
      \<and> message_at s L \<and> calls_at (ms_blocks s) L)"

lemma items_agree_view:
  assumes "items_agree L s" "ms_out s' = ms_out s" "ms_out_count s' = ms_out_count s"
    "ms_msg_idx s' = ms_msg_idx s" "ms_blocks s' = ms_blocks s"
  shows "items_agree L s'"
  using assms by (simp add: items_agree_def message_at_def)

lemma items_agree_remit:
  assumes "items_agree L s" "item_body b L = Some L"
  shows "items_agree L (ms_remit b s)"
  using assms
  by (simp add: items_agree_def message_at_def ms_remit_def ms_emit_def items_watch_append item_watch_def)

lemma set_update: "set (AList.update i b bs) \<subseteq> insert (i, b) (set bs)"
  by (induction bs) auto

lemma calls_at_put:
  assumes "calls_at bs L" "b_kind b = ''tool_use'' \<longrightarrow>
     0 \<le> b_out_idx b \<and> b_out_idx b < int (length L) \<and> opens_call (b_id b) (L ! nat (b_out_idx b))"
  shows "calls_at (AList.update i b bs) L"
  using assms set_update [of i b bs] by (fastforce simp: calls_at_def)

lemma calls_at_more: "calls_at bs L \<Longrightarrow> calls_at bs (L @ [x])"
  by (fastforce simp: calls_at_def nth_append)

lemma message_at_call:
  assumes "message_at s L" "ms_msg_idx s < int (length L)" "\<not> is_message x" "ms_msg_idx s' = ms_msg_idx s"
  shows "message_at s' (L @ [x])"
  using assms by (auto simp: message_at_def nth_append less_Suc_eq)

lemma message_at_message:
  assumes "message_at s L" "ms_msg_idx s < 0" "is_message x" "ms_msg_idx s' = int (length L)"
  shows "message_at s' (L @ [x])"
proof -
  have "\<not> is_message (L ! j)" if "j < length L" for j using assms(1,2) that by (auto simp: message_at_def)
  then show ?thesis using assms(3,4) by (auto simp: message_at_def nth_append less_Suc_eq)
qed

lemma items_agree_put:
  assumes "items_agree L s" "b_kind b = ''tool_use'' \<longrightarrow>
     0 \<le> b_out_idx b \<and> b_out_idx b < int (length L) \<and> opens_call (b_id b) (L ! nat (b_out_idx b))"
  shows "items_agree L (put_blk i b s)"
  using assms calls_at_put by (simp add: items_agree_def put_blk_def message_at_def)

lemma items_agree_block:
  assumes "items_agree L s"
  shows "\<exists>L'. items_agree L' (responses_block ev s)"
proof -
  let ?b = "new_blk (ev_block ev)" and ?i = "trunc (ev_index ev)"
  consider (msg) "b_kind ?b = ''text''" | (tool) "b_kind ?b = ''tool_use''" | (other) "b_kind ?b \<noteq> ''text'' \<and> b_kind ?b \<noteq> ''tool_use''"
    by blast
  then show ?thesis
  proof cases
    case msg
    have p: "items_agree L (put_blk ?i ?b s)" using items_agree_put [OF assms] msg by simp
    show ?thesis
    proof (cases "0 \<le> ms_msg_idx (put_blk ?i ?b s)")
      case True
      then show ?thesis using p msg by (auto simp: responses_block_def Let_def)
    next
      case False
      have "list_all (\<lambda>y. \<not> is_message y) L"
        using p False by (auto simp: items_agree_def message_at_def list_all_length)
      moreover have "message_at (s'\<lparr>ms_msg_idx := int (length L)\<rparr>) (L @ [MsgOpen t])" for s' t
        using message_at_message [of "put_blk ?i ?b s" L] p False by (simp add: items_agree_def is_message_def)
      ultimately have "items_agree (L @ [MsgOpen (ms_id s)]) (responses_block ev s)"
        using p msg False calls_at_more
        by (auto simp: items_agree_def responses_block_def Let_def ms_remit_def ms_emit_def put_blk_def
            items_watch_append item_watch_def message_at_def)
      then show ?thesis by blast
    qed
  next
    case tool
    let ?x = "CallOpen (b_id ?b) (b_name ?b) []"
    have "message_at s' (L @ [?x])" if "ms_msg_idx s' = ms_msg_idx s" for s'
      using message_at_call [of s L ?x s'] assms that by (simp add: items_agree_def is_message_def)
    moreover have "calls_at (AList.update ?i (?b\<lparr>b_out_idx := int (length L)\<rparr>) (AList.update ?i ?b (ms_blocks s))) (L @ [?x])"
    proof -
      have "calls_at (ms_blocks s) (L @ [?x])" using assms calls_at_more by (simp add: items_agree_def)
      then have "calls_at (AList.update ?i (?b\<lparr>b_out_idx := int (length L)\<rparr>) (ms_blocks s)) (L @ [?x])"
        by (rule calls_at_put) (simp add: opens_call_def nth_append)
      moreover have "AList.update ?i c (AList.update ?i d bs) = AList.update ?i c bs" for c d :: blk and bs
        by (induction bs) auto
      ultimately show ?thesis by simp
    qed
    ultimately have "items_agree (L @ [?x]) (responses_block ev s)"
      using assms tool
      by (auto simp: items_agree_def responses_block_def Let_def ms_remit_def ms_emit_def put_blk_def
          items_watch_append item_watch_def is_message_def)
    then show ?thesis by blast
  next
    case other
    then have "items_agree L (responses_block ev s)"
      using items_agree_put [OF assms] by (simp add: responses_block_def Let_def)
    then show ?thesis by blast
  qed
qed

lemma items_agree_call:
  assumes "items_agree L s" "map_of (ms_blocks s) i = Some t" "b_kind t = ''tool_use''"
  shows "0 \<le> b_out_idx t \<and> b_out_idx t < int (length L) \<and> opens_call (b_id t) (L ! nat (b_out_idx t))"
  using assms(1,3) map_of_SomeD [OF assms(2)] by (auto simp: items_agree_def calls_at_def)

lemma items_agree_delta:
  assumes "items_agree L s"
  shows "items_agree L (snd (responses_delta ev s))"
proof -
  let ?i = "trunc (ev_index ev)"
  have put: "items_agree L (put_blk ?i (t\<lparr>b_text := x\<rparr>) s)" "items_agree L (put_blk ?i (t\<lparr>b_args := x\<rparr>) s)"
    if "map_of (ms_blocks s) ?i = Some t" for t x
    by (rule items_agree_put [OF assms]; use items_agree_call [OF assms that] in simp)+
  have msg: "items_agree L (ms_remit (RTextDelta m (if 0 \<le> ms_msg_idx u then ms_msg_idx u else k) x) u)"
    if "items_agree L u" for u m k x
  proof (rule items_agree_remit [OF that])
    show "item_body (RTextDelta m (if 0 \<le> ms_msg_idx u then ms_msg_idx u else k) x) L = Some L"
      using that by (auto simp: items_agree_def message_at_def list_all_length)
  qed
  have call: "items_agree L (ms_remit (RArgsDelta (b_id t) (b_out_idx t) x) (put_blk ?i (t\<lparr>b_args := y\<rparr>) s))"
    if "map_of (ms_blocks s) ?i = Some t" "b_kind t = ''tool_use''" for t x y
    using items_agree_remit [OF put(2) [OF that(1)]] items_agree_call [OF assms that] by simp
  show ?thesis
    using assms put(1) msg call
    by (auto simp: responses_delta_def Let_def split: option.split)
qed

lemma items_agree_capture [simp]: "items_agree L (capture_cache u s) = items_agree L s"
  by (auto simp: capture_cache_def items_agree_def message_at_def Let_def split: option.split)

lemma items_agree_begin: "items_agree L (ms_begin ev s) = items_agree L s"
  by (simp add: ms_begin_def) (simp add: items_agree_def message_at_def)

lemma items_agree_count: "items_agree L (ms_count ev s) = items_agree L s"
  by (simp add: ms_count_def) (simp add: items_agree_def message_at_def)

lemma items_agree_dispatch:
  assumes "items_agree L s" "dispatch_responses etype ev s = (d, e, s')"
  shows "\<exists>L'. items_agree L' s' \<and> (etype \<noteq> ''content_block_start'' \<longrightarrow> L' = L)"
proof -
  have created: "items_agree L (ms_remit (RCreated i m) (ms_begin ev s))" for i m
    using assms(1) by (intro items_agree_remit) (simp_all add: items_agree_begin)
  have completed: "items_agree L (ms_remit (responses_completed s) s)"
    using assms(1) by (intro items_agree_remit) (simp_all add: responses_completed_def)
  have counted: "items_agree L ((ms_count ev s)\<lparr>ms_stop := x\<rparr>)" for x
    using assms(1) items_agree_count items_agree_view [of L "ms_count ev s" "(ms_count ev s)\<lparr>ms_stop := x\<rparr>"] by simp
  have "items_agree L (snd (responses_delta ev s))" by (rule items_agree_delta [OF assms(1)])
  then have delta: "items_agree L u" if "responses_delta ev s = (x, u)" for x u using that by simp
  show ?thesis
    using assms(2) created completed counted delta items_agree_block [OF assms(1), of ev] assms(1)
    by (auto simp: dispatch_responses_def Let_def split: if_splits)
qed

lemma dispatch_to_responses:
  assumes "ms_target s = ToResponses"
  shows "dispatch etype data raw s =
    (case frame_event etype data of
       None \<Rightarrow> (False, Some (translation (''malformed SSE data JSON: '' @ redacted_snippet data)), s)
     | Some (t, ev) \<Rightarrow> dispatch_responses t ev s)"
  using dispatch_event [of s etype data raw] assms by (auto split: option.split)

lemma items_agree_observe: "items_agree L (observe_frame etype data s) = items_agree L s"
  by (auto simp: observe_frame_def ms_progress_def Let_def items_agree_def message_at_def)

lemma items_agree_step:
  assumes "items_agree L s" "ms_target s = ToResponses" "frame_step fr s = (d, e, s')"
  shows "ms_target s' = ToResponses \<and> (\<exists>L'. items_agree L' s')"
proof -
  obtain etype data raw where fr: "fr = (etype, data, raw)" by (cases fr)
  obtain d1 e1 s1 where dp: "dispatch etype data raw s = (d1, e1, s1)" by (cases "dispatch etype data raw s")
  have "\<exists>L'. items_agree L' s1"
    using dp assms(1) unfolding dispatch_to_responses [OF assms(2)]
    by (auto split: option.splits dest: items_agree_dispatch [OF assms(1)])
  then obtain L' where "items_agree L' s1" "items_agree L' (s1\<lparr>ms_emitted := True\<rparr>)"
    using items_agree_view by fastforce
  then show ?thesis using assms(2,3) dp dispatch_keeps [OF dp]
    by (auto simp: fr frame_step_def Let_def items_agree_observe observe_keeps split: if_splits)
qed

interpretation items: frame_invariant "\<lambda>s. ms_target s = ToResponses \<and> (\<exists>L. items_agree L s)"
  by unfold_locales (metis items_agree_step)

lemma items_agree_new: "ms_target (new_ms ''openai-response'' now) = ToResponses \<and> items_agree [] (new_ms ''openai-response'' now)"
  by (simp add: new_ms_def target_of_def items_agree_def message_at_def calls_at_def)

section \<open>Positions\<close>

text \<open>What stands at a position: the one message, or a call with its id and name.\<close>

definition slot :: "out_item \<Rightarrow> (string \<times> string) option" where
  "slot x = (case x of CallOpen i n _ \<Rightarrow> Some (i, n) | CallItem i n _ _ _ \<Rightarrow> Some (i, n) | _ \<Rightarrow> None)"

fun slots_of :: "bool \<Rightarrow> blk list \<Rightarrow> (string \<times> string) option list" where
  "slots_of seen [] = []"
| "slots_of seen (b # bs) =
     (if b_kind b = ''text'' then (if seen then slots_of seen bs else None # slots_of True bs)
      else if b_kind b = ''tool_use'' then Some (b_id b, b_name b) # slots_of seen bs
      else slots_of seen bs)"

definition has_text :: "blk list \<Rightarrow> bool" where
  "has_text bs = list_ex (\<lambda>b. b_kind b = ''text'') bs"

lemma slots_of_snoc:
  "slots_of seen (bs @ [b]) = slots_of seen bs @
     (if b_kind b = ''text'' then (if seen \<or> has_text bs then [] else [None])
      else if b_kind b = ''tool_use'' then [Some (b_id b, b_name b)] else [])"
  by (induction bs arbitrary: seen) (auto simp: has_text_def)

text \<open>The assembler renders the slots of its blocks.\<close>

definition assembled_slots :: "assembler \<Rightarrow> (string \<times> string) option list" where
  "assembled_slots a = map (\<lambda>x. case x of None \<Rightarrow> None | Some y \<Rightarrow> slot y) (oa_items a)"

definition well_slotted :: "assembler \<Rightarrow> bool" where
  "well_slotted a =
     ((case oa_slot a of
         None \<Rightarrow> oa_text a = [] \<and> None \<notin> set (oa_items a)
       | Some k \<Rightarrow> k < length (oa_items a) \<and> (\<forall>j < length (oa_items a). oa_items a ! j = None \<longleftrightarrow> j = k)))"

lemma slots_all: "None \<notin> set xs \<Longrightarrow>
    map slot (List.map_filter id xs) = map (\<lambda>x. case x of None \<Rightarrow> None | Some y \<Rightarrow> slot y) xs"
proof (induction xs)
  case (Cons x xs)
  then show ?case by (cases x) (auto simp: map_filter_simps)
qed simp

lemma assembled_of_slots:
  assumes "well_slotted a"
  shows "map slot (List.map_filter id (assembled a)) = assembled_slots a"
proof (cases "oa_slot a")
  case None
  then have "None \<notin> set (oa_items a)" using assms by (simp add: well_slotted_def)
  then show ?thesis using assms None slots_all [of "oa_items a"] by (simp add: assembled_def well_slotted_def assembled_slots_def)
next
  case (Some k)
  let ?m = "Some (MsgPlain (oa_message_id a) (oa_status a) (oa_text a))"
  have "None \<notin> set ((oa_items a)[k := ?m])"
    using assms Some by (auto simp: well_slotted_def in_set_conv_nth nth_list_update)
  then have "map slot (List.map_filter id (assembled a)) = map (\<lambda>x. case x of None \<Rightarrow> None | Some y \<Rightarrow> slot y) ((oa_items a)[k := ?m])"
    using slots_all Some by (simp add: assembled_def)
  also have "\<dots> = assembled_slots a"
    using assms Some by (auto simp: assembled_slots_def well_slotted_def slot_def intro!: nth_equalityI simp: nth_list_update)
  finally show ?thesis .
qed

lemma assemble_blk_slots:
  assumes "well_slotted a"
  shows "well_slotted (assemble_blk b a) \<and>
    assembled_slots (assemble_blk b a) = assembled_slots a @ slots_of (oa_slot a \<noteq> None) [b] \<and>
    (oa_slot (assemble_blk b a) \<noteq> None \<longleftrightarrow> oa_slot a \<noteq> None \<or> b_kind b = ''text'')"
  using assms
  by (cases "oa_slot a")
    (auto simp: assemble_blk_def add_text_def reserve_text_slot_def append_function_call_def append_item_def
      well_slotted_def assembled_slots_def slot_def nth_append less_Suc_eq in_set_conv_nth)

lemma assemble_slots:
  "well_slotted a \<Longrightarrow> well_slotted (fold assemble_blk bs a) \<and>
     assembled_slots (fold assemble_blk bs a) = assembled_slots a @ slots_of (oa_slot a \<noteq> None) bs"
proof (induction bs arbitrary: a)
  case (Cons b bs)
  note b = assemble_blk_slots [OF Cons.prems, of b]
  then show ?case using Cons.IH [of "assemble_blk b a"] by auto
qed simp

lemma output_slots: "map slot (ms_output_items s) = slots_of False (map snd (sort_key fst (ms_blocks s)))"
proof -
  have n: "well_slotted (new_assembler i)" "assembled_slots (new_assembler i) = []" "oa_slot (new_assembler i) = None" for i
    by (simp_all add: well_slotted_def new_assembler_def assembled_slots_def)
  show ?thesis
    unfolding ms_output_items_def
    by (subst assembled_of_slots) (use assemble_slots [OF n(1)] n(2,3) in auto)
qed

text \<open>While blocks start in index order, the announced items are the slots of the blocks.\<close>

definition placed :: "out_item list \<Rightarrow> ms \<Rightarrow> bool" where
  "placed L s =
     (sorted_wrt (<) (map fst (ms_blocks s)) \<and> map slot L = slots_of False (map snd (ms_blocks s))
      \<and> (has_text (map snd (ms_blocks s)) \<longleftrightarrow> 0 \<le> ms_msg_idx s))"

lemma placed_view:
  "placed L s \<Longrightarrow> ms_blocks s' = ms_blocks s \<Longrightarrow> ms_msg_idx s' = ms_msg_idx s \<Longrightarrow> placed L s'"
  by (simp add: placed_def)

lemma update_fresh: "i \<notin> fst ` set bs \<Longrightarrow> AList.update i b bs = bs @ [(i, b)]"
  by (induction bs) auto

lemma update_twice: "AList.update i c (AList.update i d bs) = AList.update i c bs"
  by (induction bs) auto

lemma update_same:
  assumes "map_of bs i = Some t" "b_kind t' = b_kind t" "b_id t' = b_id t" "b_name t' = b_name t"
  shows "map fst (AList.update i t' bs) = map fst bs"
    "slots_of seen (map snd (AList.update i t' bs)) = slots_of seen (map snd bs)"
    "has_text (map snd (AList.update i t' bs)) = has_text (map snd bs)"
  using assms by (induction bs arbitrary: seen) (auto simp: has_text_def split: if_splits)

lemma placed_sorted:
  assumes "placed L s"
  shows "map slot (ms_output_items s) = map slot L"
proof -
  have "sort_key fst (ms_blocks s) = ms_blocks s"
    using assms by (intro sort_key_id_if_sorted strict_sorted_imp_sorted) (simp add: placed_def)
  then show ?thesis using assms by (simp add: output_slots placed_def)
qed

lemma placed_block:
  assumes "items_agree L s" "placed L s" "items_agree L' (responses_block ev s)"
    "\<forall>k \<in> fst ` set (ms_blocks s). k < trunc (ev_index ev)"
  shows "placed L' (responses_block ev s)"
proof -
  let ?b = "new_blk (ev_block ev)" and ?i = "trunc (ev_index ev)"
  have up: "AList.update ?i b (ms_blocks s) = ms_blocks s @ [(?i, b)]" for b
    using assms(4) by (intro update_fresh) auto
  have up2: "AList.update ?i c (ms_blocks s @ [(?i, b)]) = ms_blocks s @ [(?i, c)]" for b c
    using update_twice [of ?i c b "ms_blocks s"] unfolding up .
  have srt: "sorted_wrt (<) (map fst (ms_blocks s) @ [?i])"
    using assms(2,4) by (auto simp: placed_def sorted_wrt_append)
  have w: "items_watch (ms_out s) [] = Some L" using assms(1) by (simp add: items_agree_def)
  have w': "items_watch (ms_out (responses_block ev s)) [] = Some L'" using assms(3) by (simp add: items_agree_def)
  have snoc: "slots_of False (map snd (ms_blocks s) @ [b]) = map slot L @
     (if b_kind b = ''text'' then (if 0 \<le> ms_msg_idx s then [] else [None])
      else if b_kind b = ''tool_use'' then [Some (b_id b, b_name b)] else [])"
    "has_text (map snd (ms_blocks s) @ [b]) = (0 \<le> ms_msg_idx s \<or> b_kind b = ''text'')" for b
    using assms(2) by (auto simp: placed_def slots_of_snoc has_text_def)
  show ?thesis
    using w' w srt assms(1)
    by (auto simp: responses_block_def Let_def ms_remit_def ms_emit_def put_blk_def up up2 placed_def snoc
        items_watch_append item_watch_def slot_def items_agree_def split: if_splits)
qed

lemma placed_delta:
  assumes "placed L s"
  shows "placed L (snd (responses_delta ev s))"
proof -
  have "placed L (put_blk i (t\<lparr>b_text := x\<rparr>) s)" "placed L (put_blk i (t\<lparr>b_args := x\<rparr>) s)"
    if "map_of (ms_blocks s) i = Some t" for i t x
    using assms update_same [OF that, of "t\<lparr>b_text := x\<rparr>"] update_same [OF that, of "t\<lparr>b_args := x\<rparr>"]
    by (simp_all add: placed_def put_blk_def)
  moreover have "placed L (ms_remit b u) = placed L u" for b u
    by (simp add: placed_def ms_remit_def ms_emit_def)
  ultimately show ?thesis using assms by (auto simp: responses_delta_def Let_def split: option.split)
qed

definition starts_block :: "frame \<Rightarrow> int option" where
  "starts_block fr =
     (case fr of (etype, data, _) \<Rightarrow>
        (case frame_event etype data of
           Some (t, ev) \<Rightarrow> if t = ''content_block_start'' then Some (trunc (ev_index ev)) else None
         | None \<Rightarrow> None))"

lemma keys_capture [simp]: "ms_blocks (capture_cache u s) = ms_blocks s" "ms_msg_idx (capture_cache u s) = ms_msg_idx s"
  by (simp_all add: capture_cache_def Let_def split: option.split)

lemma placed_dispatch:
  assumes "placed L s" "dispatch_responses etype ev s = (d, e, s')" "etype \<noteq> ''content_block_start''"
  shows "placed L s' \<and> fst ` set (ms_blocks s') = fst ` set (ms_blocks s)"
proof -
  have "placed L (snd (responses_delta ev s))" by (rule placed_delta [OF assms(1)])
  moreover have "fst ` set (ms_blocks (snd (responses_delta ev s))) = fst ` set (ms_blocks s)"
    by (auto simp: responses_delta_def Let_def ms_remit_def ms_emit_def put_blk_def dom_map_of_conv_image_fst [symmetric]
        update_conv' split: option.split)
  ultimately show ?thesis using assms
    by (auto simp: dispatch_responses_def Let_def ms_remit_def ms_emit_def ms_begin_def ms_count_def placed_def split: if_splits)
qed

definition ended :: "bool \<Rightarrow> ms \<Rightarrow> bool" where
  "ended d s = (d \<longrightarrow> (\<exists>evs. ms_out s = evs @ [EvResp (None, responses_completed s)]))"

lemma completed_view:
  assumes "ms_blocks s' = ms_blocks s" "ms_id s' = ms_id s" "ms_model s' = ms_model s" "ms_stop s' = ms_stop s"
    "ms_prompt s' = ms_prompt s" "ms_completion s' = ms_completion s" "ms_cache_read s' = ms_cache_read s"
    "ms_cache_creation s' = ms_cache_creation s"
  shows "responses_completed s' = responses_completed s"
  using assms by (simp add: responses_completed_def ms_input_total_def ms_output_items_def)

lemma completed_out: "responses_completed (s\<lparr>ms_out := evs\<rparr>) = responses_completed s"
  "responses_completed (s\<lparr>ms_emitted := b\<rparr>) = responses_completed s"
  by (rule completed_view; simp)+

lemma completed_observe: "responses_completed (observe_frame etype data s) = responses_completed s"
  by (rule completed_view) (simp_all add: observe_frame_def ms_progress_def Let_def)

lemma ended_dispatch: "dispatch_responses etype ev s = (d, e, s') \<Longrightarrow> ended d s'"
  by (auto simp: dispatch_responses_def Let_def ended_def ms_remit_def ms_emit_def completed_out split: if_splits)

lemma placed_started:
  assumes "items_agree L s" "placed L s" "ms_target s = ToResponses" "dispatch etype data raw s = (d, e, s')"
    "\<And>i k. starts_block (etype, data, raw) = Some i \<Longrightarrow> k \<in> fst ` set (ms_blocks s) \<Longrightarrow> k < i"
  shows "\<exists>L'. items_agree L' s' \<and> placed L' s' \<and> ended d s' \<and>
    fst ` set (ms_blocks s') \<subseteq> fst ` set (ms_blocks s) \<union> set_option (starts_block (etype, data, raw))"
proof (cases "frame_event etype data")
  case None
  then show ?thesis using assms(1,2,4) by (auto simp: dispatch_to_responses [OF assms(3)] ended_def)
next
  case (Some te)
  obtain t ev where te: "te = (t, ev)" by (cases te)
  have dp: "dispatch_responses t ev s = (d, e, s')"
    using assms(4) Some te by (simp add: dispatch_to_responses [OF assms(3)])
  obtain L' where L': "items_agree L' s'" "t \<noteq> ''content_block_start'' \<longrightarrow> L' = L" using items_agree_dispatch [OF assms(1) dp] by blast
  show ?thesis
  proof (cases "t = ''content_block_start''")
    case True
    then have s': "s' = responses_block ev s" "\<not> d" using dp by (auto simp: dispatch_responses_def)
    have st: "starts_block (etype, data, raw) = Some (trunc (ev_index ev))"
      using True Some te by (simp add: starts_block_def)
    then have "\<forall>k \<in> fst ` set (ms_blocks s). k < trunc (ev_index ev)" using assms(5) by blast
    then have "placed L' s'" using placed_block [OF assms(1,2) _, of L' ev] L'(1) s'(1) by blast
    moreover have "fst ` set (ms_blocks s') \<subseteq> insert (trunc (ev_index ev)) (fst ` set (ms_blocks s))"
      unfolding s'(1) by (auto simp: responses_block_def Let_def ms_remit_def ms_emit_def put_blk_def
          dom_map_of_conv_image_fst [symmetric] update_conv')
    ultimately show ?thesis using L'(1) s'(2) st by (auto simp: ended_def)
  next
    case False
    have "placed L s' \<and> fst ` set (ms_blocks s') = fst ` set (ms_blocks s)"
      by (rule placed_dispatch [OF assms(2) dp False])
    moreover have "L' = L" using L'(2) False by blast
    ultimately show ?thesis using L'(1) ended_dispatch [OF dp] by auto
  qed
qed

lemma placed_upd [simp]:
  "placed L (s\<lparr>ms_emitted := b\<rparr>) = placed L s" "placed L (observe_frame etype data s) = placed L s"
  "items_agree L (s\<lparr>ms_emitted := b\<rparr>) = items_agree L s"
  "ended d (s\<lparr>ms_emitted := b\<rparr>) = ended d s" "ended d (observe_frame etype data s) = ended d s"
  "ms_blocks (observe_frame etype data s) = ms_blocks s"
  using completed_observe [of etype data s]
  by (auto simp: placed_def items_agree_def message_at_def ended_def completed_out observe_frame_def ms_progress_def Let_def)

lemma placed_step:
  assumes "items_agree L s" "placed L s" "ms_target s = ToResponses" "frame_step fr s = (d, e, s')"
    "\<And>i k. starts_block fr = Some i \<Longrightarrow> k \<in> fst ` set (ms_blocks s) \<Longrightarrow> k < i"
  shows "\<exists>L'. items_agree L' s' \<and> placed L' s' \<and> ended d s' \<and> ms_target s' = ToResponses \<and>
    fst ` set (ms_blocks s') \<subseteq> fst ` set (ms_blocks s) \<union> set_option (starts_block fr)"
proof -
  obtain etype data raw where fr: "fr = (etype, data, raw)" by (cases fr)
  obtain d1 e1 s1 where dp: "dispatch etype data raw s = (d1, e1, s1)" by (cases "dispatch etype data raw s")
  obtain L' where "items_agree L' s1" "placed L' s1" "ended d1 s1"
      "fst ` set (ms_blocks s1) \<subseteq> fst ` set (ms_blocks s) \<union> set_option (starts_block fr)"
    using placed_started [OF assms(1-3) dp] assms(5) unfolding fr by blast
  moreover have "ended False s'" by (simp add: ended_def)
  moreover have "ms_target s' = ToResponses" using items_agree_step [OF assms(1,3,4)] by blast
  moreover define s2 where "s2 = (if ms_out s1 \<noteq> [] then s1\<lparr>ms_emitted := True\<rparr> else s1)"
  moreover have "(d = False \<and> s' = s2) \<or> (d = d1 \<and> s' = observe_frame etype data s2)"
    using assms(4) dp unfolding fr frame_step_def s2_def by (auto simp: Let_def split: if_splits)
  ultimately show ?thesis by (auto simp: items_agree_observe)
qed

lemma placed_run:
  assumes "run_frames frs s = (d, e, s')" "items_agree L s" "placed L s" "ms_target s = ToResponses"
    "sorted_wrt (<) (List.map_filter starts_block frs)"
    "\<And>i k. i \<in> set (List.map_filter starts_block frs) \<Longrightarrow> k \<in> fst ` set (ms_blocks s) \<Longrightarrow> k < i"
  shows "\<exists>L'. items_agree L' s' \<and> placed L' s' \<and> ended d s'"
  using assms
proof (induction frs arbitrary: s L)
  case Nil
  then show ?case by (auto simp: ended_def)
next
  case (Cons fr frs)
  obtain d1 e1 s1 where st: "frame_step fr s = (d1, e1, s1)" by (cases "frame_step fr s")
  have "k < i" if "starts_block fr = Some i" "k \<in> fst ` set (ms_blocks s)" for i k
    using Cons.prems(6) that by (auto simp: map_filter_simps)
  then obtain L1 where L1: "items_agree L1 s1" "placed L1 s1" "ended d1 s1" "ms_target s1 = ToResponses"
      "fst ` set (ms_blocks s1) \<subseteq> fst ` set (ms_blocks s) \<union> set_option (starts_block fr)"
    using placed_step [OF Cons.prems(2-4) st] by blast
  show ?case
  proof (cases "d1 \<or> e1 \<noteq> None")
    case True
    then show ?thesis using Cons.prems(1) st L1 by auto
  next
    case False
    then have "run_frames frs s1 = (d, e, s')" using Cons.prems(1) st by auto
    moreover have "sorted_wrt (<) (List.map_filter starts_block frs)"
      using Cons.prems(5) by (auto simp: map_filter_simps split: option.splits)
    moreover have "k < i" if "i \<in> set (List.map_filter starts_block frs)" "k \<in> fst ` set (ms_blocks s1)" for i k
    proof (cases "k \<in> fst ` set (ms_blocks s)")
      case True
      then show ?thesis using Cons.prems(6) that(1) by (auto simp: map_filter_simps split: option.splits)
    next
      case False
      then have "starts_block fr = Some k" using that(2) L1(5) by (auto)
      then show ?thesis using Cons.prems(5) that(1) by (auto simp: map_filter_simps)
    qed
    ultimately show ?thesis using Cons.IH L1 by blast
  qed
qed

text \<open>
  Whatever bytes an upstream Messages stream has and however they are cut, the Responses events
  announce the output items at the positions 0, 1, 2 and so on, at most one of them a message; once
  the message is announced every text delta goes to its position (before, text may go to any
  position), and every argument delta goes to a position where a call with the id it names has been
  announced. This holds for streams that end with an error too.
\<close>

theorem messages_items_announced:
  "\<exists>L. items_watch (fst (feed_ms_body cs (new_ms ''openai-response'' now))) [] = Some L"
proof -
  obtain evs d e s' where f: "feed_ms_body cs (new_ms ''openai-response'' now) = (evs, d, e, s')"
    by (cases "feed_ms_body cs (new_ms ''openai-response'' now)")
  show ?thesis
    by (rule items.body [OF f]) (use items_agree_new in \<open>auto simp: f items_agree_def\<close>)
qed

text \<open>
  C15. When upstream starts its content blocks in increasing index order, the output of the terminal
  response.completed is what the stream announced: the same number of items, the message and every
  call at its announced position. When the body ends with message_stop its last event is that
  terminal; otherwise it is the one Flush would send.
\<close>

theorem messages_output_positions:
  assumes "feed_ms_body cs (new_ms ''openai-response'' now) = (evs, d, e, s')"
    "sorted_wrt (<) (List.map_filter starts_block (snd (feed_framer (new_framer False) (concat cs))))"
  shows "\<exists>L. items_watch evs [] = Some L \<and> map slot (ms_output_items s') = map slot L
    \<and> (d \<longrightarrow> last evs = EvResp (None, responses_completed s'))"
proof -
  let ?s = "new_ms ''openai-response'' now"
  obtain r where r: "run_frames (snd (feed_framer (new_framer False) (concat cs))) ?s = (d, e, r)"
      "ms_out r = evs" "r = pre evs (ms_framer r) s'"
    using new_body_run [OF assms(1)] by auto
  have "placed [] ?s" "ms_blocks ?s = []" by (simp_all add: new_ms_def placed_def has_text_def)
  then obtain L where L: "items_agree L r" "placed L r" "ended d r"
    using placed_run [OF r(1) _ _ _ assms(2)] items_agree_new by fastforce
  have "ms_output_items r = ms_output_items s'" "responses_completed r = responses_completed s'"
    using arg_cong [OF r(3), of ms_output_items] arg_cong [OF r(3), of responses_completed]
    by (simp_all add: pre_completed ms_output_items_def)
  then show ?thesis using L r(2) placed_sorted [OF L(2)] by (auto simp: items_agree_def ended_def)
qed

definition messages_sample :: "(string \<times> gv) list" where
  "messages_sample =
     [(''content_block_start'', GMap [(''index'', GInt 0), (''content_block'', GMap [(''type'', GStr ''text'')])]),
      (''content_block_start'', GMap [(''index'', GInt 1), (''content_block'',
         GMap [(''type'', GStr ''tool_use''), (''id'', GStr ''a''), (''name'', GStr ''f'')])]),
      (''message_stop'', GMap [])]"

lemma messages_sample_ok:
  "sorted_wrt (<) (List.map_filter starts_block (snd (feed_framer (new_framer False) (render_events messages_sample))))"
proof -
  have "list_all (\<lambda>(n, v). plain_name n \<and> wf_gv v) messages_sample"
    by (simp add: messages_sample_def plain_name_def ascii_space_def byte_def)
  then have f: "snd (feed_framer (new_framer False) (render_events messages_sample))
      = map (\<lambda>(n, v). (n, marshal v, [])) messages_sample"
    using feed_events [of "new_framer False" messages_sample] by (simp add: new_framer_def idle_def list_all_iff)
  show ?thesis unfolding f by code_simp
qed

lemma messages_output_positions_witness:
  "case feed_ms_body (map (\<lambda>(n, v). sse_event n v) messages_sample) (new_ms ''openai-response'' 0) of
     (evs, d, e, s) \<Rightarrow> \<exists>L. items_watch evs [] = Some L \<and> map slot (ms_output_items s) = map slot L"
proof -
  obtain evs d e s where
      r: "feed_ms_body (map (\<lambda>(n, v). sse_event n v) messages_sample) (new_ms ''openai-response'' 0) = (evs, d, e, s)"
    by (rule prod_cases4)
  show ?thesis using messages_output_positions [OF r] messages_sample_ok
    unfolding r prod.case render_events_def by blast
qed

text \<open>
  When upstream starts its blocks out of index order the announced positions and those of the
  terminal output differ: here the call announced at position 0 is the second of the output.
\<close>

theorem out_of_order_blocks_move:
  "let ev = (\<lambda>k i. sse_ev_zero\<lparr>ev_index := k, ev_block := \<lparr>bk_type = ''tool_use'', bk_id = i, bk_name = ''f''\<rparr>\<rparr>);
       s = responses_block (ev 0 ''b'') (responses_block (ev 1 ''a'') (new_ms ''openai-response'' 0))
   in ms_out s = [EvResp (None, RItemAdded 0 (CallOpen ''a'' ''f'' [])), EvResp (None, RItemAdded 1 (CallOpen ''b'' ''f'' []))]
     \<and> map slot (ms_output_items s) = [Some (''b'', ''f''), Some (''a'', ''f'')]"
  by code_simp

text \<open>
  A text delta that comes before any text block was started is sent to the index of its upstream
  block, which may be the position of an announced call.
\<close>

theorem text_without_message:
  assumes "ms_msg_idx s < 0" "dl_type (ev_delta ev) = ''text_delta''" "ms_out s = []"
  shows "ms_out (snd (snd (dispatch_responses ''content_block_delta'' ev s)))
    = [EvResp (None, RTextDelta (ms_id s) (trunc (ev_index ev)) (dl_text (ev_delta ev)))]"
  using assms
  by (simp add: dispatch_responses_def responses_delta_def ms_remit_def ms_emit_def put_blk_def Let_def split: option.split)

end
