(* ===== verification/Messages_Chat.thy ===== *)
theory Messages_Chat
  imports Messages_Contract
begin

text \<open>
  The Chat Completions target of the Messages stream: a monitor of its chunks, the invariant that
  ties it to the state, and what becomes of streams whose frames carry no event line.
\<close>

section \<open>Monitoring the chunks\<close>

text \<open>The monitor knows whether the role chunk was sent and which tool calls are open.\<close>

record chat_monitor =
  cm_role :: bool
  cm_tools :: "int list"

fun chunk_step :: "chat_delta \<Rightarrow> chat_monitor \<Rightarrow> chat_monitor option" where
  "chunk_step ChatRole m = (if cm_role m then None else Some (m\<lparr>cm_role := True\<rparr>))"
| "chunk_step (ChatContent _) m = (if cm_role m then Some m else None)"
| "chunk_step (ChatToolOpen k _ _ _) m =
     (if cm_role m \<and> k \<notin> set (cm_tools m) then Some (m\<lparr>cm_tools := cm_tools m @ [k]\<rparr>) else None)"
| "chunk_step (ChatToolArgs k _) m = (if cm_role m \<and> k \<in> set (cm_tools m) then Some m else None)"
| "chunk_step ChatEmpty m = Some m"

definition chat_watch :: "event \<Rightarrow> chat_monitor \<Rightarrow> chat_monitor option" where
  "chat_watch e m = (case e of EvChat _ (ChatChunk d _ _) \<Rightarrow> chunk_step d m | _ \<Rightarrow> None)"

fun chats_watch :: "event list \<Rightarrow> chat_monitor \<Rightarrow> chat_monitor option" where
  "chats_watch [] m = Some m"
| "chats_watch (e # es) m = Option.bind (chat_watch e m) (chats_watch es)"

lemma chats_watch_append: "chats_watch (xs @ ys) m = Option.bind (chats_watch xs m) (chats_watch ys)"
  by (induction xs arbitrary: m) (auto simp: Option.bind_assoc split: Option.bind_split)

definition chat_start :: chat_monitor where
  "chat_start = \<lparr>cm_role = False, cm_tools = []\<rparr>"

section \<open>The invariant\<close>

text \<open>Tool blocks have distinct ordinals below the counter; those that were sent are open.\<close>

definition ordinals_ok :: "int set \<Rightarrow> int \<Rightarrow> (int \<rightharpoonup> blk) \<Rightarrow> bool" where
  "ordinals_ok opened n f =
     (0 \<le> n \<and> (\<forall>k \<in> opened. k < n)
      \<and> (\<forall>i b. f i = Some b \<and> b_kind b = ''tool_use'' \<longrightarrow> b_ordinal b < n \<and> (b_emitted b \<longleftrightarrow> b_ordinal b \<in> opened))
      \<and> (\<forall>i j b c. f i = Some b \<and> f j = Some c \<and> b_kind b = ''tool_use'' \<and> b_kind c = ''tool_use''
           \<and> b_ordinal b = b_ordinal c \<longrightarrow> i = j))"

lemma ordinals_other: "ordinals_ok opd n f \<Longrightarrow> b_kind b \<noteq> ''tool_use'' \<Longrightarrow> ordinals_ok opd n (f(i \<mapsto> b))"
  unfolding ordinals_ok_def by (auto split: if_splits)

lemma ordinalsD:
  assumes "ordinals_ok opd n f"
  shows "0 \<le> n" "k \<in> opd \<Longrightarrow> k < n"
    "f i = Some b \<Longrightarrow> b_kind b = ''tool_use'' \<Longrightarrow> b_ordinal b < n"
    "f i = Some b \<Longrightarrow> b_kind b = ''tool_use'' \<Longrightarrow> b_emitted b \<longleftrightarrow> b_ordinal b \<in> opd"
    "f i = Some b \<Longrightarrow> f j = Some c \<Longrightarrow> b_kind b = ''tool_use'' \<Longrightarrow> b_kind c = ''tool_use'' \<Longrightarrow>
       b_ordinal b = b_ordinal c \<Longrightarrow> i = j"
  using assms unfolding ordinals_ok_def by blast+

lemma ordinals_new:
  assumes "ordinals_ok opd n f" "b_ordinal b = n" "\<not> b_emitted b"
  shows "ordinals_ok opd (n + 1) (f(i \<mapsto> b))"
  unfolding ordinals_ok_def
proof (intro conjI allI impI ballI; (elim conjE)?)
  show "0 \<le> n + 1" using ordinalsD(1) [OF assms(1)] by simp
next
  fix k assume "k \<in> opd"
  then show "k < n + 1" using ordinalsD(2) [OF assms(1)] by force
next
  fix j c assume c: "(f(i \<mapsto> b)) j = Some c" "b_kind c = ''tool_use''"
  show "b_ordinal c < n + 1"
    using c assms(2) ordinalsD(3) [OF assms(1), of j c] by (cases "j = i") auto
  show "b_emitted c \<longleftrightarrow> b_ordinal c \<in> opd"
    using c assms(2,3) ordinalsD(4) [OF assms(1), of j c] ordinalsD(2) [OF assms(1), of n] by (cases "j = i") auto
next
  fix j k c d
  assume c: "(f(i \<mapsto> b)) j = Some c" "(f(i \<mapsto> b)) k = Some d" "b_kind c = ''tool_use''" "b_kind d = ''tool_use''"
    "b_ordinal c = b_ordinal d"
  have lt: "b_ordinal x < n" if "(f(i \<mapsto> b)) l = Some x" "l \<noteq> i" "b_kind x = ''tool_use''" for l x
    using that ordinalsD(3) [OF assms(1), of l x] by simp
  have eq: "b_ordinal x = n" if "(f(i \<mapsto> b)) i = Some x" for x using that assms(2) by simp
  consider "j = i" "k = i" | "j = i" "k \<noteq> i" | "j \<noteq> i" "k = i" | "j \<noteq> i" "k \<noteq> i" by blast
  then show "j = k"
  proof cases
    case 2
    then show ?thesis using lt [OF c(2) 2(2) c(4)] eq [of c] c(1,5) by simp
  next
    case 3
    then show ?thesis using lt [OF c(1) 3(1) c(3)] eq [of d] c(2,5) by simp
  next
    case 4
    then show ?thesis using ordinalsD(5) [OF assms(1) _ _ c(3-5)] c(1,2) by simp
  qed simp
qed

lemma ordinals_open:
  assumes "ordinals_ok opd n f" "f i = Some t" "b_kind t = ''tool_use''"
  shows "ordinals_ok (insert (b_ordinal t) opd) n (f(i \<mapsto> t\<lparr>b_emitted := True\<rparr>))"
  unfolding ordinals_ok_def
proof (intro conjI allI impI ballI; (elim conjE)?)
  show "0 \<le> n" by (rule ordinalsD(1) [OF assms(1)])
next
  fix k assume "k \<in> insert (b_ordinal t) opd"
  then show "k < n" using ordinalsD(2,3) [OF assms(1)] assms(2,3) by auto
next
  fix j c assume c: "(f(i \<mapsto> t\<lparr>b_emitted := True\<rparr>)) j = Some c" "b_kind c = ''tool_use''"
  show "b_ordinal c < n"
    using c ordinalsD(3) [OF assms(1)] assms(2,3) by (cases "j = i") auto
  show "b_emitted c \<longleftrightarrow> b_ordinal c \<in> insert (b_ordinal t) opd"
    using c assms(2,3) ordinalsD(4) [OF assms(1), of j c] ordinalsD(5) [OF assms(1), of j c i t] by (cases "j = i") auto
next
  fix j k c d
  assume c: "(f(i \<mapsto> t\<lparr>b_emitted := True\<rparr>)) j = Some c" "(f(i \<mapsto> t\<lparr>b_emitted := True\<rparr>)) k = Some d"
    "b_kind c = ''tool_use''" "b_kind d = ''tool_use''" "b_ordinal c = b_ordinal d"
  have old: "\<exists>y. f l = Some y \<and> b_kind y = ''tool_use'' \<and> b_ordinal y = b_ordinal x"
    if "(f(i \<mapsto> t\<lparr>b_emitted := True\<rparr>)) l = Some x" "b_kind x = ''tool_use''" for l x
    using that assms(2,3) by (cases "l = i") auto
  obtain c' d' where "f j = Some c'" "b_kind c' = ''tool_use''" "b_ordinal c' = b_ordinal c"
      "f k = Some d'" "b_kind d' = ''tool_use''" "b_ordinal d' = b_ordinal d"
    using old [OF c(1,3)] old [OF c(2,4)] by blast
  then show "j = k" using ordinalsD(5) [OF assms(1), of j c' k d'] c(5) by simp
qed

definition chat_agrees :: "chat_monitor \<Rightarrow> ms \<Rightarrow> bool" where
  "chat_agrees m s =
     (chats_watch (ms_out s) chat_start = Some m \<and> cm_role m = ms_role_sent s
      \<and> ordinals_ok (set (cm_tools m)) (ms_tool_ordinal s) (map_of (ms_blocks s)))"

lemma chat_agrees_view:
  "chat_agrees m s \<Longrightarrow> ms_out s' = ms_out s \<Longrightarrow> ms_role_sent s' = ms_role_sent s \<Longrightarrow>
   ms_tool_ordinal s' = ms_tool_ordinal s \<Longrightarrow> ms_blocks s' = ms_blocks s \<Longrightarrow> chat_agrees m s'"
  by (simp add: chat_agrees_def)

lemma chat_agrees_role: "chat_agrees m s \<Longrightarrow> chat_agrees (m\<lparr>cm_role := True\<rparr>) (emit_role s)"
  by (cases m) (auto simp: chat_agrees_def emit_role_def ms_emit_def chats_watch_append chat_watch_def role_chunk_def)

lemma role_sent [simp]: "ms_role_sent (emit_role s)" "ms_blocks (emit_role s) = ms_blocks s"
  "ms_tool_ordinal (emit_role s) = ms_tool_ordinal s"
  by (simp_all add: emit_role_def ms_emit_def)

lemma chat_agrees_chunk:
  assumes "chat_agrees m s" "chunk_step (if fin = [] then d else ChatEmpty) m = Some m'"
    "cm_role m' = cm_role m" "ordinals_ok (set (cm_tools m')) (ms_tool_ordinal s) (map_of (ms_blocks s))"
  shows "chat_agrees m' (emit_chunk d fin u s)"
  using assms
  by (auto simp: chat_agrees_def emit_chunk_def ms_emit_def chats_watch_append chat_watch_def delta_chunk_def
      finish_chunk_def split: if_splits)

lemma chat_agrees_block:
  assumes "chat_agrees m s"
  shows "chat_agrees m (openai_block ev s)"
proof -
  let ?b = "new_blk (ev_block ev)" and ?i = "trunc (ev_index ev)"
  have ok: "ordinals_ok (set (cm_tools m)) (ms_tool_ordinal s) (map_of (ms_blocks s))"
    using assms by (simp add: chat_agrees_def)
  have "ordinals_ok (set (cm_tools m)) (ms_tool_ordinal s + 1)
      ((map_of (ms_blocks s))(?i \<mapsto> ?b\<lparr>b_ordinal := ms_tool_ordinal s\<rparr>))"
    by (rule ordinals_new [OF ok]) (simp_all add: new_blk_def)
  then show ?thesis using assms ordinals_other [OF ok, of ?b ?i]
    by (simp add: chat_agrees_def openai_block_def Let_def put_blk_def update_conv')
qed

lemma chat_agrees_delta:
  assumes "chat_agrees m s"
  shows "\<exists>m'. chat_agrees m' (snd (openai_delta ev s))"
proof -
  let ?i = "trunc (ev_index ev)" and ?m = "m\<lparr>cm_role := True\<rparr>"
  have role: "chat_agrees ?m (emit_role s)" by (rule chat_agrees_role [OF assms])
  have ok: "ordinals_ok (set (cm_tools m)) (ms_tool_ordinal s) (map_of (ms_blocks s))"
    using assms by (simp add: chat_agrees_def)
  have content: "chat_agrees ?m (emit_chunk (ChatContent x) [] False (emit_role s))" for x
    using ok by (intro chat_agrees_chunk [OF role]) simp_all
  have args: "chat_agrees ?m (emit_chunk (ChatToolArgs (b_ordinal t) x) [] False (emit_role s))"
    if "map_of (ms_blocks s) ?i = Some t" "b_kind t = ''tool_use''" "b_emitted t" for t x
  proof (rule chat_agrees_chunk [OF role])
    have "b_ordinal t \<in> set (cm_tools m)" using ok that unfolding ordinals_ok_def by blast
    then show "chunk_step (if [] = [] then ChatToolArgs (b_ordinal t) x else ChatEmpty) ?m = Some ?m" by simp
  qed (use ok in simp_all)
  have start: "\<exists>m'. chat_agrees m' (emit_chunk (ChatToolOpen (b_ordinal t) x y z) [] False
      (emit_role (put_blk ?i (t\<lparr>b_emitted := True\<rparr>) s)))"
    if t: "map_of (ms_blocks s) ?i = Some t" "b_kind t = ''tool_use''" "\<not> b_emitted t" for t x y z
  proof -
    let ?u = "put_blk ?i (t\<lparr>b_emitted := True\<rparr>) s" and ?n = "m\<lparr>cm_role := True, cm_tools := cm_tools m @ [b_ordinal t]\<rparr>"
    have new: "b_ordinal t \<notin> set (cm_tools m)" using ok t unfolding ordinals_ok_def by blast
    have blocks: "ordinals_ok (set (cm_tools ?n)) (ms_tool_ordinal ?u) (map_of (ms_blocks ?u))"
      using ordinals_open [OF ok t(1,2)] by (simp add: put_blk_def update_conv')
    have "chats_watch (ms_out (emit_role ?u)) chat_start = Some ?m"
      using role by (auto simp: chat_agrees_def emit_role_def ms_emit_def put_blk_def ms_builder_def split: if_splits)
    then have "chat_agrees ?n (emit_chunk (ChatToolOpen (b_ordinal t) x y z) [] False (emit_role ?u))"
      using new blocks
      by (auto simp: chat_agrees_def emit_chunk_def ms_emit_def chats_watch_append chat_watch_def delta_chunk_def
          emit_role_def split: if_splits)
    then show ?thesis by blast
  qed
  show ?thesis
    using assms content args start by (auto simp: openai_delta_def Let_def split: option.split)
qed

lemma chat_agrees_capture [simp]: "chat_agrees m (capture_cache u s) = chat_agrees m s"
  by (auto simp: capture_cache_def chat_agrees_def Let_def split: option.split)

lemma chat_agrees_begin: "chat_agrees m (ms_begin ev s) = chat_agrees m s"
  by (simp add: ms_begin_def) (simp add: chat_agrees_def)

lemma chat_agrees_count: "chat_agrees m (ms_count ev s) = chat_agrees m s"
  by (simp add: ms_count_def) (simp add: chat_agrees_def)

lemma chat_agrees_dispatch:
  assumes "chat_agrees m s" "dispatch_openai etype ev s = (d, e, s')"
  shows "\<exists>m'. chat_agrees m' s'"
proof -
  have "chat_agrees m (ms_count ev s)" using assms(1) by (simp add: chat_agrees_count)
  then have fin: "chat_agrees m (emit_chunk ChatEmpty x True (ms_count ev s))" for x
    by (rule chat_agrees_chunk) (use \<open>chat_agrees m (ms_count ev s)\<close> in \<open>simp_all add: chat_agrees_def\<close>)
  have "chat_agrees (m\<lparr>cm_role := True\<rparr>) (emit_role (ms_begin ev s))"
    by (rule chat_agrees_role) (simp add: chat_agrees_begin assms(1))
  moreover have "\<exists>m'. chat_agrees m' u" if "openai_delta ev s = (x, u)" for x u
    using chat_agrees_delta [OF assms(1), of ev] that by simp
  ultimately show ?thesis
    using assms fin chat_agrees_block [OF assms(1), of ev]
    by (auto simp: dispatch_openai_def Let_def split: if_splits)
qed

lemma chat_agrees_upd [simp]:
  "chat_agrees m (s\<lparr>ms_emitted := b\<rparr>) = chat_agrees m s"
  "chat_agrees m (observe_frame etype data s) = chat_agrees m s"
  by (auto simp: chat_agrees_def observe_frame_def ms_progress_def Let_def)

lemma chat_agrees_step:
  assumes "chat_agrees m s" "ms_target s = ToOpenAI" "frame_step fr s = (d, e, s')"
  shows "ms_target s' = ToOpenAI \<and> (\<exists>m'. chat_agrees m' s')"
proof -
  obtain etype data raw where fr: "fr = (etype, data, raw)" by (cases fr)
  obtain d1 e1 s1 where dp: "dispatch etype data raw s = (d1, e1, s1)" by (cases "dispatch etype data raw s")
  have "\<exists>m'. chat_agrees m' s1"
    using dp assms(1,2) dispatch_event [of s etype data raw]
    by (auto split: option.splits dest: chat_agrees_dispatch [OF assms(1)])
  then show ?thesis using assms(2,3) dp dispatch_keeps [OF dp]
    by (auto simp: fr frame_step_def Let_def observe_keeps split: if_splits)
qed

interpretation chunks: frame_invariant "\<lambda>s. ms_target s = ToOpenAI \<and> (\<exists>m. chat_agrees m s)"
  by unfold_locales (metis chat_agrees_step)

lemma chat_agrees_new: "ms_target (new_ms ''openai'' now) = ToOpenAI \<and> chat_agrees chat_start (new_ms ''openai'' now)"
  by (simp add: new_ms_def target_of_def chat_agrees_def chat_start_def ordinals_ok_def)

section \<open>Frames without an event line\<close>

lemma observe_nameless: "ms_snap (observe_frame [] data s) = ms_snap s"
  by (simp add: observe_frame_def Let_def)

lemma step_nameless:
  assumes "frame_step ([], data, raw) s = (d, e, s')"
  shows "ms_snap s' = ms_snap s"
proof -
  obtain d1 e1 s1 where dp: "dispatch [] data raw s = (d1, e1, s1)" by (cases "dispatch [] data raw s")
  then show ?thesis using assms dispatch_keeps [OF dp]
    by (auto simp: frame_step_def Let_def observe_nameless split: if_splits)
qed

lemma run_nameless:
  "run_frames frs s = (d, e, s') \<Longrightarrow> list_all (\<lambda>(t, _). t = []) frs \<Longrightarrow> ms_snap s' = ms_snap s"
proof (induction frs arbitrary: s)
  case (Cons fr frs)
  obtain d1 e1 s1 where st: "frame_step fr s = (d1, e1, s1)" by (cases "frame_step fr s")
  have "ms_snap s1 = ms_snap s" using Cons.prems(2) st by (cases fr) (auto intro: step_nameless)
  then show ?case using Cons st by (auto split: if_splits)
qed simp

lemma feed_nameless:
  assumes "idle f" "nl \<notin> set d" "cr \<notin> set d"
  shows "snd (feed_framer f (''data: '' @ d @ [nl, nl])) =
    [([], d, if fr_want_raw f then ''data: '' @ d @ [nl, nl] else [])]"
proof -
  define g where "g = f\<lparr>fr_data := d, fr_saw := True,
     fr_raw := (if fr_want_raw f then fr_raw f @ ''data: '' @ d @ [nl] else fr_raw f)\<rparr>"
  have b: "fr_buf f = []" "fr_data f = []" "fr_event f = []" "fr_raw f = []" "fr_buf g = []" "fr_saw g"
    "fr_event g = []" "fr_data g = d" "fr_want_raw g = fr_want_raw f"
    "fr_raw g = (if fr_want_raw f then ''data: '' @ d @ [nl] else [])"
    using assms(1) by (auto simp: idle_def g_def)
  have s1: "drain (push f ((''data: '' @ d) @ nl # r)) = drain (push g r)" for r
  proof -
    have "nl \<notin> set (''data: '' @ d)" using assms(2) by simp
    note drain_push_line [OF b(1) this, of r]
    moreover have "line_step f (''data: '' @ d) = (g, None)"
      unfolding line_data [OF assms(3)] g_def using b(2) by simp
    ultimately show ?thesis by (simp only:) (simp add: split_beta)
  qed
  have e: "drain (push h []) = (h, [])" if "fr_buf h = []" for h using that by (simp add: push_def drain_None)
  have s2: "snd (drain (push g ([] @ nl # []))) = [([], d, if fr_want_raw f then fr_raw g @ [nl] else fr_raw g)]"
    by (subst drain_push_line [OF b(5)]) (simp_all add: line_blank [OF b(6)] b e split_beta)
  have "''data: '' @ d @ [nl, nl] = (''data: '' @ d) @ nl # ([] @ nl # [])" by simp
  then have "feed_framer f (''data: '' @ d @ [nl, nl]) = drain (push g ([] @ nl # []))"
    unfolding feed_framer_def using s1 [of "[] @ nl # []"] by (simp only:)
  then show ?thesis using s2 by (simp only:) (simp add: b(10))
qed

text \<open>What a conversion does not see: the fields the progress observer keeps.\<close>

definition blind :: "snapshot \<Rightarrow> ms_usage \<Rightarrow> (int \<times> string) list \<Rightarrow> ms \<Rightarrow> ms" where
  "blind sn u se s = s\<lparr>ms_snap := sn, ms_last_usage := u, ms_seen := se\<rparr>"

lemma blind_simps [simp]:
  "ms_blocks (blind sn u se s) = ms_blocks s" "ms_tool_ordinal (blind sn u se s) = ms_tool_ordinal s"
  "ms_id (blind sn u se s) = ms_id s" "ms_model (blind sn u se s) = ms_model s"
  "ms_prompt (blind sn u se s) = ms_prompt s" "ms_completion (blind sn u se s) = ms_completion s"
  "ms_cache_read (blind sn u se s) = ms_cache_read s" "ms_cache_creation (blind sn u se s) = ms_cache_creation s"
  "ms_stop (blind sn u se s) = ms_stop s" "ms_tools_seen (blind sn u se s) = ms_tools_seen s"
  "ms_role_sent (blind sn u se s) = ms_role_sent s" "ms_msg_idx (blind sn u se s) = ms_msg_idx s"
  "ms_out_count (blind sn u se s) = ms_out_count s" "ms_emitted (blind sn u se s) = ms_emitted s"
  "ms_out (blind sn u se s) = ms_out s" "ms_framer (blind sn u se s) = ms_framer s"
  "ms_target (blind sn u se s) = ms_target s" "ms_created (blind sn u se s) = ms_created s"
  "ms_flushed (blind sn u se s) = ms_flushed s"
  by (simp_all add: blind_def)

lemma blind_updates:
  "blind sn u se s\<lparr>ms_blocks := b\<rparr> = blind sn u se (s\<lparr>ms_blocks := b\<rparr>)"
  "blind sn u se s\<lparr>ms_tool_ordinal := i\<rparr> = blind sn u se (s\<lparr>ms_tool_ordinal := i\<rparr>)"
  "blind sn u se s\<lparr>ms_id := t\<rparr> = blind sn u se (s\<lparr>ms_id := t\<rparr>)"
  "blind sn u se s\<lparr>ms_model := t\<rparr> = blind sn u se (s\<lparr>ms_model := t\<rparr>)"
  "blind sn u se s\<lparr>ms_prompt := i\<rparr> = blind sn u se (s\<lparr>ms_prompt := i\<rparr>)"
  "blind sn u se s\<lparr>ms_completion := i\<rparr> = blind sn u se (s\<lparr>ms_completion := i\<rparr>)"
  "blind sn u se s\<lparr>ms_cache_read := oi\<rparr> = blind sn u se (s\<lparr>ms_cache_read := oi\<rparr>)"
  "blind sn u se s\<lparr>ms_cache_creation := oi\<rparr> = blind sn u se (s\<lparr>ms_cache_creation := oi\<rparr>)"
  "blind sn u se s\<lparr>ms_stop := t\<rparr> = blind sn u se (s\<lparr>ms_stop := t\<rparr>)"
  "blind sn u se s\<lparr>ms_tools_seen := q\<rparr> = blind sn u se (s\<lparr>ms_tools_seen := q\<rparr>)"
  "blind sn u se s\<lparr>ms_role_sent := q\<rparr> = blind sn u se (s\<lparr>ms_role_sent := q\<rparr>)"
  "blind sn u se s\<lparr>ms_msg_idx := i\<rparr> = blind sn u se (s\<lparr>ms_msg_idx := i\<rparr>)"
  "blind sn u se s\<lparr>ms_out_count := i\<rparr> = blind sn u se (s\<lparr>ms_out_count := i\<rparr>)"
  "blind sn u se s\<lparr>ms_emitted := q\<rparr> = blind sn u se (s\<lparr>ms_emitted := q\<rparr>)"
  "blind sn u se s\<lparr>ms_out := evs\<rparr> = blind sn u se (s\<lparr>ms_out := evs\<rparr>)"
  by (simp_all add: blind_def)

lemma blind_emit: "ms_emit e (blind sn u se s) = blind sn u se (ms_emit e s)"
  by (simp add: ms_emit_def blind_updates)

lemma blind_put: "put_blk i b (blind sn u se s) = blind sn u se (put_blk i b s)"
  by (simp add: put_blk_def blind_updates)

lemma blind_capture: "capture_cache c (blind sn u se s) = blind sn u se (capture_cache c s)"
  by (auto simp: capture_cache_def blind_updates split: option.splits)

lemma blind_begin: "ms_begin ev (blind sn u se s) = blind sn u se (ms_begin ev s)"
  by (simp add: ms_begin_def blind_updates blind_capture)

lemma blind_count: "ms_count ev (blind sn u se s) = blind sn u se (ms_count ev s)"
  by (simp add: ms_count_def blind_updates blind_capture)

lemma blind_role: "emit_role (blind sn u se s) = blind sn u se (emit_role s)"
  by (simp add: emit_role_def blind_updates blind_emit ms_builder_def)

lemma blind_chunk: "emit_chunk d fin w (blind sn u se s) = blind sn u se (emit_chunk d fin w s)"
  by (simp add: emit_chunk_def blind_emit ms_builder_def ms_input_total_def)

lemma blind_remit: "ms_remit b (blind sn u se s) = blind sn u se (ms_remit b s)"
  by (simp add: ms_remit_def blind_emit)

lemmas blind_ops = blind_updates blind_emit blind_put blind_capture blind_begin blind_count blind_role blind_chunk blind_remit

lemma blind_views:
  "responses_completed (blind sn u se s) = responses_completed s" "validate_tools (blind sn u se s) = validate_tools s"
  by (simp_all add: responses_completed_def ms_input_total_def ms_output_items_def validate_tools_def)

definition blindly :: "snapshot \<Rightarrow> ms_usage \<Rightarrow> (int \<times> string) list \<Rightarrow> bool \<times> err option \<times> ms \<Rightarrow> bool \<times> err option \<times> ms" where
  "blindly sn u se r = (case r of (d, e, s) \<Rightarrow> (d, e, blind sn u se s))"

lemma blindly_simps [simp]: "blindly sn u se (d, e, s) = (d, e, blind sn u se s)"
  by (simp add: blindly_def)

lemma blind_openai: "dispatch_openai etype ev (blind sn u se s) = blindly sn u se (dispatch_openai etype ev s)"
  by (auto simp: dispatch_openai_def openai_block_def openai_delta_def Let_def blind_ops split: option.splits)

lemma blind_responses: "dispatch_responses etype ev (blind sn u se s) = blindly sn u se (dispatch_responses etype ev s)"
  by (auto simp: dispatch_responses_def responses_block_def responses_delta_def Let_def blind_ops put_blk_def
      blind_views split: option.splits)

lemma observe_blind: "\<exists>sn u se. observe_frame etype data s = blind sn u se s"
proof -
  have "observe_frame etype data s = blind (ms_snap (observe_frame etype data s)) (ms_last_usage (observe_frame etype data s))
      (ms_seen (observe_frame etype data s)) s"
    by (simp add: observe_frame_def ms_progress_def blind_def Let_def)
  then show ?thesis by blast
qed

lemma blind_blind [simp]: "blind a b c (blind sn u se s) = blind a b c s"
  by (simp add: blind_def)

lemma blind_self: "blind (ms_snap s) (ms_last_usage s) (ms_seen s) s = s"
  by (simp add: blind_def)

text \<open>
  A frame and the same frame without its event line, when the name on the line is the type the
  payload has.
\<close>

definition nameless_twin :: "frame \<Rightarrow> frame \<Rightarrow> bool" where
  "nameless_twin fr fr' =
     (case fr of (t, data, _) \<Rightarrow> (case fr' of (t', data', _) \<Rightarrow>
        t' = [] \<and> data' = data \<and> frame_event t data = frame_event [] data))"

lemma twin_step:
  assumes "nameless_twin fr fr'" "ms_target s \<noteq> ToClaude" "frame_step fr s = (d, e, s')"
  shows "ms_target s' = ms_target s \<and> (\<exists>a b c. frame_step fr' (blind sn u se s) = (d, e, blind a b c s'))"
proof -
  obtain t data raw where fr: "fr = (t, data, raw)" by (cases fr)
  then obtain raw' where fr': "fr' = ([], data, raw')" and ev: "frame_event t data = frame_event [] data"
    using assms(1) by (cases fr') (auto simp: nameless_twin_def)
  obtain d1 e1 s1 where dp: "dispatch t data raw s = (d1, e1, s1)" by (cases "dispatch t data raw s")
  have "dispatch [] data raw' (blind sn u se s) = blindly sn u se (dispatch t data raw s)"
    using assms(2) by (simp add: dispatch_event ev) (auto simp: blind_openai blind_responses split: option.split target.split)
  then have dp': "dispatch [] data raw' (blind sn u se s) = (d1, e1, blind sn u se s1)" by (simp add: dp)
  define s2 where "s2 = (if ms_out s1 \<noteq> [] then s1\<lparr>ms_emitted := True\<rparr> else s1)"
  have flag: "(if ms_out (blind sn u se s1) \<noteq> [] then blind sn u se s1\<lparr>ms_emitted := True\<rparr> else blind sn u se s1) = blind sn u se s2"
    by (simp add: s2_def blind_updates)
  obtain a b c where o: "observe_frame t data s2 = blind a b c s2" using observe_blind by blast
  obtain a' b' c' where o': "observe_frame [] data (blind sn u se s2) = blind a' b' c' (blind sn u se s2)" using observe_blind by blast
  have s': "(d, e, s') = (if e1 \<noteq> None then (False, e1, s2) else if d1 \<and> validate_tools s2 \<noteq> None then (False, validate_tools s2, s2)
      else (d1, None, blind a b c s2))"
    unfolding assms(3) [symmetric] fr frame_step_def prod.case dp Let_def s2_def [symmetric] o by (rule refl)
  have step': "frame_step fr' (blind sn u se s) = (if e1 \<noteq> None then (False, e1, blind sn u se s2)
      else if d1 \<and> validate_tools s2 \<noteq> None then (False, validate_tools s2, blind sn u se s2) else (d1, None, blind a' b' c' s2))"
    unfolding fr' frame_step_def prod.case dp' Let_def flag o' blind_views blind_blind by (rule refl)
  have t: "ms_target s2 = ms_target s" using dispatch_keeps [OF dp] by (simp add: s2_def)
  consider (failed) "e1 \<noteq> None" | (broken) "e1 = None" "d1 \<and> validate_tools s2 \<noteq> None"
    | (fine) "e1 = None" "\<not> (d1 \<and> validate_tools s2 \<noteq> None)" by blast
  then show ?thesis
  proof cases
    case failed
    have "(d, e, s') = (False, e1, s2)" using s' by (simp only: failed not_False_eq_True if_True)
    moreover have "frame_step fr' (blind sn u se s) = (False, e1, blind sn u se s2)"
      using step' by (simp only: failed not_False_eq_True if_True)
    ultimately show ?thesis using t by blast
  next
    case broken
    have "(d, e, s') = (False, validate_tools s2, s2)" using s' by (simp only: broken if_True if_False simp_thms)
    moreover have "frame_step fr' (blind sn u se s) = (False, validate_tools s2, blind sn u se s2)"
      using step' by (simp only: broken if_True if_False simp_thms)
    ultimately show ?thesis using t by blast
  next
    case fine
    have "(d, e, s') = (d1, None, blind a b c s2)" using s' by (simp only: fine if_False simp_thms)
    moreover have "frame_step fr' (blind sn u se s) = (d1, None, blind a' b' c' (blind a b c s2))"
      using step' by (simp only: fine if_False simp_thms blind_blind)
    ultimately show ?thesis using t by (intro conjI exI [of _ a'] exI [of _ b'] exI [of _ c']) simp_all
  qed
qed

lemma twin_run:
  "list_all2 nameless_twin frs frs' \<Longrightarrow> ms_target s \<noteq> ToClaude \<Longrightarrow> run_frames frs s = (d, e, s') \<Longrightarrow>
     \<exists>a b c. run_frames frs' (blind sn u se s) = (d, e, blind a b c s')"
proof (induction frs frs' arbitrary: s sn u se rule: list_all2_induct)
  case (Cons fr frs fr' frs')
  obtain d1 e1 s1 where st: "frame_step fr s = (d1, e1, s1)" by (cases "frame_step fr s")
  obtain a b c where st': "ms_target s1 = ms_target s" "frame_step fr' (blind sn u se s) = (d1, e1, blind a b c s1)"
    using twin_step [OF Cons.hyps(1) Cons.prems(1) st] by blast
  show ?case
  proof (cases "d1 \<or> e1 \<noteq> None")
    case True
    then show ?thesis using Cons.prems(2) st st' by auto
  next
    case False
    then show ?thesis using Cons.IH [of s1 a b c] Cons.prems st st' by simp
  qed
qed auto

lemma twins_nameless: "list_all2 nameless_twin frs frs' \<Longrightarrow> list_all (\<lambda>(t, _). t = []) frs'"
  by (induction frs frs' rule: list_all2_induct) (auto simp: nameless_twin_def)

section \<open>Calls without arguments\<close>

definition mentions_call :: "event \<Rightarrow> bool" where
  "mentions_call ev =
     (case ev of EvChat _ (ChatChunk (ChatToolOpen _ _ _ _) _ _) \<Rightarrow> True | EvChat _ (ChatChunk (ChatToolArgs _ _) _ _) \<Rightarrow> True | _ \<Rightarrow> False)"

definition carries_arguments :: "frame \<Rightarrow> bool" where
  "carries_arguments fr =
     (case fr of (t, data, _) \<Rightarrow>
        (case frame_event t data of
           None \<Rightarrow> False
         | Some (t', ev) \<Rightarrow> t' = ''content_block_delta'' \<and> dl_type (ev_delta ev) = ''input_json_delta''))"

definition callless :: "ms \<Rightarrow> bool" where
  "callless s = (\<not> list_ex mentions_call (ms_out s))"

lemma callless_ops [simp]:
  "callless (emit_role s) = callless s" "callless (put_blk i b s) = callless s"
  "callless (capture_cache u s) = callless s" "callless (ms_begin ev s) = callless s" "callless (ms_count ev s) = callless s"
  "callless (openai_block ev s) = callless s" "callless (observe_frame etype data s) = callless s"
  "callless (emit_chunk (ChatContent t) fin w s) = callless s" "callless (emit_chunk ChatEmpty fin w s) = callless s"
  by (simp_all add: callless_def emit_role_def put_blk_def capture_cache_def ms_begin_def ms_count_def openai_block_def
      emit_chunk_def ms_emit_def mentions_call_def role_chunk_def delta_chunk_def finish_chunk_def observe_keeps Let_def
      split: option.split)

lemma callless_step:
  assumes "ms_target s = ToOpenAI" "\<not> carries_arguments fr" "callless s" "frame_step fr s = (d, e, s')"
  shows "ms_target s' = ToOpenAI \<and> callless s'"
proof -
  obtain t data raw where fr: "fr = (t, data, raw)" by (cases fr)
  obtain d1 e1 s1 where dp: "dispatch t data raw s = (d1, e1, s1)" by (cases "dispatch t data raw s")
  have "callless s1"
  proof (cases "frame_event t data")
    case None
    then show ?thesis using dp assms(1,3) by (simp add: dispatch_event)
  next
    case (Some p)
    obtain t' ev where p: "p = (t', ev)" by (cases p)
    have "dispatch_openai t' ev s = (d1, e1, s1)" using dp Some p assms(1) by (simp add: dispatch_event)
    moreover have "t' = ''content_block_delta'' \<Longrightarrow> dl_type (ev_delta ev) \<noteq> ''input_json_delta''"
      using assms(2) Some p by (auto simp: carries_arguments_def fr)
    ultimately show ?thesis using assms(3)
      by (auto simp: dispatch_openai_def openai_delta_def Let_def split: if_splits)
  qed
  moreover have "callless (s1\<lparr>ms_emitted := True\<rparr>) = callless s1" by (simp add: callless_def)
  ultimately show ?thesis using assms(1,4) dispatch_keeps [OF dp]
    by (auto simp: fr frame_step_def dp Let_def observe_keeps split: if_splits)
qed

lemma callless_run:
  "run_frames frs s = (d, e, s') \<Longrightarrow> ms_target s = ToOpenAI \<Longrightarrow> callless s \<Longrightarrow> \<not> list_ex carries_arguments frs \<Longrightarrow> callless s'"
proof (induction frs arbitrary: s)
  case (Cons fr frs)
  obtain d1 e1 s1 where st: "frame_step fr s = (d1, e1, s1)" by (cases "frame_step fr s")
  then have "ms_target s1 = ToOpenAI \<and> callless s1" using callless_step [OF Cons.prems(2) _ Cons.prems(3) st] Cons.prems(4) by simp
  then show ?case using Cons st by (auto split: if_splits)
qed simp

section \<open>Properties\<close>

text \<open>
  C16. Whatever bytes an upstream Messages stream has and however they are cut, the Chat Completions
  chunks keep the streaming discipline: at most one role chunk, before any content or tool chunk;
  a tool call is opened once at its index; an argument delta goes to an index that is open.
\<close>

theorem messages_chunks_disciplined:
  "\<exists>m. chats_watch (fst (feed_ms_body cs (new_ms ''openai'' now))) chat_start = Some m"
proof -
  obtain evs d e s' where f: "feed_ms_body cs (new_ms ''openai'' now) = (evs, d, e, s')"
    by (cases "feed_ms_body cs (new_ms ''openai'' now)")
  show ?thesis
    by (rule chunks.body [OF f]) (use chat_agrees_new in \<open>auto simp: f chat_agrees_def\<close>)
qed

text \<open>
  C38. A stream whose frames carry no event line is translated exactly as the same stream with its
  event lines (dispatch takes the type from the payload): the same events, end and error. But its
  progress is never observed: the snapshot stays as it was, so that the stream cannot be finalized
  and reports that it ended before a terminal stop reason.
\<close>

theorem nameless_stream_never_progresses:
  assumes "feed_ms_body cs (new_ms source now) = (evs, d, e, s)" "feed_ms_body ds (new_ms source now) = (evs', d', e', s')"
    and "target_of source \<noteq> ToClaude"
    and "list_all2 nameless_twin (snd (feed_framer (new_framer False) (concat cs))) (snd (feed_framer (new_framer False) (concat ds)))"
  shows "evs' = evs \<and> d' = d \<and> e' = e \<and> ms_snap s' = snapshot_zero
    \<and> finalize_ms s' = ([], Some (translation ''Messages stream ended before a terminal stop reason''), s')"
proof -
  let ?s = "new_ms source now"
  have c: "source \<noteq> ''claude''" using assms(3) by (auto simp: target_of_def)
  obtain r where r: "run_frames (snd (feed_framer (new_framer False) (concat cs))) ?s = (d, e, r)" "ms_out r = evs"
    using new_body_run [OF assms(1)] c by auto
  obtain r' where r': "run_frames (snd (feed_framer (new_framer False) (concat ds))) ?s = (d', e', r')" "ms_out r' = evs'"
      "r' = pre evs' (ms_framer r') s'"
    using new_body_run [OF assms(2)] c by auto
  have "ms_target ?s \<noteq> ToClaude" using assms(3) by (simp add: new_ms_def)
  then obtain x y z where "run_frames (snd (feed_framer (new_framer False) (concat ds)))
      (blind (ms_snap ?s) (ms_last_usage ?s) (ms_seen ?s) ?s) = (d, e, blind x y z r)"
    using twin_run [OF assms(4) _ r(1)] by blast
  then have "r' = blind x y z r" "d' = d" "e' = e" using r'(1) by (simp_all add: blind_self)
  moreover from this(1) have "evs' = evs" using r(2) r'(2) by simp
  moreover have "list_all (\<lambda>(t, _). t = []) (snd (feed_framer (new_framer False) (concat ds)))"
    using assms(4) by (rule twins_nameless)
  then have "ms_snap r' = snapshot_zero" using run_nameless [OF r'(1)] by (simp add: new_ms_def)
  then have "ms_snap s' = snapshot_zero" using arg_cong [OF r'(3), of ms_snap] by simp
  ultimately show ?thesis by (simp add: finalize_ms_def snapshot_zero_def)
qed

definition text_sample :: gv where
  "text_sample = GMap [(''type'', GStr ''content_block_delta''),
     (''delta'', GMap [(''type'', GStr ''text_delta''), (''text'', GStr ''hi'')])]"

lemma text_sample_twin:
  "nl \<notin> set (marshal text_sample) \<and> cr \<notin> set (marshal text_sample)
   \<and> nameless_twin (''content_block_delta'', marshal text_sample, []) ([], marshal text_sample, [])"
  by code_simp

lemma text_sample_run:
  "case run_frames [(''content_block_delta'', marshal text_sample, [])] (new_ms ''openai'' 0) of
     (_, _, s) \<Rightarrow> s_progress (ms_snap s) = 1 \<and> length (ms_out s) = 2"
  by code_simp

lemma nameless_stream_never_progresses_witness:
  "case feed_ms_body [''data: '' @ marshal text_sample @ [nl, nl]] (new_ms ''openai'' 0) of
     (evs, d, e, s) \<Rightarrow> length evs = 2 \<and> ms_snap s = snapshot_zero"
proof -
  let ?n = "sse_event ''content_block_delta'' text_sample" and ?c = "''data: '' @ marshal text_sample @ [nl, nl]"
  obtain evs d e s where r: "feed_ms_body [?n] (new_ms ''openai'' 0) = (evs, d, e, s)" by (rule prod_cases4)
  obtain evs' d' e' s' where r': "feed_ms_body [?c] (new_ms ''openai'' 0) = (evs', d', e', s')" by (rule prod_cases4)
  have f: "snd (feed_framer (new_framer False) (concat [?n])) = [(''content_block_delta'', marshal text_sample, [])]"
    using feed_events [of "new_framer False" "[(''content_block_delta'', text_sample)]"]
    by (simp add: new_framer_def idle_def render_events_def text_sample_def plain_name_def ascii_space_def byte_def)
  have f': "snd (feed_framer (new_framer False) (concat [?c])) = [([], marshal text_sample, [])]"
    using feed_nameless [of "new_framer False" "marshal text_sample"] text_sample_twin by (simp add: new_framer_def idle_def)
  have "length evs = 2" using new_body_run [OF r] text_sample_run f by force
  moreover have "list_all2 nameless_twin (snd (feed_framer (new_framer False) (concat [?n])))
      (snd (feed_framer (new_framer False) (concat [?c])))"
    unfolding f f' using text_sample_twin by simp
  ultimately show ?thesis using nameless_stream_never_progresses [OF r r'] unfolding r' prod.case by (simp add: target_of_def)
qed

text \<open>
  C39. A tool call without arguments is lost: as long as no frame of an upstream stream carries an
  input_json_delta, no tool call reaches a Chat Completions client, whatever tool_use blocks the
  stream starts and however it ends.
\<close>

theorem tool_without_arguments_lost:
  assumes "feed_ms_body cs (new_ms ''openai'' now) = (evs, d, e, s)"
    and "\<not> list_ex carries_arguments (snd (feed_framer (new_framer False) (concat cs)))"
  shows "\<not> list_ex mentions_call evs"
proof -
  obtain r where r: "run_frames (snd (feed_framer (new_framer False) (concat cs))) (new_ms ''openai'' now) = (d, e, r)" "ms_out r = evs"
    using new_body_run [OF assms(1)] by auto
  have "ms_target (new_ms ''openai'' now) = ToOpenAI" "callless (new_ms ''openai'' now)"
    by (simp_all add: new_ms_def target_of_def callless_def)
  then show ?thesis using callless_run [OF r(1) _ _ assms(2)] r(2) by (simp add: callless_def)
qed

definition quiet_call :: "(string \<times> gv) list" where
  "quiet_call =
     [(''content_block_start'', GMap [(''content_block'', GMap [(''type'', GStr ''tool_use''), (''id'', GStr ''a''), (''name'', GStr ''f'')])]),
      (''message_delta'', GMap [(''delta'', GMap [(''stop_reason'', GStr ''tool_use'')])])]"

lemma quiet_call_frames: "\<not> list_ex carries_arguments (map (\<lambda>(n, v). (n, marshal v, [])) quiet_call)"
  by code_simp

lemma quiet_call_run:
  "case run_frames (map (\<lambda>(n, v). (n, marshal v, [])) quiet_call) (new_ms ''openai'' 0) of
     (_, _, s) \<Rightarrow> (case ms_out s of [EvChat _ (ChatChunk ChatEmpty fin _)] \<Rightarrow> fin = Some ''tool_calls'' | _ \<Rightarrow> False)"
  by code_simp

lemma tool_without_arguments_lost_witness:
  "case feed_ms_body [render_events quiet_call] (new_ms ''openai'' 0) of
     (evs, d, e, s) \<Rightarrow> \<not> list_ex mentions_call evs
        \<and> (case evs of [EvChat _ (ChatChunk ChatEmpty fin _)] \<Rightarrow> fin = Some ''tool_calls'' | _ \<Rightarrow> False)"
proof -
  obtain evs d e s where r: "feed_ms_body [render_events quiet_call] (new_ms ''openai'' 0) = (evs, d, e, s)" by (rule prod_cases4)
  have f: "snd (feed_framer (new_framer False) (concat [render_events quiet_call])) = map (\<lambda>(n, v). (n, marshal v, [])) quiet_call"
    using feed_events [of "new_framer False" quiet_call]
    by (simp add: new_framer_def idle_def quiet_call_def plain_name_def ascii_space_def byte_def)
  obtain q where q: "run_frames (map (\<lambda>(n, v). (n, marshal v, [])) quiet_call) (new_ms ''openai'' 0) = (d, e, q)" "ms_out q = evs"
    using new_body_run [OF r] f by auto
  have "\<not> list_ex mentions_call evs" using tool_without_arguments_lost [OF r] f quiet_call_frames by simp
  then show ?thesis using quiet_call_run unfolding r prod.case q by simp
qed

end
