(* ===== verification/Responses_Stream.thy ===== *)
theory Responses_Stream
  imports Chat_Common
begin

text \<open>
  The converter of \<open>internal/adapter/responses/stream.go\<close>: an upstream Responses stream
  becomes Chat Completions chunks, Anthropic events, or is passed through. Handlers return their
  events and the new state. The states of tool calls are shared objects: several identifiers may
  refer to one of them, so that the tracker is a map from identifiers to references and a heap.
\<close>

section \<open>Upstream payloads\<close>

record input_details =
  di_cached :: "rat option"
  di_write :: "rat option"

record rs_usage =
  ur_input :: rat
  ur_output :: rat
  ur_in_details :: "input_details option"
  ur_out_details :: "rat option option"

record response_meta =
  rm_id :: string
  rm_model :: string
  rm_created :: rat
  rm_status :: rat
  rm_usage :: rs_usage
  rm_error :: string

record function_item =
  fi_type :: string
  fi_call :: string
  fi_id :: string
  fi_name :: string
  fi_args :: string

record args_delta =
  ad_item :: string
  ad_delta :: string

record failure_event =
  fe_status :: rat
  fe_message :: string
  fe_response :: response_meta

definition rs_usage_zero :: rs_usage where
  "rs_usage_zero = \<lparr>ur_input = 0, ur_output = 0, ur_in_details = None, ur_out_details = None\<rparr>"

definition response_meta_zero :: response_meta where
  "response_meta_zero = \<lparr>rm_id = [], rm_model = [], rm_created = 0, rm_status = 0, rm_usage = rs_usage_zero, rm_error = []\<rparr>"

definition dec_input_details :: "input_details dec" where
  "dec_input_details = dec_struct
     [(''cached_tokens'', field di_cached di_cached_update (dec_ptr 0 dec_float)),
      (''cache_write_tokens'', field di_write di_write_update (dec_ptr 0 dec_float))]"

definition dec_output_details :: "rat option dec" where
  "dec_output_details = dec_struct [(''reasoning_tokens'', dec_ptr 0 dec_float)]"

definition dec_rs_usage :: "rs_usage dec" where
  "dec_rs_usage = dec_struct
     [(''input_tokens'', field ur_input ur_input_update dec_float),
      (''output_tokens'', field ur_output ur_output_update dec_float),
      (''input_tokens_details'', field ur_in_details ur_in_details_update (dec_ptr \<lparr>di_cached = None, di_write = None\<rparr> dec_input_details)),
      (''output_tokens_details'', field ur_out_details ur_out_details_update (dec_ptr None dec_output_details))]"

definition dec_response_meta :: "response_meta dec" where
  "dec_response_meta = dec_struct
     [(''id'', field rm_id rm_id_update dec_string), (''model'', field rm_model rm_model_update dec_string),
      (''created_at'', field rm_created rm_created_update dec_float),
      (''status_code'', field rm_status rm_status_update dec_float),
      (''usage'', field rm_usage rm_usage_update dec_rs_usage),
      (''error'', field rm_error rm_error_update (dec_struct [(''message'', dec_string)]))]"

definition function_item_zero :: function_item where
  "function_item_zero = \<lparr>fi_type = [], fi_call = [], fi_id = [], fi_name = [], fi_args = []\<rparr>"

definition dec_function_item :: "function_item dec" where
  "dec_function_item = dec_struct
     [(''type'', field fi_type fi_type_update dec_string), (''call_id'', field fi_call fi_call_update dec_string),
      (''id'', field fi_id fi_id_update dec_string), (''name'', field fi_name fi_name_update dec_string),
      (''arguments'', field fi_args fi_args_update dec_string)]"

definition dec_response_event :: "response_meta dec" where
  "dec_response_event = dec_struct [(''response'', dec_response_meta)]"

definition dec_text_delta :: "string dec" where
  "dec_text_delta = dec_struct [(''delta'', dec_string)]"

definition dec_item_event :: "function_item dec" where
  "dec_item_event = dec_struct [(''item'', dec_function_item)]"

definition dec_args_delta :: "args_delta dec" where
  "dec_args_delta = dec_struct
     [(''item_id'', field ad_item ad_item_update dec_string), (''delta'', field ad_delta ad_delta_update dec_string)]"

definition failure_zero :: failure_event where
  "failure_zero = \<lparr>fe_status = 0, fe_message = [], fe_response = response_meta_zero\<rparr>"

definition dec_failure :: "failure_event dec" where
  "dec_failure = dec_struct
     [(''status_code'', field fe_status fe_status_update dec_float),
      (''message'', field fe_message fe_message_update dec_string),
      (''response'', field fe_response fe_response_update dec_response_meta)]"

definition malformed_event :: "string \<Rightarrow> string \<Rightarrow> err" where
  "malformed_event etype payload = translation (''malformed '' @ etype @ '' event payload: '' @ redacted_snippet payload)"

definition decode_event :: "'a dec \<Rightarrow> string \<Rightarrow> string \<Rightarrow> 'a \<Rightarrow> err + 'a" where
  "decode_event d etype payload z =
     (if payload = [] then Inr z
      else (case unmarshal d payload z of
              (v, True) \<Rightarrow> Inr v
            | (_, False) \<Rightarrow> Inl (malformed_event etype payload)))"

definition failure_error :: "failure_event \<Rightarrow> err" where
  "failure_error ev =
     (let status = (if trunc (fe_status ev) = 0 then trunc (rm_status (fe_response ev)) else trunc (fe_status ev));
          msg = (if fe_message ev = [] then rm_error (fe_response ev) else fe_message ev)
      in if 0 < status then from_status status msg else upstream_fallback msg)"

section \<open>State\<close>

record call_state =
  cs_index :: int
  cs_delivered :: bool

record rs =
  rs_framer :: framer
  rs_target :: target
  rs_id :: string
  rs_model :: string
  rs_created :: int
  rs_tools_seen :: bool
  rs_text_index :: int
  rs_text_open :: bool
  rs_next :: int
  rs_open :: "int list"
  rs_calls :: "(string \<times> nat) list"
  rs_heap :: "call_state list"
  rs_snap :: snapshot
  rs_seen :: "string list"

definition new_rs :: "string \<Rightarrow> rs" where
  "new_rs source = \<lparr>rs_framer = new_framer (source = ''openai-response''), rs_target = target_of source,
     rs_id = ''commandcode'', rs_model = [], rs_created = 0, rs_tools_seen = False, rs_text_index = - 1,
     rs_text_open = False, rs_next = 0, rs_open = [], rs_calls = [], rs_heap = [], rs_snap = snapshot_zero, rs_seen = []\<rparr>"

definition rs_progress :: "(snapshot \<Rightarrow> snapshot) \<Rightarrow> rs \<Rightarrow> rs" where
  "rs_progress f s = s\<lparr>rs_snap := f (rs_snap s)\<rparr>"

definition alloc_index :: "rs \<Rightarrow> int \<times> rs" where
  "alloc_index s = (rs_next s, s\<lparr>rs_next := rs_next s + 1\<rparr>)"

section \<open>The tracker of tool calls\<close>

definition bind_call :: "string \<Rightarrow> nat \<Rightarrow> rs \<Rightarrow> rs" where
  "bind_call key r s = (if key = [] then s else s\<lparr>rs_calls := AList.update key r (rs_calls s)\<rparr>)"

text \<open>Whether the call is new, the reference to its state, and the new tracker.\<close>

definition call_ref :: "string \<Rightarrow> string \<Rightarrow> rs \<Rightarrow> bool \<times> nat \<times> rs" where
  "call_ref key alias s =
     (case map_of (rs_calls s) key of
        Some r \<Rightarrow> (False, r, bind_call alias r s)
      | None \<Rightarrow>
          (case map_of (rs_calls s) alias of
             Some r \<Rightarrow> (False, r, bind_call key r s)
           | None \<Rightarrow>
               (let r = length (rs_heap s); (i, s1) = alloc_index s
                in (True, r, bind_call alias r (bind_call key r
                      (s1\<lparr>rs_heap := rs_heap s1 @ [\<lparr>cs_index = i, cs_delivered = False\<rparr>]\<rparr>))))))"

definition set_delivered :: "nat \<Rightarrow> rs \<Rightarrow> rs" where
  "set_delivered r s = s\<lparr>rs_heap := (rs_heap s)[r := (rs_heap s ! r)\<lparr>cs_delivered := True\<rparr>]\<rparr>"

definition observe_call :: "string \<Rightarrow> string \<Rightarrow> bool \<Rightarrow> rs \<Rightarrow> bool \<times> int \<times> bool \<times> rs" where
  "observe_call call item full s =
     (case call_ref call item s of
        (first, r, s1) \<Rightarrow>
          (let deliver = (full \<and> \<not> cs_delivered (rs_heap s1 ! r))
           in (first, cs_index (rs_heap s1 ! r), deliver, if deliver then set_delivered r s1 else s1)))"

definition stream_args :: "string \<Rightarrow> rs \<Rightarrow> bool \<times> int \<times> rs" where
  "stream_args item s =
     (case call_ref item [] s of (first, r, s1) \<Rightarrow> (first, cs_index (rs_heap s1 ! r), set_delivered r s1))"

section \<open>Events\<close>

definition rs_builder :: "rs \<Rightarrow> chat_builder" where
  "rs_builder s = \<lparr>cb_chat_id = rs_id s, cb_model = rs_model s, cb_created = rs_created s\<rparr>"

definition rs_chat :: "chat_delta \<Rightarrow> rs \<Rightarrow> event" where
  "rs_chat d s = EvChat (rs_builder s) (delta_chunk d)"

definition capture_response :: "response_meta \<Rightarrow> rs \<Rightarrow> rs" where
  "capture_response m s =
     s\<lparr>rs_id := (if rm_id m \<noteq> [] then rm_id m else rs_id s),
       rs_model := (if rm_model m \<noteq> [] then rm_model m else rs_model s),
       rs_created := trunc (rm_created m)\<rparr>"

definition close_open_blocks :: "rs \<Rightarrow> event list \<times> rs" where
  "close_open_blocks s =
     (if rs_open s = [] then ([], s)
      else (map (\<lambda>i. EvClaude (CBlockStop i)) (rs_open s), s\<lparr>rs_open := [], rs_text_open := False\<rparr>))"

definition rs_text_delta :: "string \<Rightarrow> rs \<Rightarrow> event list \<times> rs" where
  "rs_text_delta delta s =
     (if rs_target s = ToOpenAI then ([rs_chat (ChatContent delta) s], s)
      else (let (opened, s3) =
                  (if rs_text_open s then ([], s)
                   else (let (stops, s1) = close_open_blocks s; (i, s2) = alloc_index s1
                         in (stops @ [EvClaude (CBlockStart i BText)],
                             s2\<lparr>rs_text_index := i, rs_text_open := True, rs_open := rs_open s2 @ [i]\<rparr>)))
            in (opened @ [EvClaude (CBlockDelta (rs_text_index s3) (DText delta))], s3)))"

text \<open>Opening the block of a call in Messages vocabulary.\<close>

definition open_call :: "int \<Rightarrow> string \<Rightarrow> string \<Rightarrow> rs \<Rightarrow> event list \<times> rs" where
  "open_call idx i n s =
     (let (stops, s1) = close_open_blocks s
      in (stops @ [EvClaude (CBlockStart idx (BTool i n))], s1\<lparr>rs_open := rs_open s1 @ [idx]\<rparr>))"

definition output_item :: "function_item \<Rightarrow> rs \<Rightarrow> event list \<times> rs" where
  "output_item it s =
     (if fi_type it \<noteq> ''function_call'' then ([], s)
      else (case observe_call (fi_call it) (fi_id it) (fi_args it \<noteq> []) (s\<lparr>rs_tools_seen := True\<rparr>) of
              (first, idx, deliver, s1) \<Rightarrow>
                (if rs_target s1 = ToOpenAI then
                   (if first then ([rs_chat (ChatToolOpen idx (fi_call it) (fi_name it) (if deliver then fi_args it else [])) s1], s1)
                    else if deliver then ([rs_chat (ChatToolArgs idx (fi_args it)) s1], s1)
                    else ([], s1))
                 else (let (opened, s2) = (if first then open_call idx (fi_call it) (fi_name it) s1 else ([], s1))
                       in (opened @ (if deliver then [EvClaude (CBlockDelta idx (DJson (fi_args it)))] else []), s2)))))"

definition args_fragment :: "string \<Rightarrow> string \<Rightarrow> rs \<Rightarrow> event list \<times> rs" where
  "args_fragment item delta s =
     (case stream_args item s of
        (first, idx, s1) \<Rightarrow>
          (if rs_target s1 = ToOpenAI then
             (let s2 = s1\<lparr>rs_tools_seen := True\<rparr>
              in ([rs_chat (if first then ChatToolOpen idx item [] delta else ChatToolArgs idx delta) s2], s2))
           else (let (opened, s2) = (if first then open_call idx item [] s1 else ([], s1))
                 in (opened @ [EvClaude (CBlockDelta idx (DJson delta))], s2))))"

definition rs_details :: "rs_usage \<Rightarrow> usage_details" where
  "rs_details u =
     \<lparr>u_cached = Option.bind (ur_in_details u) (\<lambda>d. map_option trunc (di_cached d)),
      u_cache_write = Option.bind (ur_in_details u) (\<lambda>d. map_option trunc (di_write d)),
      u_reasoning = Option.bind (ur_out_details u) (map_option trunc)\<rparr>"

definition rs_terminal :: "bool \<Rightarrow> int \<Rightarrow> int \<Rightarrow> usage_details \<Rightarrow> rs \<Rightarrow> event list \<times> rs" where
  "rs_terminal incomplete input output d s =
     (let st = (if incomplete then ''incomplete'' else ''completed'') in
      if rs_target s = ToOpenAI then
        ([EvChat (rs_builder s) (finish_chunk (terminal_reason (rs_tools_seen s) ''tool_calls'' (cc_finish_from_response_status st))
             (Some (cc_usage_from input output d)))], s)
      else
        (map (\<lambda>i. EvClaude (CBlockStop i)) (rs_open s)
         @ [EvClaude (CMessageDelta (Some (terminal_reason (rs_tools_seen s) ''tool_use'' (claude_stop_from_response_status st)))
              (Some (claude_usage (clamp_subtract input [u_cached d, u_cache_write d]) output (u_cached d) (u_cache_write d)))),
            EvClaude CMessageStop],
         s\<lparr>rs_open := []\<rparr>))"

section \<open>Feeding\<close>

definition responses_path :: string where
  "responses_path = ''/v1/responses''"

definition check_target :: "rs \<Rightarrow> err option" where
  "check_target s =
     (case rs_target s of
        ToOpenAI \<Rightarrow> None
      | ToClaude \<Rightarrow> None
      | ToResponses \<Rightarrow> Some (unsupported_format ''openai-response'' responses_path)
      | ToOther f \<Rightarrow> Some (unsupported_format f responses_path))"

text \<open>Decoding, then the target, then the handler; a handler gives its events, the end and the state.\<close>

definition handle_event ::
  "'a dec \<Rightarrow> 'a \<Rightarrow> string \<Rightarrow> string \<Rightarrow> ('a \<Rightarrow> rs \<Rightarrow> err + (event list \<times> bool \<times> rs)) \<Rightarrow> rs \<Rightarrow> err + (event list \<times> bool \<times> rs)" where
  "handle_event d z etype payload h s =
     (case decode_event d etype payload z of
        Inl e \<Rightarrow> Inl e
      | Inr v \<Rightarrow> (case check_target s of Some e \<Rightarrow> Inl e | None \<Rightarrow> h v s))"

definition going :: "event list \<times> rs \<Rightarrow> err + (event list \<times> bool \<times> rs)" where
  "going r = Inr (fst r, False, snd r)"

definition convert_event :: "string \<Rightarrow> string \<Rightarrow> rs \<Rightarrow> err + (event list \<times> bool \<times> rs)" where
  "convert_event etype payload s =
     (if etype = ''response.created'' then
        handle_event dec_response_event response_meta_zero etype payload
          (\<lambda>m u. let u1 = capture_response m u
                 in going ([if rs_target u1 = ToOpenAI then EvChat (rs_builder u1) role_chunk
                            else EvClaude (CMessageStart (rs_id u1) (rs_model u1) 0)], u1)) s
      else if etype = ''response.output_text.delta'' then
        handle_event dec_text_delta [] etype payload (\<lambda>t u. going (rs_text_delta t u)) s
      else if etype = ''response.output_item.added'' \<or> etype = ''response.output_item.done'' then
        handle_event dec_item_event function_item_zero etype payload (\<lambda>it u. going (output_item it u)) s
      else if etype = ''response.function_call_arguments.delta'' then
        handle_event dec_args_delta \<lparr>ad_item = [], ad_delta = []\<rparr> etype payload
          (\<lambda>a u. going (args_fragment (ad_item a) (ad_delta a) u)) s
      else if etype = ''response.completed'' \<or> etype = ''response.incomplete'' then
        handle_event dec_response_event response_meta_zero etype payload
          (\<lambda>m u. case rs_terminal (etype = ''response.incomplete'') (trunc (ur_input (rm_usage m))) (trunc (ur_output (rm_usage m)))
                        (rs_details (rm_usage m)) u of
                   (evs, u1) \<Rightarrow> Inr (evs, True, u1)) s
      else if etype = ''response.failed'' \<or> etype = ''error'' then
        handle_event dec_failure failure_zero etype payload (\<lambda>ev u. Inl (failure_error ev)) s
      else if payload \<noteq> [] \<and> \<not> json_valid payload then Inl (malformed_event etype payload)
      else Inr ([], False, s))"

definition passthrough_event :: "string \<Rightarrow> string \<Rightarrow> string \<Rightarrow> rs \<Rightarrow> err + (event list \<times> bool \<times> rs)" where
  "passthrough_event etype payload raw s =
     (if etype = ''response.completed'' \<or> etype = ''response.incomplete'' then Inr ([EvRaw raw], True, s)
      else if etype = ''response.failed'' \<or> etype = ''error''
      then Inl (failure_error (fst (unmarshal dec_failure payload failure_zero)))
      else Inr ([EvRaw raw], False, s))"

record item_identity =
  ii_output :: int
  ii_content :: int
  ii_item :: string
  ii_item_id :: string

definition dec_identity :: "item_identity dec" where
  "dec_identity = dec_struct
     [(''output_index'', field ii_output ii_output_update dec_int64),
      (''content_index'', field ii_content ii_content_update dec_int64),
      (''item'', field ii_item ii_item_update (dec_struct [(''id'', dec_string)])),
      (''item_id'', field ii_item_id ii_item_id_update dec_string)]"

definition sighting_key :: "string \<Rightarrow> string \<Rightarrow> string" where
  "sighting_key etype payload =
     (let i = fst (unmarshal dec_identity payload \<lparr>ii_output = 0, ii_content = 0, ii_item = [], ii_item_id = []\<rparr>);
          z = [CHR 0x00]
      in etype @ z @ itoa (ii_output i) @ z @ itoa (ii_content i) @ z @ ii_item i @ z @ ii_item_id i)"

definition rs_observe :: "string \<Rightarrow> string \<Rightarrow> rs \<Rightarrow> rs" where
  "rs_observe etype payload s =
     (if etype = ''response.created'' then (if s_started (rs_snap s) then s else rs_progress st_start s)
      else if etype = ''response.output_text.delta'' \<or> etype = ''response.function_call_arguments.delta'' then
        (if contains payload ''\"delta\"'' then rs_progress st_advance s else s)
      else if etype = ''response.output_item.added'' \<or> etype = ''response.content_part.added'' then
        (let key = sighting_key etype payload
         in if key \<in> set (rs_seen s) then s else rs_progress st_advance (s\<lparr>rs_seen := rs_seen s @ [key]\<rparr>))
      else if etype = ''response.completed'' then rs_progress (st_terminal ''completed'') (rs_progress st_done s)
      else if etype = ''response.incomplete'' then rs_progress (st_terminal ''incomplete'') (rs_progress st_done s)
      else if etype = ''response.failed'' \<or> etype = ''error'' then rs_progress (st_terminal ''failed'') s
      else s)"

text \<open>One frame: its events, the end, the error and the state.\<close>

definition rs_frame :: "frame \<Rightarrow> rs \<Rightarrow> event list \<times> bool \<times> err option \<times> rs" where
  "rs_frame fr s =
     (case fr of (etype, payload, raw) \<Rightarrow>
        (if rs_target s = ToResponses then
           (case passthrough_event etype payload raw s of
              Inl e \<Rightarrow> ([], False, Some e, s)
            | Inr (evs, d, s1) \<Rightarrow> (evs, d, None, rs_observe etype payload s1))
         else
           (case convert_event etype payload s of
              Inl e \<Rightarrow> ([], False, Some e,
                 if etype = ''response.failed'' \<or> etype = ''error'' then rs_progress (st_terminal ''failed'') s else s)
            | Inr (evs, d, s1) \<Rightarrow> (evs, d, None, rs_observe etype payload s1))))"

text \<open>The loop of \<open>Feed\<close>: unlike its siblings it goes on after a terminal frame.\<close>

function rs_loop :: "framer \<Rightarrow> event list \<Rightarrow> bool \<Rightarrow> rs \<Rightarrow> event list \<times> bool \<times> err option \<times> framer \<times> rs" where
  "rs_loop f evs d s =
     (case frame_next f of
        (f', None) \<Rightarrow> (evs, d, None, f', s)
      | (f', Some fr) \<Rightarrow>
          (case rs_frame fr s of
             (es, _, Some e, s') \<Rightarrow> (evs @ es, False, Some e, f', s')
           | (es, d', None, s') \<Rightarrow> rs_loop f' (evs @ es) (d \<or> d') s'))"
  by pat_completeness auto
termination
  by (relation "measure (\<lambda>(f, _). length (fr_buf f))") (auto dest: frame_next_shorter [OF sym])

declare rs_loop.simps [simp del]

definition feed_rs :: "string \<Rightarrow> rs \<Rightarrow> event list \<times> bool \<times> err option \<times> rs" where
  "feed_rs chunk s =
     (case rs_loop (push (rs_framer s) chunk) [] False s of
        (evs, d, e, f, s') \<Rightarrow> (evs, d, e, s'\<lparr>rs_framer := f\<rparr>))"

definition finalize_rs :: "rs \<Rightarrow> event list \<times> err option \<times> rs" where
  "finalize_rs s =
     (if s_terminal (rs_snap s) then ([], None, s)
      else ([], Some (translation ''Responses stream ended before a terminal response event''), s))"

end
