(* ===== verification/Responses_Contract.thy ===== *)
theory Responses_Contract
  imports Responses_Stream Streaming
begin

text \<open>
  What the converter of Responses_Stream promises its two synthesized targets: monitors of their
  events, the invariants that tie them to the state and to the heap of tool calls, and the
  streams the pump serves with it.
\<close>

section \<open>The tracker\<close>

definition tracker_ok :: "rs \<Rightarrow> bool" where
  "tracker_ok s = (\<forall>k r. map_of (rs_calls s) k = Some r \<longrightarrow> r < length (rs_heap s) \<and> k \<noteq> [])"

lemma bind_spec:
  "\<exists>c. bind_call key r s = s\<lparr>rs_calls := c\<rparr> \<and> map_of c = (if key = [] then map_of (rs_calls s) else (map_of (rs_calls s))(key \<mapsto> r))"
  by (auto simp: bind_call_def update_conv' intro: exI [of _ "rs_calls s"])

text \<open>Resolving two identifiers leaves both bound to one state, a fresh one if neither was known.\<close>

lemma call_ref_spec:
  assumes ok: "tracker_ok s" and c: "call_ref key twin s = (first, r, s')"
  shows "\<exists>cs. s' = s\<lparr>rs_calls := cs, rs_heap := rs_heap s @ (if first then [\<lparr>cs_index = rs_next s, cs_delivered = False\<rparr>] else []),
        rs_next := rs_next s + (if first then 1 else 0)\<rparr>"
    and "r < length (rs_heap s')" and "first \<Longrightarrow> r = length (rs_heap s)"
    and "first \<longleftrightarrow> key \<notin> dom (map_of (rs_calls s)) \<and> twin \<notin> dom (map_of (rs_calls s))"
    and "dom (map_of (rs_calls s')) = dom (map_of (rs_calls s)) \<union> {k. k \<in> {key, twin} \<and> k \<noteq> []}"
    and "k \<in> {key, twin} \<Longrightarrow> k \<noteq> [] \<Longrightarrow> map_of (rs_calls s') k = Some r"
    and "tracker_ok s'"
proof -
  have D: "[] \<notin> dom (map_of (rs_calls s))" using ok by (auto simp: tracker_ok_def)
  consider (known) "map_of (rs_calls s) key = Some r" "\<not> first" "s' = bind_call twin r s"
    | (other) "map_of (rs_calls s) key = None" "map_of (rs_calls s) twin = Some r" "\<not> first" "s' = bind_call key r s"
    | (fresh) "map_of (rs_calls s) key = None" "map_of (rs_calls s) twin = None" "first" "r = length (rs_heap s)"
        "s' = bind_call twin r (bind_call key r
           (s\<lparr>rs_next := rs_next s + 1, rs_heap := rs_heap s @ [\<lparr>cs_index = rs_next s, cs_delivered = False\<rparr>]\<rparr>))"
    using c by (auto simp: call_ref_def alloc_index_def Let_def split: option.splits)
  note cases = this
  obtain cs where s': "s' = s\<lparr>rs_calls := cs, rs_heap := rs_heap s @ (if first then [\<lparr>cs_index = rs_next s, cs_delivered = False\<rparr>] else []),
      rs_next := rs_next s + (if first then 1 else 0)\<rparr>"
      "r < length (rs_heap s')" "first \<longrightarrow> r = length (rs_heap s)"
      "map_of cs = (\<lambda>k. if k \<in> {key, twin} \<and> k \<noteq> [] then Some r else map_of (rs_calls s) k)"
    using cases
  proof cases
    case known
    then show ?thesis using bind_spec [of twin r s] ok D that by (fastforce simp: tracker_ok_def fun_eq_iff)
  next
    case other
    then show ?thesis using bind_spec [of key r s] ok D that by (fastforce simp: tracker_ok_def fun_eq_iff)
  next
    case fresh
    let ?s = "s\<lparr>rs_next := rs_next s + 1, rs_heap := rs_heap s @ [\<lparr>cs_index = rs_next s, cs_delivered = False\<rparr>]\<rparr>"
    obtain c1 where c1: "bind_call key r ?s = ?s\<lparr>rs_calls := c1\<rparr>"
        "map_of c1 = (if key = [] then map_of (rs_calls s) else (map_of (rs_calls s))(key \<mapsto> r))"
      using bind_spec [of key r ?s] by auto
    obtain c2 where c2: "bind_call twin r (?s\<lparr>rs_calls := c1\<rparr>) = ?s\<lparr>rs_calls := c2\<rparr>"
        "map_of c2 = (if twin = [] then map_of c1 else (map_of c1)(twin \<mapsto> r))"
      using bind_spec [of twin r "?s\<lparr>rs_calls := c1\<rparr>"] by auto
    show ?thesis using fresh c1 c2 by (intro that [of c2]) (auto simp: fun_eq_iff)
  qed
  show "\<exists>cs. s' = s\<lparr>rs_calls := cs, rs_heap := rs_heap s @ (if first then [\<lparr>cs_index = rs_next s, cs_delivered = False\<rparr>] else []),
        rs_next := rs_next s + (if first then 1 else 0)\<rparr>" "r < length (rs_heap s')" "first \<Longrightarrow> r = length (rs_heap s)"
    using s' by blast+
  show "first \<longleftrightarrow> key \<notin> dom (map_of (rs_calls s)) \<and> twin \<notin> dom (map_of (rs_calls s))"
    using cases by cases (auto simp: domIff)
  have m: "map_of (rs_calls s') = (\<lambda>k. if k \<in> {key, twin} \<and> k \<noteq> [] then Some r else map_of (rs_calls s) k)"
    using s'(1,4) by simp
  show "dom (map_of (rs_calls s')) = dom (map_of (rs_calls s)) \<union> {k. k \<in> {key, twin} \<and> k \<noteq> []}"
    unfolding m by (auto simp: dom_def split: if_splits)
  show "k \<in> {key, twin} \<Longrightarrow> k \<noteq> [] \<Longrightarrow> map_of (rs_calls s') k = Some r" by (simp add: m)
  have "length (rs_heap s) \<le> length (rs_heap s')" using s'(1) by simp
  then show "tracker_ok s'" unfolding tracker_ok_def m using ok s'(2) by (fastforce simp: tracker_ok_def split: if_splits)
qed

lemma delivered_indices [simp]:
  "r < length (rs_heap s) \<Longrightarrow> map cs_index (rs_heap (set_delivered r s)) = map cs_index (rs_heap s)"
  "length (rs_heap (set_delivered r s)) = length (rs_heap s)"
  by (simp_all add: set_delivered_def map_update) (simp add: list_update_id flip: nth_map)

lemma delivered_same [simp]:
  "rs_calls (set_delivered r s) = rs_calls s" "rs_next (set_delivered r s) = rs_next s"
  "rs_open (set_delivered r s) = rs_open s" "rs_text_open (set_delivered r s) = rs_text_open s"
  "rs_text_index (set_delivered r s) = rs_text_index s" "rs_target (set_delivered r s) = rs_target s"
  "tracker_ok (set_delivered r s) = tracker_ok s"
  by (simp_all add: set_delivered_def tracker_ok_def)

section \<open>Anthropic clients\<close>

text \<open>
  The rules of blocks up to message_stop; what is sent after it is not looked at. Arguments may go
  to the block of any call that was started, open or stopped. Whether and when message_start comes
  is the upstream's doing (response.created is translated as it arrives), so the monitor does not
  ask for it.
\<close>

record block_monitor =
  bl_next :: int
  bl_open :: "(int \<times> blk_kind) option"
  bl_tools :: "int set"
  bl_stopped :: bool

definition blocks_start :: block_monitor where
  "blocks_start = \<lparr>bl_next = 0, bl_open = None, bl_tools = {}, bl_stopped = False\<rparr>"

fun block_step :: "claude_ev \<Rightarrow> block_monitor \<Rightarrow> block_monitor option" where
  "block_step (CMessageStart _ _ _) m = Some m"
| "block_step (CBlockStart k b) m =
     (if bl_open m = None \<and> k = bl_next m
      then Some (m\<lparr>bl_open := Some (k, kind_of b), bl_next := k + 1,
             bl_tools := (if kind_of b = KTool then insert k (bl_tools m) else bl_tools m)\<rparr>)
      else None)"
| "block_step (CBlockDelta k (DText _)) m = (if bl_open m = Some (k, KText) then Some m else None)"
| "block_step (CBlockDelta k (DThinking _)) m = (if bl_open m = Some (k, KThinking) then Some m else None)"
| "block_step (CBlockDelta k (DJson _)) m = (if k \<in> bl_tools m then Some m else None)"
| "block_step (CBlockStop k) m = (if map_option fst (bl_open m) = Some k then Some (m\<lparr>bl_open := None\<rparr>) else None)"
| "block_step (CMessageDelta _ _) m = (if bl_open m = None then Some m else None)"
| "block_step CMessageStop m = (if bl_open m = None then Some (m\<lparr>bl_stopped := True\<rparr>) else None)"

definition block_watch :: "event \<Rightarrow> block_monitor \<Rightarrow> block_monitor option" where
  "block_watch e m =
     (if bl_stopped m then Some m else (case e of EvClaude c \<Rightarrow> block_step c m | _ \<Rightarrow> None))"

fun blocks_watch :: "event list \<Rightarrow> block_monitor \<Rightarrow> block_monitor option" where
  "blocks_watch [] m = Some m"
| "blocks_watch (e # es) m = Option.bind (block_watch e m) (blocks_watch es)"

lemma blocks_append: "blocks_watch (xs @ ys) m = Option.bind (blocks_watch xs m) (blocks_watch ys)"
  by (induction xs arbitrary: m) (auto simp: Option.bind_assoc split: Option.bind_split)

lemma blocks_stopped: "bl_stopped m \<Longrightarrow> blocks_watch evs m = Some m"
  by (induction evs) (simp_all add: block_watch_def)

definition rs_blocks :: "block_monitor \<Rightarrow> rs \<Rightarrow> bool" where
  "rs_blocks m s =
     (tracker_ok s \<and> bl_next m = rs_next s \<and> \<not> bl_stopped m
      \<and> rs_open s = (case bl_open m of None \<Rightarrow> [] | Some b \<Rightarrow> [fst b])
      \<and> (rs_text_open s \<longrightarrow> bl_open m = Some (rs_text_index s, KText))
      \<and> set (map cs_index (rs_heap s)) \<subseteq> bl_tools m)"

lemma rs_blocks_more [simp]:
  "rs_blocks m (s\<lparr>rs_snap := a\<rparr>) = rs_blocks m s" "rs_blocks m (s\<lparr>rs_seen := b\<rparr>) = rs_blocks m s"
  "rs_blocks m (s\<lparr>rs_tools_seen := c\<rparr>) = rs_blocks m s" "rs_blocks m (s\<lparr>rs_framer := f\<rparr>) = rs_blocks m s"
  "rs_blocks m (s\<lparr>rs_id := i, rs_model := n, rs_created := t\<rparr>) = rs_blocks m s"
  "r < length (rs_heap s) \<Longrightarrow> rs_blocks m (set_delivered r s) = rs_blocks m s"
  by (simp_all add: rs_blocks_def tracker_ok_def del: set_map)

text \<open>Closing what is open.\<close>

lemma blocks_close:
  assumes "rs_open s = (case bl_open m of None \<Rightarrow> [] | Some b \<Rightarrow> [fst b])" "\<not> bl_stopped m"
    "rs_text_open s \<longrightarrow> bl_open m = Some (rs_text_index s, KText)" "close_open_blocks s = (evs, s')"
  shows "blocks_watch evs m = Some (m\<lparr>bl_open := None\<rparr>)" "s' = s\<lparr>rs_open := [], rs_text_open := False\<rparr>"
  using assms by (auto simp: close_open_blocks_def block_watch_def split: option.splits)

lemma blocks_text:
  assumes a: "rs_blocks m s" and t: "rs_target s = ToClaude" and e: "rs_text_delta d s = (evs, s')"
  shows "\<exists>m'. blocks_watch evs m = Some m' \<and> rs_blocks m' s'"
proof (cases "rs_text_open s")
  case True
  then show ?thesis using assms
    by (intro exI [of _ m]) (auto simp: rs_text_delta_def Let_def rs_blocks_def block_watch_def)
next
  case False
  obtain stops s1 where c: "close_open_blocks s = (stops, s1)" by fastforce
  have w: "blocks_watch stops m = Some (m\<lparr>bl_open := None\<rparr>)" "s1 = s\<lparr>rs_open := [], rs_text_open := False\<rparr>"
    using blocks_close [OF _ _ _ c, of m] a by (simp_all add: rs_blocks_def)
  let ?m = "m\<lparr>bl_open := Some (rs_next s, KText), bl_next := rs_next s + 1\<rparr>"
  have "evs = stops @ [EvClaude (CBlockStart (rs_next s) BText), EvClaude (CBlockDelta (rs_next s) (DText d))]"
    "s' = s\<lparr>rs_open := [rs_next s], rs_text_open := True, rs_next := rs_next s + 1, rs_text_index := rs_next s\<rparr>"
    using e t False c w(2) by (auto simp: rs_text_delta_def alloc_index_def Let_def)
  then show ?thesis using w a
    by (intro exI [of _ ?m]) (auto simp: blocks_append rs_blocks_def block_watch_def tracker_ok_def)
qed

text \<open>
  A call whose state was allocated but not announced: its index is the next the monitor expects.
\<close>

lemma blocks_call:
  assumes a: "rs_blocks m s" and c: "call_ref key twin s = (first, r, s1)" and i: "idx = cs_index (rs_heap s1 ! r)"
    and o: "(if first then open_call idx ci cn u else ([], u)) = (opened, s2)"
    and u: "u = s1 \<or> u = set_delivered r s1"
  shows "\<exists>m'. blocks_watch opened m = Some m' \<and> rs_blocks m' s2 \<and> idx \<in> bl_tools m'"
proof -
  have ok: "tracker_ok s" using a by (simp add: rs_blocks_def)
  note spec = call_ref_spec [OF ok c]
  obtain cs where s1: "s1 = s\<lparr>rs_calls := cs, rs_heap := rs_heap s @ (if first then [\<lparr>cs_index = rs_next s, cs_delivered = False\<rparr>] else []),
      rs_next := rs_next s + (if first then 1 else 0)\<rparr>" using spec(1) by blast
  have len: "r < length (rs_heap s1)" and ok1: "tracker_ok s1" using spec(2,7) by blast+
  show ?thesis
  proof (cases first)
    case False
    then have "rs_blocks m s1" using a ok1 s1 by (simp add: rs_blocks_def)
    moreover have "idx \<in> bl_tools m"
      using False i len s1 a by (auto simp: rs_blocks_def subset_iff)
    ultimately show ?thesis using o u len False by auto
  next
    case True
    then have idx: "idx = rs_next s" using i spec(3) s1 by simp
    obtain stops s3 where cl: "close_open_blocks u = (stops, s3)" by fastforce
    have uf: "rs_open u = rs_open s" "rs_text_open u = rs_text_open s" "rs_text_index u = rs_text_index s"
        "map cs_index (rs_heap u) = map cs_index (rs_heap s) @ [rs_next s]" "rs_next u = rs_next s + 1" "tracker_ok u"
      using u s1 True len ok1 delivered_indices(1) [OF len] by auto
    have w: "blocks_watch stops m = Some (m\<lparr>bl_open := None\<rparr>)" "s3 = u\<lparr>rs_open := [], rs_text_open := False\<rparr>"
      using blocks_close [OF _ _ _ cl, of m] a uf by (simp_all add: rs_blocks_def)
    let ?m = "m\<lparr>bl_open := Some (idx, KTool), bl_next := idx + 1, bl_tools := insert idx (bl_tools m)\<rparr>"
    have e: "opened = stops @ [EvClaude (CBlockStart idx (BTool ci cn))]" "s2 = u\<lparr>rs_open := [idx], rs_text_open := False\<rparr>"
      using o True cl w(2) by (auto simp: open_call_def)
    have "blocks_watch opened m = Some ?m"
      using w a idx by (simp add: e blocks_append block_watch_def rs_blocks_def)
    moreover have "set (map cs_index (rs_heap s2)) = set (map cs_index (rs_heap u))" using e by simp
    then have "rs_blocks ?m s2" using a uf idx e
      by (auto simp: rs_blocks_def tracker_ok_def simp del: set_map)
    ultimately show ?thesis by (intro exI [of _ ?m]) simp
  qed
qed

lemma blocks_item:
  assumes a: "rs_blocks m s" and t: "rs_target s = ToClaude" and e: "output_item it s = (evs, s')"
  shows "\<exists>m'. blocks_watch evs m = Some m' \<and> rs_blocks m' s'"
proof (cases "fi_type it = ''function_call''")
  case False
  then show ?thesis using a e by (auto simp: output_item_def)
next
  case True
  let ?s = "s\<lparr>rs_tools_seen := True\<rparr>"
  have a': "rs_blocks m ?s" using a by simp
  obtain first r s1 where c: "call_ref (fi_call it) (fi_id it) ?s = (first, r, s1)" by (metis prod_cases3)
  define idx where "idx = cs_index (rs_heap s1 ! r)"
  define deliver where "deliver = (fi_args it \<noteq> [] \<and> \<not> cs_delivered (rs_heap s1 ! r))"
  define u where "u = (if deliver then set_delivered r s1 else s1)"
  have ob: "observe_call (fi_call it) (fi_id it) (fi_args it \<noteq> []) ?s = (first, idx, deliver, u)"
    using c by (simp add: observe_call_def idx_def deliver_def u_def Let_def)
  have ok: "tracker_ok ?s" using a' by (simp add: rs_blocks_def)
  have "rs_target s1 = ToClaude" using call_ref_spec(1) [OF ok c] t by auto
  then have tu: "rs_target u = ToClaude" by (simp add: u_def)
  obtain opened s2 where o: "(if first then open_call idx (fi_call it) (fi_name it) u else ([], u)) = (opened, s2)" by fastforce
  have ev: "evs = opened @ (if deliver then [EvClaude (CBlockDelta idx (DJson (fi_args it)))] else [])" "s' = s2"
    using e True ob tu o by (auto simp: output_item_def Let_def)
  obtain m' where "blocks_watch opened m = Some m'" "rs_blocks m' s2" "idx \<in> bl_tools m'"
    using blocks_call [OF a' c idx_def o] u_def by (cases deliver) auto
  then show ?thesis using ev by (auto simp: blocks_append block_watch_def)
qed

lemma blocks_args:
  assumes a: "rs_blocks m s" and t: "rs_target s = ToClaude" and e: "args_fragment item delta s = (evs, s')"
  shows "\<exists>m'. blocks_watch evs m = Some m' \<and> rs_blocks m' s'"
proof -
  obtain first r s1 where c: "call_ref item [] s = (first, r, s1)" by (metis prod_cases3)
  define idx where "idx = cs_index (rs_heap s1 ! r)"
  define u where "u = set_delivered r s1"
  have ok: "tracker_ok s" using a by (simp add: rs_blocks_def)
  have "rs_target s1 = ToClaude" using call_ref_spec(1) [OF ok c] t by auto
  then have tu: "rs_target u = ToClaude" by (simp add: u_def)
  obtain opened s2 where o: "(if first then open_call idx item [] u else ([], u)) = (opened, s2)" by fastforce
  have ev: "evs = opened @ [EvClaude (CBlockDelta idx (DJson delta))]" "s' = s2"
    using e c tu o by (auto simp: args_fragment_def stream_args_def Let_def u_def [symmetric] idx_def [symmetric])
  obtain m' where "blocks_watch opened m = Some m'" "rs_blocks m' s2" "idx \<in> bl_tools m'"
    using blocks_call [OF a c idx_def o] by (auto simp: u_def)
  then show ?thesis using ev by (auto simp: blocks_append block_watch_def)
qed

lemma blocks_terminal:
  assumes "rs_blocks m s" "rs_target s = ToClaude" "rs_terminal inc i o' d s = (evs, s')"
  shows "\<exists>m'. blocks_watch evs m = Some m' \<and> bl_stopped m'"
  using assms by (auto simp: rs_terminal_def Let_def rs_blocks_def blocks_append block_watch_def split: option.splits)

section \<open>What every handler keeps\<close>

text \<open>The format, the progress and the framer are written by the frame loop only.\<close>

definition rs_fixed :: "rs \<Rightarrow> target \<times> snapshot \<times> framer" where
  "rs_fixed s = (rs_target s, rs_snap s, rs_framer s)"

lemma fixed_call: "call_ref key twin s = (first, r, s') \<Longrightarrow> rs_fixed s' = rs_fixed s"
  by (auto simp: call_ref_def alloc_index_def bind_call_def rs_fixed_def Let_def split: option.splits if_splits)

lemma fixed_more [simp]:
  "rs_fixed (set_delivered r s) = rs_fixed s" "rs_fixed (s\<lparr>rs_tools_seen := b\<rparr>) = rs_fixed s"
  "rs_fixed (s\<lparr>rs_open := os\<rparr>) = rs_fixed s" "rs_fixed (capture_response m s) = rs_fixed s"
  "rs_fixed (snd (close_open_blocks s)) = rs_fixed s" "rs_fixed (snd (open_call k i n s)) = rs_fixed s"
  by (simp_all add: rs_fixed_def set_delivered_def capture_response_def close_open_blocks_def open_call_def split_beta)

lemma fixed_handlers [simp]:
  "rs_fixed (snd (rs_text_delta t s)) = rs_fixed s" "rs_fixed (snd (output_item it s)) = rs_fixed s"
  "rs_fixed (snd (args_fragment i d s)) = rs_fixed s" "rs_fixed (snd (rs_terminal inc a b u s)) = rs_fixed s"
proof -
  show "rs_fixed (snd (rs_text_delta t s)) = rs_fixed s"
    by (simp add: rs_text_delta_def Let_def split_beta alloc_index_def) (simp add: rs_fixed_def close_open_blocks_def)
  have u: "rs_fixed u = rs_fixed s" if "observe_call c i' f s = (a, b, d', u)" for c i' f a b d' u s
  proof -
    obtain x r s1 where c: "call_ref c i' s = (x, r, s1)" by (metis prod_cases3)
    then have "u = s1 \<or> u = set_delivered r s1" using that by (auto simp: observe_call_def Let_def split: if_splits)
    then show ?thesis using fixed_call [OF c] by auto
  qed
  show "rs_fixed (snd (output_item it s)) = rs_fixed s"
  proof -
    obtain a b d' u' where o: "observe_call (fi_call it) (fi_id it) (fi_args it \<noteq> []) (s\<lparr>rs_tools_seen := True\<rparr>) = (a, b, d', u')"
      by (metis prod_cases4)
    then show ?thesis using u [OF o] by (simp add: output_item_def Let_def split_beta)
  qed
  show "rs_fixed (snd (args_fragment i d s)) = rs_fixed s"
  proof -
    obtain a b u' where o: "call_ref i [] s = (a, b, u')" by (metis prod_cases3)
    then show ?thesis using fixed_call [OF o] by (simp add: args_fragment_def stream_args_def Let_def split_beta)
  qed
  show "rs_fixed (snd (rs_terminal inc a b u' s)) = rs_fixed s" for u' by (simp add: rs_terminal_def Let_def)
qed

section \<open>Monitored frames\<close>

text \<open>
  What a target of the converter owes frame by frame; then every feed is accepted, and the pump
  can drive it. The loop does not stop at a terminal frame, so that a monitor has to say what it
  makes of later events.
\<close>

locale framed = acceptor run for run :: "event list \<Rightarrow> 'm \<Rightarrow> 'm option" +
  fixes agrees :: "'m \<Rightarrow> rs \<Rightarrow> bool" and ended :: "'m \<Rightarrow> bool"
  assumes agrees_framer: "agrees m (s\<lparr>rs_framer := f\<rparr>) = agrees m s"
    and frame: "agrees m s \<Longrightarrow> rs_frame fr s = (evs, d, e, s') \<Longrightarrow>
      \<exists>m'. run evs m = Some m' \<and> (e = None \<longrightarrow> agrees m' s' \<and> (d \<longrightarrow> ended m'))"
    and ended_stays: "ended m \<Longrightarrow> run evs m = Some m' \<Longrightarrow> ended m'"
    and terminal_ended: "agrees m s \<Longrightarrow> s_terminal (rs_snap s) \<Longrightarrow> ended m"
    and no_finish: "agrees m s \<Longrightarrow> \<not> s_finish (rs_snap s)"
begin

lemma loop_accepted:
  "agrees m s \<Longrightarrow> run evs m0 = Some m \<Longrightarrow> (d \<longrightarrow> ended m) \<Longrightarrow> rs_loop f evs d s = (evs', d', e, f', s') \<Longrightarrow>
     \<exists>m'. run evs' m0 = Some m' \<and> (e = None \<longrightarrow> agrees m' s' \<and> (d' \<longrightarrow> ended m'))"
proof (induction "length (fr_buf f)" arbitrary: f evs d s m rule: less_induct)
  case less
  obtain g x where n: "frame_next f = (g, x)" by fastforce
  show ?case
  proof (cases x)
    case None
    then show ?thesis using less.prems n by (subst (asm) rs_loop.simps) auto
  next
    case (Some fr)
    obtain es b y u where fs: "rs_frame fr s = (es, b, y, u)" by (cases "rs_frame fr s")
    obtain m1 where m1: "run es m = Some m1" "y = None \<longrightarrow> agrees m1 u \<and> (b \<longrightarrow> ended m1)"
      using frame [OF less.prems(1) fs] by blast
    have r: "run (evs @ es) m0 = Some m1" by (rule run_snoc [OF less.prems(2) m1(1)])
    show ?thesis
    proof (cases y)
      case (Some z)
      then show ?thesis using less.prems(4) n fs r \<open>x = Some fr\<close> by (subst (asm) rs_loop.simps) auto
    next
      case None
      then have "rs_loop g (evs @ es) (d \<or> b) u = (evs', d', e, f', s')"
        using less.prems(4) n fs \<open>x = Some fr\<close> by (subst (asm) rs_loop.simps) auto
      moreover have "length (fr_buf g) < length (fr_buf f)" using n \<open>x = Some fr\<close> frame_next_shorter by blast
      moreover have "d \<or> b \<longrightarrow> ended m1" using None m1 less.prems(3) ended_stays by blast
      ultimately show ?thesis using less.hyps [of g m1 u "evs @ es" "d \<or> b"] m1(2) r None by simp
    qed
  qed
qed

lemma feed_accepted:
  assumes "agrees m s" "feed_rs chunk s = (evs, d, e, s')"
  shows "\<exists>m'. run evs m = Some m' \<and> (e = None \<longrightarrow> agrees m' s' \<and> (d \<longrightarrow> ended m'))"
proof -
  obtain f u where l: "rs_loop (push (rs_framer s) chunk) [] False s = (evs, d, e, f, u)" "s' = u\<lparr>rs_framer := f\<rparr>"
    using assms(2) by (auto simp: feed_rs_def split: prod.splits)
  show ?thesis using loop_accepted [OF assms(1) run_Nil _ l(1)] l(2) agrees_framer by auto
qed

end

definition rs_ops :: "(rs, event) conv_ops" where
  "rs_ops = \<lparr>op_feed = feed_rs, op_snap = rs_snap, op_final = finalize_rs, op_flush = finalize_rs\<rparr>"

sublocale framed \<subseteq> pumped run rs_ops agrees ended
proof
  fix m s b evs d e s'
  assume "agrees m s" "op_feed rs_ops b s = (evs, d, e, s')"
  then show "\<exists>m'. run evs m = Some m' \<and> (e = None \<longrightarrow> agrees m' s' \<and> (d \<longrightarrow> ended m'))"
    using feed_accepted by (simp add: rs_ops_def)
next
  fix m s evs s'
  assume a: "agrees m s" "op_flush rs_ops s = (evs, None, s')"
  then have "s_terminal (rs_snap s)" "evs = []" by (auto simp: rs_ops_def finalize_rs_def split: if_splits)
  then show "\<exists>m'. run evs m = Some m' \<and> ended m'" using terminal_ended [OF a(1)] run_Nil by simp
qed (auto simp: rs_ops_def dest: no_finish)

text \<open>What observing a frame does to the snapshot.\<close>

lemma observe_fixed:
  "rs_target (rs_observe et p s) = rs_target s" "s_finish (rs_snap (rs_observe et p s)) = s_finish (rs_snap s)"
  "et \<notin> {''response.completed'', ''response.incomplete'', ''response.failed'', ''error''} \<Longrightarrow>
     s_terminal (rs_snap (rs_observe et p s)) = s_terminal (rs_snap s)"
  by (simp_all add: rs_observe_def rs_progress_def stream_state Let_def)

lemma observe_blocks [simp]: "rs_blocks m (rs_observe et p s) = rs_blocks m s"
  by (simp add: rs_observe_def rs_progress_def Let_def)

definition terminal_types :: "string set" where
  "terminal_types = {''response.completed'', ''response.incomplete'', ''response.failed'', ''error''}"

lemma handle_eventD:
  "handle_event dd z et p h s = Inr r \<Longrightarrow> \<exists>v. h v s = Inr r"
  by (auto simp: handle_event_def split: sum.splits option.splits)

lemma goingD: "going q = Inr (evs, d, s') \<Longrightarrow> \<not> d \<and> q = (evs, s')"
  by (cases q) (simp add: going_def)

lemma convert_cases:
  assumes c: "convert_event et p s = Inr (evs, d, s')"
  obtains (created) m where "\<not> d" "et \<notin> terminal_types" "s' = capture_response m s"
      "evs = [if rs_target s' = ToOpenAI then EvChat (rs_builder s') role_chunk else EvClaude (CMessageStart (rs_id s') (rs_model s') 0)]"
    | (text_delta) t where "\<not> d" "et \<notin> terminal_types" "rs_text_delta t s = (evs, s')"
    | (item) it where "\<not> d" "et \<notin> terminal_types" "output_item it s = (evs, s')"
    | (args) i a where "\<not> d" "et \<notin> terminal_types" "args_fragment i a s = (evs, s')"
    | (terminal) inc a b u where "d" "rs_terminal inc a b u s = (evs, s')"
    | (ignored) "\<not> d" "et \<notin> terminal_types" "evs = []" "s' = s"
proof -
  consider (cr) "et = ''response.created''" | (td) "et = ''response.output_text.delta''"
    | (oi) "et = ''response.output_item.added'' \<or> et = ''response.output_item.done''"
    | (ar) "et = ''response.function_call_arguments.delta''"
    | (te) "et = ''response.completed'' \<or> et = ''response.incomplete''"
    | (fa) "et = ''response.failed'' \<or> et = ''error''"
    | (no) "et \<notin> terminal_types" "et \<noteq> ''response.created''" "et \<noteq> ''response.output_text.delta''"
        "et \<noteq> ''response.output_item.added''" "et \<noteq> ''response.output_item.done''"
        "et \<noteq> ''response.function_call_arguments.delta''"
    unfolding terminal_types_def by blast
  then show ?thesis
  proof cases
    case cr
    then obtain m where m: "going ([if rs_target (capture_response m s) = ToOpenAI then EvChat (rs_builder (capture_response m s)) role_chunk
        else EvClaude (CMessageStart (rs_id (capture_response m s)) (rs_model (capture_response m s)) 0)], capture_response m s) = Inr (evs, d, s')"
      using handle_eventD [OF c [unfolded convert_event_def if_P [OF cr]]] unfolding Let_def by blast
    show ?thesis by (rule created [of m]) (use goingD [OF m] cr in \<open>auto simp: terminal_types_def\<close>)
  next
    case td
    then have "handle_event dec_text_delta [] et p (\<lambda>t u. going (rs_text_delta t u)) s = Inr (evs, d, s')"
      using c by (simp add: convert_event_def)
    then obtain t where "going (rs_text_delta t s) = Inr (evs, d, s')" by (blast dest: handle_eventD)
    from goingD [OF this] show ?thesis by (intro text_delta [of t]) (use td in \<open>auto simp: terminal_types_def\<close>)
  next
    case oi
    then have "handle_event dec_item_event function_item_zero et p (\<lambda>it u. going (output_item it u)) s = Inr (evs, d, s')"
      using c by (elim disjE) (simp_all add: convert_event_def)
    then obtain it where "going (output_item it s) = Inr (evs, d, s')" by (blast dest: handle_eventD)
    from goingD [OF this] show ?thesis by (intro item [of it]) (use oi in \<open>auto simp: terminal_types_def\<close>)
  next
    case ar
    then have "handle_event dec_args_delta \<lparr>ad_item = [], ad_delta = []\<rparr> et p (\<lambda>a u. going (args_fragment (ad_item a) (ad_delta a) u)) s
        = Inr (evs, d, s')"
      using c by (simp add: convert_event_def)
    then obtain a :: args_delta where "going (args_fragment (ad_item a) (ad_delta a) s) = Inr (evs, d, s')" by (blast dest: handle_eventD)
    from goingD [OF this] show ?thesis by (intro args [of "ad_item a" "ad_delta a"]) (use ar in \<open>auto simp: terminal_types_def\<close>)
  next
    case te
    define h where "h = (\<lambda>(m :: response_meta) u. case rs_terminal (et = ''response.incomplete'') (trunc (ur_input (rm_usage m)))
        (trunc (ur_output (rm_usage m))) (rs_details (rm_usage m)) u of (evs, u1) \<Rightarrow> (Inr (evs, True, u1) :: err + event list \<times> bool \<times> rs))"
    have "handle_event dec_response_event response_meta_zero et p h s = Inr (evs, d, s')"
      using c te unfolding h_def by (elim disjE) (simp_all add: convert_event_def)
    then obtain m where "h m s = Inr (evs, d, s')" by (blast dest: handle_eventD)
    then show ?thesis unfolding h_def by (intro terminal) (auto split: prod.splits)
  next
    case fa
    have "handle_event dec_failure failure_zero et p (\<lambda>ev u. Inl (failure_error ev)) s = Inr (evs, d, s')"
      using c fa by (elim disjE) (simp_all add: convert_event_def)
    then show ?thesis by (auto dest: handle_eventD)
  next
    case no
    then have "(if p \<noteq> [] \<and> \<not> json_valid p then Inl (malformed_event et p) else Inr ([], False, s)) = (Inr (evs, d, s') :: err + event list \<times> bool \<times> rs)"
      using c by (simp add: convert_event_def terminal_types_def)
    then show ?thesis by (intro ignored) (use no(1) in \<open>auto split: if_splits\<close>)
  qed
qed

lemma convert_fixed: "convert_event et p s = Inr (evs, d, s') \<Longrightarrow> rs_fixed s' = rs_fixed s"
  by (erule convert_cases) (metis fixed_more(4) fixed_handlers snd_conv)+

lemma frame_cases:
  assumes "rs_frame fr s = (evs, d, e, s')" "rs_target s \<noteq> ToResponses"
  obtains (bad) y where "evs = []" "e = Some y"
    | (good) et p s1 where "e = None" "convert_event et p s = Inr (evs, d, s1)" "s' = rs_observe et p s1"
  using assms by (cases fr) (auto simp: rs_frame_def split: sum.splits)

definition claude_fed :: "block_monitor \<Rightarrow> rs \<Rightarrow> bool" where
  "claude_fed m s =
     (rs_target s = ToClaude \<and> (bl_stopped m \<or> rs_blocks m s) \<and> (s_terminal (rs_snap s) \<longrightarrow> bl_stopped m)
      \<and> \<not> s_finish (rs_snap s))"

lemma claude_frame:
  assumes a: "claude_fed m s" and f: "rs_frame fr s = (evs, d, e, s')"
  shows "\<exists>m'. blocks_watch evs m = Some m' \<and> (e = None \<longrightarrow> claude_fed m' s' \<and> (d \<longrightarrow> bl_stopped m'))"
proof -
  have t: "rs_target s = ToClaude" using a by (simp add: claude_fed_def)
  have "rs_target s \<noteq> ToResponses" using t by simp
  with f show ?thesis
  proof (cases rule: frame_cases)
    case (good et p s1)
    have fx: "rs_target s1 = ToClaude" "rs_snap s1 = rs_snap s" using convert_fixed [OF good(2)] t by (simp_all add: rs_fixed_def)
    have step: "\<exists>m'. blocks_watch evs m = Some m' \<and> (bl_stopped m' \<or> rs_blocks m' s1) \<and> (d \<or> et \<in> terminal_types \<longrightarrow> bl_stopped m')
        \<and> (bl_stopped m \<longrightarrow> bl_stopped m')"
    proof (cases "bl_stopped m")
      case True
      then show ?thesis using blocks_stopped by blast
    next
      case False
      then have b: "rs_blocks m s" using a by (simp add: claude_fed_def)
      from good(2) show ?thesis
      proof (cases rule: convert_cases)
        case (created c)
        then show ?thesis using b fx False
          by (intro exI [of _ m]) (simp add: block_watch_def capture_response_def)
      next
        case (text_delta x)
        then show ?thesis using blocks_text [OF b t] False by blast
      next
        case (item it)
        then show ?thesis using blocks_item [OF b t] False by blast
      next
        case (args i x)
        then show ?thesis using blocks_args [OF b t] False by blast
      next
        case (terminal inc i o' u)
        then show ?thesis using blocks_terminal [OF b t] False by blast
      next
        case ignored
        then show ?thesis using b False by auto
      qed
    qed
    then obtain m' where m': "blocks_watch evs m = Some m'" "bl_stopped m' \<or> rs_blocks m' s1"
        "d \<or> et \<in> terminal_types \<longrightarrow> bl_stopped m'" "bl_stopped m \<longrightarrow> bl_stopped m'" by blast
    have "s_terminal (rs_snap s') \<longrightarrow> bl_stopped m'"
      using observe_fixed(3) [of et p s1] good(3) a m'(3,4) fx by (auto simp: claude_fed_def terminal_types_def)
    then show ?thesis using m' good a fx by (auto simp: claude_fed_def observe_fixed)
  qed simp
qed

lemma stopped_stays: "bl_stopped m \<Longrightarrow> blocks_watch evs m = Some m' \<Longrightarrow> bl_stopped m'"
  using blocks_stopped by fastforce

interpretation claude_rs: framed blocks_watch claude_fed bl_stopped
proof
  show "claude_fed m (s\<lparr>rs_framer := f\<rparr>) = claude_fed m s" for m s f by (simp add: claude_fed_def)
  show "claude_fed m s \<Longrightarrow> rs_frame fr s = (evs, d, e, s') \<Longrightarrow>
      \<exists>m'. blocks_watch evs m = Some m' \<and> (e = None \<longrightarrow> claude_fed m' s' \<and> (d \<longrightarrow> bl_stopped m'))" for m s fr evs d e s'
    by (rule claude_frame)
  show "bl_stopped m \<Longrightarrow> blocks_watch evs m = Some m' \<Longrightarrow> bl_stopped m'" for m evs m' by (rule stopped_stays)
qed (simp_all add: blocks_append claude_fed_def)

section \<open>Chat Completions clients\<close>

text \<open>
  Calls are opened at indices 0, 1, 2 and so on, an identifier is announced once, arguments go to
  calls that are open; and whether a finish reason was sent.
\<close>

record call_monitor =
  kl_next :: int
  kl_ids :: "string set"
  kl_finished :: bool

definition calls_start :: call_monitor where
  "calls_start = \<lparr>kl_next = 0, kl_ids = {}, kl_finished = False\<rparr>"

fun call_step :: "chat_delta \<Rightarrow> call_monitor \<Rightarrow> call_monitor option" where
  "call_step (ChatToolOpen k i _ _) m =
     (if k = kl_next m \<and> (i = [] \<or> i \<notin> kl_ids m) then Some (m\<lparr>kl_next := k + 1, kl_ids := insert i (kl_ids m)\<rparr>) else None)"
| "call_step (ChatToolArgs k _) m = (if 0 \<le> k \<and> k < kl_next m then Some m else None)"
| "call_step _ m = Some m"

definition call_watch :: "event \<Rightarrow> call_monitor \<Rightarrow> call_monitor option" where
  "call_watch e m =
     (case e of
        EvChat _ (ChatChunk d fin _) \<Rightarrow> map_option (\<lambda>m. if fin = None then m else m\<lparr>kl_finished := True\<rparr>) (call_step d m)
      | _ \<Rightarrow> None)"

fun calls_watch :: "event list \<Rightarrow> call_monitor \<Rightarrow> call_monitor option" where
  "calls_watch [] m = Some m"
| "calls_watch (e # es) m = Option.bind (call_watch e m) (calls_watch es)"

lemma calls_append: "calls_watch (xs @ ys) m = Option.bind (calls_watch xs m) (calls_watch ys)"
  by (induction xs arbitrary: m) (auto simp: Option.bind_assoc split: Option.bind_split)

lemma call_step_finished: "call_step d m = Some m' \<Longrightarrow> kl_finished m' = kl_finished m"
  by (induction d m rule: call_step.induct) (auto split: if_splits)

lemma finished_stays: "calls_watch evs m = Some m' \<Longrightarrow> kl_finished m \<Longrightarrow> kl_finished m'"
proof (induction evs arbitrary: m)
  case (Cons e evs)
  then obtain m1 where m1: "call_watch e m = Some m1" "calls_watch evs m1 = Some m'" by (auto split: bind_splits)
  then have "kl_finished m1" using Cons.prems(2) call_step_finished
    by (fastforce simp: call_watch_def split: event.splits chat_ev.splits if_splits)
  then show ?case using Cons.IH m1(2) by blast
qed simp

definition rs_numbered :: "call_monitor \<Rightarrow> rs \<Rightarrow> bool" where
  "rs_numbered m s =
     (tracker_ok s \<and> kl_next m = rs_next s \<and> map cs_index (rs_heap s) = map int [0..<length (rs_heap s)]
      \<and> rs_next s = int (length (rs_heap s)) \<and> kl_ids m \<subseteq> insert [] (dom (map_of (rs_calls s))))"

lemma rs_numbered_more [simp]:
  "rs_numbered m (s\<lparr>rs_snap := a\<rparr>) = rs_numbered m s" "rs_numbered m (s\<lparr>rs_seen := b\<rparr>) = rs_numbered m s"
  "rs_numbered m (s\<lparr>rs_tools_seen := c\<rparr>) = rs_numbered m s" "rs_numbered m (s\<lparr>rs_framer := f\<rparr>) = rs_numbered m s"
  "rs_numbered m (capture_response u s) = rs_numbered m s" "rs_numbered (m\<lparr>kl_finished := b'\<rparr>) s = rs_numbered m s"
  "r < length (rs_heap s) \<Longrightarrow> rs_numbered m (set_delivered r s) = rs_numbered m s"
  by (simp_all add: rs_numbered_def tracker_ok_def capture_response_def)

lemma numbered_call:
  assumes a: "rs_numbered m s" and c: "call_ref key twin s = (first, r, s1)" and i: "idx = cs_index (rs_heap s1 ! r)"
  shows "if first then call_step (ChatToolOpen idx key n x) m = Some (m\<lparr>kl_next := idx + 1, kl_ids := insert key (kl_ids m)\<rparr>)
        \<and> rs_numbered (m\<lparr>kl_next := idx + 1, kl_ids := insert key (kl_ids m)\<rparr>) s1
      else rs_numbered m s1 \<and> call_step (ChatToolArgs idx y) m = Some m"
proof -
  have ok: "tracker_ok s" using a by (simp add: rs_numbered_def)
  note spec = call_ref_spec [OF ok c]
  obtain cs where s1: "s1 = s\<lparr>rs_calls := cs, rs_heap := rs_heap s @ (if first then [\<lparr>cs_index = rs_next s, cs_delivered = False\<rparr>] else []),
      rs_next := rs_next s + (if first then 1 else 0)\<rparr>" using spec(1) by blast
  have D: "[] \<notin> dom (map_of (rs_calls s))" using ok by (auto simp: tracker_ok_def)
  show ?thesis
  proof (cases first)
    case True
    then have idx: "idx = rs_next s" using i spec(3) s1 by simp
    moreover have "key = [] \<or> key \<notin> kl_ids m" using spec(4) True a by (auto simp: rs_numbered_def)
    moreover have "insert key (kl_ids m) \<subseteq> insert [] (dom (map_of (rs_calls s1)))"
      using spec(5) a by (auto simp: rs_numbered_def)
    moreover have "map cs_index (rs_heap s1) = map int [0..<length (rs_heap s1)] \<and> rs_next s1 = int (length (rs_heap s1))"
      using a True s1 by (simp add: rs_numbered_def)
    ultimately show ?thesis using a spec(7) s1 True by (simp add: rs_numbered_def)
  next
    case False
    have "rs_numbered m s1" using a s1 False spec(5,7) by (auto simp: rs_numbered_def)
    moreover have "idx = int r"
    proof -
      have "idx = map cs_index (rs_heap s1) ! r" using i spec(2) by simp
      also have "\<dots> = map int [0..<length (rs_heap s)] ! r" using a s1 False by (simp add: rs_numbered_def)
      finally show ?thesis using spec(2) s1 False by simp
    qed
    moreover have "kl_next m = int (length (rs_heap s1))" using a s1 False by (simp add: rs_numbered_def)
    ultimately show ?thesis using False spec(2) by simp
  qed
qed

lemma numbered_item:
  assumes a: "rs_numbered m s" and t: "rs_target s = ToOpenAI" and e: "output_item it s = (evs, s')"
  shows "\<exists>m'. calls_watch evs m = Some m' \<and> rs_numbered m' s'"
proof (cases "fi_type it = ''function_call''")
  case False
  then show ?thesis using a e by (auto simp: output_item_def)
next
  case True
  let ?s = "s\<lparr>rs_tools_seen := True\<rparr>"
  have a': "rs_numbered m ?s" using a by simp
  obtain first r s1 where c: "call_ref (fi_call it) (fi_id it) ?s = (first, r, s1)" by (metis prod_cases3)
  define idx where "idx = cs_index (rs_heap s1 ! r)"
  define deliver where "deliver = (fi_args it \<noteq> [] \<and> \<not> cs_delivered (rs_heap s1 ! r))"
  define u where "u = (if deliver then set_delivered r s1 else s1)"
  have ok: "tracker_ok ?s" using a' by (simp add: rs_numbered_def)
  have len: "r < length (rs_heap s1)" using call_ref_spec(2) [OF ok c] .
  have "rs_target s1 = ToOpenAI" using call_ref_spec(1) [OF ok c] t by auto
  then have tu: "rs_target u = ToOpenAI" by (simp add: u_def)
  have nu: "rs_numbered m' u = rs_numbered m' s1" for m' using len by (simp add: u_def)
  have ob: "observe_call (fi_call it) (fi_id it) (fi_args it \<noteq> []) ?s = (first, idx, deliver, u)"
    using c by (simp add: observe_call_def idx_def deliver_def u_def Let_def)
  note n = numbered_call [OF a' c idx_def]
  have ev: "evs = (if first then [rs_chat (ChatToolOpen idx (fi_call it) (fi_name it) (if deliver then fi_args it else [])) u]
      else if deliver then [rs_chat (ChatToolArgs idx (fi_args it)) u] else [])" "s' = u"
    using e True ob tu by (auto simp: output_item_def split: if_splits)
  show ?thesis
  proof (cases first)
    case True
    then show ?thesis using n [of "fi_name it" "if deliver then fi_args it else []"] ev nu
      by (auto simp: call_watch_def rs_chat_def delta_chunk_def)
  next
    case False
    then show ?thesis using n [where y = "fi_args it"] ev nu
      by (intro exI [of _ m]) (auto simp: call_watch_def rs_chat_def delta_chunk_def)
  qed
qed

lemma numbered_args:
  assumes a: "rs_numbered m s" and t: "rs_target s = ToOpenAI" and e: "args_fragment item delta s = (evs, s')"
  shows "\<exists>m'. calls_watch evs m = Some m' \<and> rs_numbered m' s'"
proof -
  obtain first r s1 where c: "call_ref item [] s = (first, r, s1)" by (metis prod_cases3)
  define idx where "idx = cs_index (rs_heap s1 ! r)"
  define u where "u = set_delivered r s1"
  have ok: "tracker_ok s" using a by (simp add: rs_numbered_def)
  have len: "r < length (rs_heap s1)" using call_ref_spec(2) [OF ok c] .
  have "rs_target s1 = ToOpenAI" using call_ref_spec(1) [OF ok c] t by auto
  then have tu: "rs_target u = ToOpenAI" by (simp add: u_def)
  have nu: "rs_numbered m' (u\<lparr>rs_tools_seen := True\<rparr>) = rs_numbered m' s1" for m' using len by (simp add: u_def)
  have ev: "evs = [rs_chat (if first then ChatToolOpen idx item [] delta else ChatToolArgs idx delta) (u\<lparr>rs_tools_seen := True\<rparr>)]"
      "s' = u\<lparr>rs_tools_seen := True\<rparr>"
    using e c tu by (auto simp: args_fragment_def stream_args_def Let_def u_def [symmetric] idx_def [symmetric])
  show ?thesis using numbered_call [OF a c idx_def, of "[]" delta delta] ev nu
    by (cases first) (auto simp: call_watch_def rs_chat_def delta_chunk_def)
qed

definition calls_fed :: "call_monitor \<Rightarrow> rs \<Rightarrow> bool" where
  "calls_fed m s =
     (rs_target s = ToOpenAI \<and> rs_numbered m s \<and> (s_terminal (rs_snap s) \<longrightarrow> kl_finished m) \<and> \<not> s_finish (rs_snap s))"

lemma observe_numbered [simp]: "rs_numbered m (rs_observe et p s) = rs_numbered m s"
  by (simp add: rs_observe_def rs_progress_def Let_def)

lemma reason_given: "terminal_reason t ''tool_calls'' (cc_finish_from_response_status st) \<noteq> []"
  by (simp add: terminal_reason_def cc_finish_from_response_status_def)

lemma calls_frame:
  assumes a: "calls_fed m s" and f: "rs_frame fr s = (evs, d, e, s')"
  shows "\<exists>m'. calls_watch evs m = Some m' \<and> (e = None \<longrightarrow> calls_fed m' s' \<and> (d \<longrightarrow> kl_finished m'))"
proof -
  have t: "rs_target s = ToOpenAI" and n: "rs_numbered m s" using a by (simp_all add: calls_fed_def)
  have "rs_target s \<noteq> ToResponses" using t by simp
  with f show ?thesis
  proof (cases rule: frame_cases)
    case (good et p s1)
    have fx: "rs_target s1 = ToOpenAI" "rs_snap s1 = rs_snap s" using convert_fixed [OF good(2)] t by (simp_all add: rs_fixed_def)
    have step: "\<exists>m'. calls_watch evs m = Some m' \<and> rs_numbered m' s1 \<and> (d \<or> et \<in> terminal_types \<longrightarrow> kl_finished m')"
      using good(2)
    proof (cases rule: convert_cases)
      case (created c)
      then show ?thesis using n fx by (intro exI [of _ m]) (simp add: call_watch_def role_chunk_def delta_chunk_def)
    next
      case (text_delta x)
      then show ?thesis using n t
        by (intro exI [of _ m]) (auto simp: rs_text_delta_def rs_chat_def delta_chunk_def call_watch_def)
    next
      case (item it)
      then show ?thesis using numbered_item [OF n t] by blast
    next
      case (args i x)
      then show ?thesis using numbered_args [OF n t] by blast
    next
      case (terminal inc i o' u)
      then show ?thesis using n t
        by (intro exI [of _ "m\<lparr>kl_finished := True\<rparr>"]) (auto simp: rs_terminal_def Let_def call_watch_def finish_chunk_def reason_given)
    next
      case ignored
      then show ?thesis using n by auto
    qed
    then obtain m' where m': "calls_watch evs m = Some m'" "rs_numbered m' s1" "d \<or> et \<in> terminal_types \<longrightarrow> kl_finished m'" by blast
    have "kl_finished m \<longrightarrow> kl_finished m'" using finished_stays [OF m'(1)] by blast
    then have "s_terminal (rs_snap s') \<longrightarrow> kl_finished m'"
      using observe_fixed(3) [of et p s1] good(3) a m'(3) fx by (auto simp: calls_fed_def terminal_types_def)
    then show ?thesis using m' good a fx by (auto simp: calls_fed_def observe_fixed)
  qed simp
qed

interpretation chat_rs: framed calls_watch calls_fed kl_finished
proof
  show "calls_fed m (s\<lparr>rs_framer := f\<rparr>) = calls_fed m s" for m s f by (simp add: calls_fed_def)
  show "calls_fed m s \<Longrightarrow> rs_frame fr s = (evs, d, e, s') \<Longrightarrow>
      \<exists>m'. calls_watch evs m = Some m' \<and> (e = None \<longrightarrow> calls_fed m' s' \<and> (d \<longrightarrow> kl_finished m'))" for m s fr evs d e s'
    by (rule calls_frame)
  show "kl_finished m \<Longrightarrow> calls_watch evs m = Some m' \<Longrightarrow> kl_finished m'" for m evs m' by (rule finished_stays)
qed (simp_all add: calls_append calls_fed_def)

end
