(* ===== verification/Responses_Served.thy ===== *)
theory Responses_Served
  imports Responses_Contract
begin

text \<open>
  What the clients of a Responses upstream receive: whole streams served by the pump, single tool
  calls, frames passed through, and what follows a terminal frame.
\<close>

section \<open>The run over frames\<close>

fun rs_run :: "frame list \<Rightarrow> rs \<Rightarrow> event list \<times> bool \<times> err option \<times> rs" where
  "rs_run [] s = ([], False, None, s)"
| "rs_run (fr # frs) s =
     (case rs_frame fr s of
        (es, _, Some e, s') \<Rightarrow> (es, False, Some e, s')
      | (es, d, None, s') \<Rightarrow> (case rs_run frs s' of (es', d', e, s'') \<Rightarrow> (es @ es', e = None \<and> (d \<or> d'), e, s'')))"

lemma rs_loop_run:
  "rs_loop f evs d s = (evs', d', e, f', s') \<Longrightarrow>
     \<exists>es b. rs_run (snd (drain f)) s = (es, b, e, s') \<and> evs' = evs @ es \<and> d' = (e = None \<and> (d \<or> b))"
proof (induction "length (fr_buf f)" arbitrary: f evs d s rule: less_induct)
  case less
  obtain g x where n: "frame_next f = (g, x)" by fastforce
  show ?case
  proof (cases x)
    case None
    then have "drain f = (g, [])" using n by (subst drain.simps) simp
    then show ?thesis using less.prems n None by (subst (asm) rs_loop.simps) auto
  next
    case (Some fr)
    then have dr: "snd (drain f) = fr # snd (drain g)" using n by (subst drain.simps) (simp add: split_beta Let_def)
    obtain es b y u where fs: "rs_frame fr s = (es, b, y, u)" by (cases "rs_frame fr s")
    show ?thesis
    proof (cases y)
      case (Some z)
      then show ?thesis using less.prems n fs dr \<open>x = Some fr\<close> by (subst (asm) rs_loop.simps) auto
    next
      case None
      then have l: "rs_loop g (evs @ es) (d \<or> b) u = (evs', d', e, f', s')"
        using less.prems n fs \<open>x = Some fr\<close> by (subst (asm) rs_loop.simps) auto
      have "length (fr_buf g) < length (fr_buf f)" using n \<open>x = Some fr\<close> frame_next_shorter by blast
      from less.hyps [OF this l] show ?thesis using dr fs None by auto
    qed
  qed
qed

lemma rs_run_failed: "rs_run frs s = (evs, d, Some e, s') \<Longrightarrow> \<not> d"
  by (cases frs) (auto split: prod.splits option.splits)

lemma feed_rs_run:
  assumes "feed_rs chunk s = (evs, d, e, s')"
  shows "\<exists>u. rs_run (snd (feed_framer (rs_framer s) chunk)) s = (evs, d, e, u) \<and> s' = u\<lparr>rs_framer := rs_framer s'\<rparr>"
proof -
  obtain f u where l: "rs_loop (push (rs_framer s) chunk) [] False s = (evs, d, e, f, u)" "s' = u\<lparr>rs_framer := f\<rparr>"
    using assms by (auto simp: feed_rs_def split: prod.splits)
  show ?thesis using rs_loop_run [OF l(1)] l(2) rs_run_failed by (cases e) (fastforce simp: feed_framer_def)+
qed

section \<open>Native clients\<close>

definition failing :: "string \<Rightarrow> bool" where
  "failing etype = (etype = ''response.failed'' \<or> etype = ''error'')"

definition ending_type :: "string \<Rightarrow> bool" where
  "ending_type etype = (etype = ''response.completed'' \<or> etype = ''response.incomplete'')"

lemma observe_target [simp]: "rs_target (rs_observe et p s) = rs_target s"
  by (simp add: rs_observe_def rs_progress_def Let_def)

lemma run_native:
  "rs_target s = ToResponses \<Longrightarrow> \<forall>(t, _) \<in> set frs. \<not> failing t \<Longrightarrow>
     \<exists>u. rs_run frs s = (map (\<lambda>(_, _, raw). EvRaw raw) frs, list_ex (\<lambda>(t, _). ending_type t) frs, None, u)"
proof (induction frs arbitrary: s)
  case (Cons fr frs)
  obtain t p raw where fr: "fr = (t, p, raw)" by (cases fr)
  have f: "rs_frame fr s = ([EvRaw raw], ending_type t, None, rs_observe t p s)"
    using Cons.prems fr by (auto simp: rs_frame_def passthrough_event_def failing_def ending_type_def)
  show ?case using Cons.IH [of "rs_observe t p s"] Cons.prems f fr by fastforce
qed simp

section \<open>One call\<close>

text \<open>An announced call, the fragments of its arguments, and the item event that ends it.\<close>

fun fragments :: "string \<Rightarrow> string list \<Rightarrow> rs \<Rightarrow> event list \<times> rs" where
  "fragments i [] s = ([], s)"
| "fragments i (d # ds) s = (let (e1, s1) = args_fragment i d s; (e2, s2) = fragments i ds s1 in (e1 @ e2, s2))"

definition call_story :: "function_item \<Rightarrow> string list \<Rightarrow> rs \<Rightarrow> event list" where
  "call_story it ds s =
     (let (e1, s1) = output_item (it\<lparr>fi_args := []\<rparr>) s; (e2, s2) = fragments (fi_id it) ds s1; (e3, _) = output_item it s2
      in e1 @ e2 @ e3)"

definition arguments_of :: "function_item \<Rightarrow> string list \<Rightarrow> string list" where
  "arguments_of it ds = (if ds \<noteq> [] then ds else if fi_args it = [] then [] else [fi_args it])"

text \<open>A call known under both identifiers.\<close>

definition knows :: "rs \<Rightarrow> function_item \<Rightarrow> int \<Rightarrow> bool \<Rightarrow> bool" where
  "knows s it i dl =
     (\<exists>r. map_of (rs_calls s) (fi_id it) = Some r \<and> map_of (rs_calls s) (fi_call it) = (if fi_call it = [] then None else Some r)
        \<and> r < length (rs_heap s) \<and> rs_heap s ! r = \<lparr>cs_index = i, cs_delivered = dl\<rparr>)"

definition call_args :: "rs \<Rightarrow> int \<Rightarrow> string \<Rightarrow> event" where
  "call_args s i d = (if rs_target s = ToOpenAI then rs_chat (ChatToolArgs i d) s else EvClaude (CBlockDelta i (DJson d)))"

lemma known_fragment:
  assumes k: "knows s it i dl" and i: "fi_id it \<noteq> []"
  shows "\<exists>s'. args_fragment (fi_id it) d s = ([call_args s i d], s') \<and> knows s' it i True
    \<and> rs_target s' = rs_target s \<and> rs_builder s' = rs_builder s"
proof -
  obtain r where r: "map_of (rs_calls s) (fi_id it) = Some r"
      "map_of (rs_calls s) (fi_call it) = (if fi_call it = [] then None else Some r)"
      "r < length (rs_heap s)" "rs_heap s ! r = \<lparr>cs_index = i, cs_delivered = dl\<rparr>"
    using k by (auto simp: knows_def)
  have "args_fragment (fi_id it) d s = ([call_args s i d],
      if rs_target s = ToOpenAI then (set_delivered r s)\<lparr>rs_tools_seen := True\<rparr> else set_delivered r s)"
    using r by (simp add: args_fragment_def stream_args_def call_ref_def bind_call_def call_args_def rs_chat_def
        rs_builder_def set_delivered_def Let_def)
  moreover have "knows (set_delivered r s) it i True" using r by (auto simp: knows_def set_delivered_def)
  then have "knows ((set_delivered r s)\<lparr>rs_tools_seen := True\<rparr>) it i True" by (simp add: knows_def)
  ultimately show ?thesis using \<open>knows (set_delivered r s) it i True\<close>
    by (auto simp: set_delivered_def rs_builder_def)
qed

lemma known_fragments:
  assumes "fi_id it \<noteq> []"
  shows "knows s it i dl \<Longrightarrow> \<exists>s'. fragments (fi_id it) ds s = (map (call_args s i) ds, s') \<and> knows s' it i (dl \<or> ds \<noteq> [])
    \<and> rs_target s' = rs_target s \<and> rs_builder s' = rs_builder s"
proof (induction ds arbitrary: s dl)
  case (Cons d ds)
  obtain s1 where s1: "args_fragment (fi_id it) d s = ([call_args s i d], s1)" "knows s1 it i True"
      "rs_target s1 = rs_target s" "rs_builder s1 = rs_builder s"
    using known_fragment [OF Cons.prems assms] by blast
  obtain s2 where s2: "fragments (fi_id it) ds s1 = (map (call_args s1 i) ds, s2)" "knows s2 it i True"
      "rs_target s2 = rs_target s1" "rs_builder s2 = rs_builder s1"
    using Cons.IH [OF s1(2)] by auto
  have "call_args s1 i = call_args s i" using s1 by (simp add: call_args_def rs_chat_def fun_eq_iff)
  then show ?case using s1 s2 by simp
qed simp

lemma known_item:
  assumes k: "knows s it i dl" and t: "fi_type it = ''function_call''" "fi_id it \<noteq> []"
  shows "fst (output_item it s) = (if fi_args it \<noteq> [] \<and> \<not> dl then [call_args s i (fi_args it)] else [])"
proof -
  obtain r where r: "map_of (rs_calls s) (fi_id it) = Some r"
      "map_of (rs_calls s) (fi_call it) = (if fi_call it = [] then None else Some r)"
      "r < length (rs_heap s)" "rs_heap s ! r = \<lparr>cs_index = i, cs_delivered = dl\<rparr>"
    using k by (auto simp: knows_def)
  show ?thesis using r t
    by (simp add: output_item_def observe_call_def call_ref_def bind_call_def call_args_def rs_chat_def rs_builder_def
        set_delivered_def Let_def)
qed

lemma new_item:
  assumes ok: "tracker_ok s" and t: "fi_type it = ''function_call''" "fi_id it \<noteq> []"
    and n: "fi_call it \<notin> fst ` set (rs_calls s)" "fi_id it \<notin> fst ` set (rs_calls s)"
  shows "\<exists>s'. output_item (it\<lparr>fi_args := []\<rparr>) s =
      ((if rs_target s = ToOpenAI then [rs_chat (ChatToolOpen (rs_next s) (fi_call it) (fi_name it) []) s]
        else map (\<lambda>k. EvClaude (CBlockStop k)) (rs_open s) @ [EvClaude (CBlockStart (rs_next s) (BTool (fi_call it) (fi_name it)))]), s')
    \<and> knows s' it (rs_next s) False \<and> rs_target s' = rs_target s \<and> rs_builder s' = rs_builder s"
proof -
  let ?s = "s\<lparr>rs_tools_seen := True\<rparr>"
  obtain first r s1 where c: "call_ref (fi_call it) (fi_id it) ?s = (first, r, s1)" by (metis prod_cases3)
  have ok': "tracker_ok ?s" using ok by (simp add: tracker_ok_def)
  note spec = call_ref_spec [OF ok' c]
  have f: "first" using spec(4) n by (simp add: dom_map_of_conv_image_fst)
  then obtain cs where s1: "s1 = ?s\<lparr>rs_calls := cs, rs_heap := rs_heap s @ [\<lparr>cs_index = rs_next s, cs_delivered = False\<rparr>],
      rs_next := rs_next s + 1\<rparr>" using spec(1) by auto
  have r: "r = length (rs_heap s)" using spec(3) [OF f] by simp
  have nil: "[] \<notin> dom (map_of (rs_calls s1))" using spec(7) by (auto simp: tracker_ok_def)
  have k: "knows s1 it (rs_next s) False"
    unfolding knows_def using spec(6) [of "fi_id it"] spec(6) [of "fi_call it"] t(2) r s1 nil
    by (intro exI [of _ r]) (auto simp: domIff)
  have "knows (s1\<lparr>rs_open := os, rs_text_open := b\<rparr>) it (rs_next s) False"
    "knows (s1\<lparr>rs_text_open := b, rs_open := os\<rparr>) it (rs_next s) False" "knows (s1\<lparr>rs_open := os\<rparr>) it (rs_next s) False" for os b
    using k by (simp_all add: knows_def)
  then show ?thesis using c f s1 r t k
    by (auto simp: output_item_def observe_call_def open_call_def close_open_blocks_def rs_chat_def rs_builder_def Let_def)
qed

section \<open>Properties\<close>

text \<open>A stream that is whole after one reading.\<close>

definition at_ease :: "(rs, event) pump_env" where
  "at_ease = \<lparr>px_ops = rs_ops, px_limits = \<lparr>lm_first = 4, lm_idle = 3, lm_total = 9, lm_grace = 2\<rparr>,
     px_max = 4096, px_sink = (\<lambda>_ _. None)\<rparr>"

definition one_reading :: "string \<Rightarrow> reading" where
  "one_reading payload = \<lparr>rd_payload = payload, rd_msg = [], rd_closed = False, rd_err = None, rd_cause = []\<rparr>"

lemma emit_never_fails: "\<exists>s'. emit_all (\<lambda>_ _. None) evs s = (None, s')"
  by (induction evs arbitrary: s) auto

lemma whole_in_one:
  assumes f: "feed_rs payload c = (evs, True, None, c')" and b: "length payload \<le> 4096"
  shows "p_over (pump_run at_ease [one_reading payload] (start_pump 4 c))
    \<and> clean_end (p_acts (pump_run at_ease [one_reading payload] (start_pump 4 c)))"
proof -
  let ?s = "count_bytes payload (start_pump 4 c) :: (rs, event) pump"
  let ?o = "observe_progress (px_limits at_ease) (rs_snap c') (?s\<lparr>p_conv := c'\<rparr>)"
  obtain u where u: "emit_all (\<lambda>_ _. None) evs ?o = (None, u)" using emit_never_fails by blast
  have "live_pump ?o" by (simp add: live_start)
  then have l: "live_pump (u\<lparr>p_done := True\<rparr>)" using live_emit [OF u] by simp
  have pc: "p_conv ?s = c" by (simp add: count_bytes_def start_pump_def)
  have c: "convert at_ease (one_reading payload) ?s = (Broke, u\<lparr>p_done := True\<rparr>)"
    using f u pc by (simp add: convert_def at_ease_def one_reading_def rs_ops_def Let_def)
  have t: "turn at_ease (one_reading payload) (start_pump 4 c) = (Broke, u\<lparr>p_done := True\<rparr>)"
    using c b by (simp add: turn_def one_reading_def at_ease_def count_bytes_def start_pump_def)
  have r: "pump_run at_ease [one_reading payload] (start_pump 4 c) = deferred (log_done ''terminal'' False (u\<lparr>p_done := True\<rparr>))"
    using t by (simp add: pump_turn_def after_loop_def one_reading_def) (simp add: start_pump_def)
  have "concluded (log_done ''terminal'' False (u\<lparr>p_done := True\<rparr>))" by (rule concluded_log [OF l]) simp
  then show ?thesis unfolding r by (auto simp: concluded_def deferred_def close_streams_def clean_end_def)
qed

definition whole_sample :: "(string \<times> gv) list" where
  "whole_sample = [(''response.created'', GMap []), (''response.completed'', GMap [])]"

lemma whole_runs:
  "let (_, d, e, _) = rs_run (map (\<lambda>(n, v). (n, marshal v, [])) whole_sample) (new_rs ''claude'');
       (_, d', e', _) = rs_run (map (\<lambda>(n, v). (n, marshal v, [])) whole_sample) (new_rs ''openai'')
   in d \<and> e = None \<and> d' \<and> e' = None"
  by code_simp

lemma whole_served:
  assumes "source = ''claude'' \<or> source = ''openai''"
  shows "\<exists>p k. p = pump_run at_ease [one_reading (render_events whole_sample)] (start_pump 4 (new_rs source))
    \<and> system at_ease 9 4 (new_rs source) p k \<and> p_over p \<and> clean_end (p_acts p)"
proof -
  have "\<forall>(n, v) \<in> set whole_sample. plain_name n \<and> wf_gv v"
    by (simp add: whole_sample_def plain_name_def ascii_space_def byte_def)
  from feed_events [OF _ this, of "new_framer False"]
  have fr: "snd (feed_framer (rs_framer (new_rs source)) (render_events whole_sample)) = map (\<lambda>(n, v). (n, marshal v, [])) whole_sample"
    using assms by (auto simp: new_rs_def new_framer_def idle_def case_prod_unfold)
  obtain es d e s' where f: "feed_rs (render_events whole_sample) (new_rs source) = (es, d, e, s')"
    by (cases "feed_rs (render_events whole_sample) (new_rs source)")
  have "d \<and> e = None" using feed_rs_run [OF f] whole_runs fr assms by (auto simp: Let_def split_beta)
  moreover have "length (render_events whole_sample) \<le> 4096" by code_simp
  ultimately have "p_over (pump_run at_ease [one_reading (render_events whole_sample)] (start_pump 4 (new_rs source)))
    \<and> clean_end (p_acts (pump_run at_ease [one_reading (render_events whole_sample)] (start_pump 4 (new_rs source))))"
    using f by (intro whole_in_one) simp_all
  then show ?thesis using quiet_system [of "[one_reading (render_events whole_sample)]" at_ease 9 4 "new_rs source"]
    by (auto simp: one_reading_def)
qed

text \<open>
  C3. An Anthropic client of a Responses upstream is served whole: whatever the upstream sends,
  whatever the timers and the host do and in whatever order, these rules hold up to message_stop:
  blocks start at 0, 1, 2 and so on, only when none is open; text goes to the open text block;
  arguments go to the block of a call that was started, which may be stopped already; stops go to
  the open block; message_delta and message_stop come with no block open. A stream that is closed
  without an error has delivered message_stop. What is sent after message_stop is not constrained,
  nor is message_start, which comes as the upstream's response.created does.
\<close>

theorem responses_upstream_claude_client:
  assumes "system x bound d (new_rs ''claude'') p k" "px_ops x = rs_ops"
  shows "case blocks_watch (delivered (p_acts p)) blocks_start of
      None \<Rightarrow> False
    | Some m \<Rightarrow> p_over p \<and> clean_end (p_acts p) \<longrightarrow> bl_stopped m"
proof -
  have "claude_fed blocks_start (new_rs ''claude'')"
    by (simp add: claude_fed_def rs_blocks_def blocks_start_def new_rs_def tracker_ok_def target_of_def snapshot_zero_def)
  then show ?thesis using claude_rs.system_accounted [OF assms] by (fastforce simp: accounted_for_def)
qed

lemma responses_upstream_claude_client_witness:
  "\<exists>p m. p = pump_run at_ease [one_reading (render_events whole_sample)] (start_pump 4 (new_rs ''claude''))
     \<and> blocks_watch (delivered (p_acts p)) blocks_start = Some m \<and> bl_stopped m"
proof -
  obtain p k where p: "p = pump_run at_ease [one_reading (render_events whole_sample)] (start_pump 4 (new_rs ''claude''))"
      "system at_ease 9 4 (new_rs ''claude'') p k" "p_over p" "clean_end (p_acts p)"
    using whole_served [of "''claude''"] by blast
  have o: "px_ops at_ease = rs_ops" by (simp add: at_ease_def)
  show ?thesis using responses_upstream_claude_client [OF p(2) o] p(1,3,4)
    by (cases "blocks_watch (delivered (p_acts p)) blocks_start") (simp_all only: option.case, blast)
qed

text \<open>
  C4. A Chat Completions client of a Responses upstream is served whole: in every interleaving the
  calls delivered have the indices 0, 1, 2 and so on, an identifier is announced once, arguments go
  to announced calls only; and a stream that is closed without an error has delivered a finish
  reason.
\<close>

theorem responses_upstream_chat_client:
  assumes "system x bound d (new_rs ''openai'') p k" "px_ops x = rs_ops"
  shows "case calls_watch (delivered (p_acts p)) calls_start of
      None \<Rightarrow> False
    | Some m \<Rightarrow> p_over p \<and> clean_end (p_acts p) \<longrightarrow> kl_finished m"
proof -
  have "calls_fed calls_start (new_rs ''openai'')"
    by (simp add: calls_fed_def rs_numbered_def calls_start_def new_rs_def tracker_ok_def target_of_def snapshot_zero_def)
  then show ?thesis using chat_rs.system_accounted [OF assms] by (fastforce simp: accounted_for_def)
qed

lemma responses_upstream_chat_client_witness:
  "\<exists>p m. p = pump_run at_ease [one_reading (render_events whole_sample)] (start_pump 4 (new_rs ''openai''))
     \<and> calls_watch (delivered (p_acts p)) calls_start = Some m \<and> kl_finished m"
proof -
  obtain p k where p: "p = pump_run at_ease [one_reading (render_events whole_sample)] (start_pump 4 (new_rs ''openai''))"
      "system at_ease 9 4 (new_rs ''openai'') p k" "p_over p" "clean_end (p_acts p)"
    using whole_served [of "''openai''"] by blast
  have o: "px_ops at_ease = rs_ops" by (simp add: at_ease_def)
  show ?thesis using responses_upstream_chat_client [OF p(2) o] p(1,3,4)
    by (cases "calls_watch (delivered (p_acts p)) calls_start") (simp_all only: option.case, blast)
qed

text \<open>
  C17. A call of a Responses upstream reaches the client once: an announced call is opened once, at
  the next free index, and what is sent for it are its argument fragments, each once and in order,
  or the complete arguments of the final item event when no fragment came.
\<close>

theorem call_delivered_once:
  assumes "tracker_ok s" "fi_type it = ''function_call''" "fi_id it \<noteq> []"
    "fi_call it \<notin> fst ` set (rs_calls s)" "fi_id it \<notin> fst ` set (rs_calls s)"
  shows "call_story it ds s =
    (if rs_target s = ToOpenAI then [rs_chat (ChatToolOpen (rs_next s) (fi_call it) (fi_name it) []) s]
     else map (\<lambda>k. EvClaude (CBlockStop k)) (rs_open s) @ [EvClaude (CBlockStart (rs_next s) (BTool (fi_call it) (fi_name it)))])
    @ map (call_args s (rs_next s)) (arguments_of it ds)"
proof -
  obtain s1 where s1: "output_item (it\<lparr>fi_args := []\<rparr>) s =
      ((if rs_target s = ToOpenAI then [rs_chat (ChatToolOpen (rs_next s) (fi_call it) (fi_name it) []) s]
        else map (\<lambda>k. EvClaude (CBlockStop k)) (rs_open s) @ [EvClaude (CBlockStart (rs_next s) (BTool (fi_call it) (fi_name it)))]), s1)"
      "knows s1 it (rs_next s) False" "rs_target s1 = rs_target s" "rs_builder s1 = rs_builder s"
    using new_item [OF assms] by blast
  obtain s2 where s2: "fragments (fi_id it) ds s1 = (map (call_args s1 (rs_next s)) ds, s2)" "knows s2 it (rs_next s) (ds \<noteq> [])"
      "rs_target s2 = rs_target s1" "rs_builder s2 = rs_builder s1"
    using known_fragments [OF assms(3) s1(2), of ds] by auto
  have "call_args s1 k = call_args s k" "call_args s2 k = call_args s k" for k
    using s1(3,4) s2(3,4) by (simp_all add: call_args_def rs_chat_def fun_eq_iff)
  then show ?thesis
    using s1(1) s2(1) known_item [OF s2(2) assms(2,3)] by (simp add: call_story_def arguments_of_def split_beta Let_def)
qed

definition call_sample :: function_item where
  "call_sample = \<lparr>fi_type = ''function_call'', fi_call = ''call_1'', fi_id = ''fc_1'', fi_name = ''f'', fi_args = ''{}''\<rparr>"

lemma call_delivered_once_witness:
  "call_story call_sample [''{'', ''}''] (new_rs ''claude'') =
     [EvClaude (CBlockStart 0 (BTool ''call_1'' ''f'')), EvClaude (CBlockDelta 0 (DJson ''{'')), EvClaude (CBlockDelta 0 (DJson ''}''))]"
  using call_delivered_once [of "new_rs ''claude''" call_sample "[''{'', ''}'']"]
  by (simp add: call_sample_def new_rs_def tracker_ok_def target_of_def arguments_of_def call_args_def)

text \<open>
  A native client gets the upstream bytes: the events of a Responses stream without a failure
  are its frames, byte for byte and in order, and the stream is done when one of them is terminal.
\<close>

theorem native_stream_verbatim:
  assumes "\<forall>(n, v) \<in> set evs. plain_name n \<and> wf_gv v \<and> \<not> failing n"
  shows "\<exists>s. feed_rs (render_events evs) (new_rs ''openai-response'')
    = (map (\<lambda>(n, v). EvRaw (sse_event n v)) evs, list_ex (\<lambda>(n, _). ending_type n) evs, None, s)"
proof -
  let ?f = "new_framer True" and ?s = "new_rs ''openai-response''"
  let ?frs = "map (\<lambda>(n, v). (n, marshal v, sse_event n v)) evs"
  have "\<forall>(n, v) \<in> set evs. plain_name n \<and> wf_gv v" using assms by auto
  from feed_events [OF _ this, of ?f] have fr: "snd (feed_framer (rs_framer ?s) (render_events evs)) = ?frs"
    by (simp add: new_rs_def new_framer_def idle_def case_prod_unfold)
  have "rs_target ?s = ToResponses" "\<forall>(t, _) \<in> set ?frs. \<not> failing t"
    using assms by (auto simp: new_rs_def target_of_def)
  from run_native [OF this] obtain u where
    "rs_run ?frs ?s = (map (\<lambda>(n, v). EvRaw (sse_event n v)) evs, list_ex (\<lambda>(n, _). ending_type n) evs, None, u)"
    by (auto simp: case_prod_unfold comp_def list_ex_iff)
  moreover obtain es d e s' where f: "feed_rs (render_events evs) ?s = (es, d, e, s')" by (cases "feed_rs (render_events evs) ?s")
  ultimately show ?thesis using feed_rs_run [OF f] fr by auto
qed

lemma native_stream_verbatim_witness:
  "\<exists>s. feed_rs (render_events [(''response.completed'', GMap [])]) (new_rs ''openai-response'')
    = ([EvRaw (sse_event ''response.completed'' (GMap []))], True, None, s)"
  using native_stream_verbatim [of "[(''response.completed'', GMap [])]"]
  by (simp add: plain_name_def ascii_space_def byte_def failing_def ending_type_def)

definition late_delta :: "(string \<times> gv) list" where
  "late_delta =
     [(''response.output_text.delta'', GMap [(''delta'', GStr ''a'')]), (''response.completed'', GMap []),
      (''response.output_text.delta'', GMap [(''delta'', GStr ''b'')])]"

lemma late_run:
  "let (evs, d, e, _) = rs_run (map (\<lambda>(n, v). (n, marshal v, [])) late_delta) (new_rs ''claude'')
   in d \<and> e = None \<and> drop (length evs - 2) evs = [EvClaude CMessageStop, EvClaude (CBlockDelta 0 (DText ''b''))]
     \<and> EvClaude (CBlockStop 0) \<in> set evs"
  by code_simp


end
