(* ===== verification/Bodies.thy ===== *)
theory Bodies
  imports Chat_Stream Messages_Stream Responses_Stream
begin

text \<open>
  The conversion of whole (non-stream) bodies: \<open>convert.go\<close> of the three adapters. A
  conversion gives the value that is marshalled. Decoding into \<open>any\<close> and marshalling
  again sorts keys, lets the last duplicate win and normalizes literals; what \<open>float64\<close>
  makes of a number literal is the parameter \<open>fl\<close>, which gives None for a literal out
  of its range.
\<close>

section \<open>Values of unknown type\<close>

type_synonym float_text = "string \<Rightarrow> string option"

fun any_gv :: "float_text \<Rightarrow> json \<Rightarrow> gv" where
  "any_gv fl JNull = GNull"
| "any_gv fl (JBool b) = GBool b"
| "any_gv fl (JNum s) = (case fl s of None \<Rightarrow> GNull | Some t \<Rightarrow> GRaw (JNum t))"
| "any_gv fl (JStr s) = GStr (unquote s)"
| "any_gv fl (JArr js) = GArr (map (any_gv fl) js)"
| "any_gv fl (JObj kvs) = GMap (foldl (\<lambda>m (k, v). AList.update k v m) [] (map (\<lambda>(k, v). (unquote k, any_gv fl v)) kvs))"

fun in_range :: "float_text \<Rightarrow> json \<Rightarrow> bool" where
  "in_range fl (JNum s) = (fl s \<noteq> None)"
| "in_range fl (JArr js) = list_all (in_range fl) js"
| "in_range fl (JObj kvs) = list_all (\<lambda>(_, v). in_range fl v) kvs"
| "in_range fl _ = True"

definition decode_args :: "float_text \<Rightarrow> string \<Rightarrow> string \<Rightarrow> gv result" where
  "decode_args fl diag args =
     (case json_parse (default_args args) of
        Some j \<Rightarrow> (if in_range fl j then Inr (any_gv fl j) else Inl (translation (''malformed tool call arguments JSON: '' @ diag)))
      | None \<Rightarrow> Inl (translation (''malformed tool call arguments JSON: '' @ diag)))"

section \<open>Results\<close>

record tool_call =
  tl_id :: string
  tl_type :: string
  tl_name :: string
  tl_args :: string

definition gv_tool_call :: "tool_call \<Rightarrow> gv" where
  "gv_tool_call t =
     GStruct [(''id'', GStr (tl_id t)), (''type'', GStr (tl_type t)),
       (''function'', GStruct [(''name'', GStr (tl_name t)), (''arguments'', GStr (tl_args t))])]"

definition new_tool_call :: "string \<Rightarrow> string \<Rightarrow> string \<Rightarrow> tool_call" where
  "new_tool_call i nm args = \<lparr>tl_id = i, tl_type = ''function'', tl_name = nm, tl_args = args\<rparr>"

text \<open>The assistant's \<open>CCMessage\<close>: content and calls are null where there are none.\<close>

definition gv_cc_message :: "string \<Rightarrow> tool_call list \<Rightarrow> gv" where
  "gv_cc_message t calls =
     GStruct [(''role'', GStr ''assistant''), (''content'', if t = [] then GNull else GRaw (encode (GStr t))),
       (''tool_calls'', if calls = [] then GNull else GArr (map gv_tool_call calls)), (''tool_call_id'', GStr [])]"

definition chat_completion :: "string \<Rightarrow> string \<Rightarrow> int \<Rightarrow> string \<Rightarrow> tool_call list \<Rightarrow> string \<Rightarrow> gv \<Rightarrow> gv" where
  "chat_completion i model now t calls finish usage =
     completion_envelope i model now
       [GMap [(''index'', GInt 0), (''message'', gv_cc_message t calls), (''finish_reason'', GStr finish)]] usage"

definition gv_responses_result :: "string \<Rightarrow> string \<Rightarrow> string \<Rightarrow> out_item list \<Rightarrow> responses_usage \<Rightarrow> gv" where
  "gv_responses_result i model status output usage =
     GStruct [(''id'', GStr i), (''object'', GStr ''response''), (''model'', GStr model), (''status'', GStr status),
       (''output'', GArr (map gv_item output)), (''usage'', gv_responses_usage usage)]"

text \<open>\<open>Render\<close>: after it no slot is left without an item.\<close>

definition rendered_items :: "assembler \<Rightarrow> out_item list" where
  "rendered_items a = List.map_filter id (assembled a)"

section \<open>Messages bodies\<close>

record block_in =
  bi_type :: string
  bi_text :: string
  bi_id :: string
  bi_name :: string
  bi_input :: raw

record claude_usage_in =
  ci_in :: int
  ci_out :: int
  ci_read :: "int option"
  ci_creation :: "int option"

record claude_response_in =
  ci_id :: string
  ci_model :: string
  ci_content :: "block_in list option"
  ci_stop :: string
  ci_usage :: claude_usage_in

definition block_in_zero :: block_in where
  "block_in_zero = \<lparr>bi_type = [], bi_text = [], bi_id = [], bi_name = [], bi_input = None\<rparr>"

definition dec_block_in :: "block_in dec" where
  "dec_block_in = dec_struct
     [(''type'', field bi_type bi_type_update dec_string), (''text'', field bi_text bi_text_update dec_string),
      (''id'', field bi_id bi_id_update dec_string), (''name'', field bi_name bi_name_update dec_string),
      (''input'', field bi_input bi_input_update dec_raw)]"

definition dec_claude_usage_in :: "claude_usage_in dec" where
  "dec_claude_usage_in = dec_struct
     [(''input_tokens'', field ci_in ci_in_update dec_int64), (''output_tokens'', field ci_out ci_out_update dec_int64),
      (''cache_read_input_tokens'', field ci_read ci_read_update (dec_ptr 0 dec_int64)),
      (''cache_creation_input_tokens'', field ci_creation ci_creation_update (dec_ptr 0 dec_int64))]"

definition claude_response_zero :: claude_response_in where
  "claude_response_zero = \<lparr>ci_id = [], ci_model = [], ci_content = None, ci_stop = [],
     ci_usage = \<lparr>ci_in = 0, ci_out = 0, ci_read = None, ci_creation = None\<rparr>\<rparr>"

definition dec_claude_response :: "claude_response_in dec" where
  "dec_claude_response = dec_struct
     [(''id'', field ci_id ci_id_update dec_string), (''model'', field ci_model ci_model_update dec_string),
      (''content'', field ci_content ci_content_update (dec_ptr [] (dec_list block_in_zero dec_block_in))),
      (''stop_reason'', field ci_stop ci_stop_update dec_string),
      (''usage'', field ci_usage ci_usage_update dec_claude_usage_in)]"

definition decode_claude :: "string \<Rightarrow> string \<Rightarrow> (claude_response_in \<times> block_in list) result" where
  "decode_claude diag body =
     (case unmarshal dec_claude_response body claude_response_zero of
        (_, False) \<Rightarrow> Inl (translation (''malformed Messages response JSON: '' @ diag))
      | (r, True) \<Rightarrow>
          (case ci_content r of
             None \<Rightarrow> Inl (translation ''Messages response carries no content blocks'')
           | Some bs \<Rightarrow> Inr (r, bs)))"

definition decode_block_input :: "float_text \<Rightarrow> raw \<Rightarrow> gv" where
  "decode_block_input fl r = (if \<not> has_content r then GMap [] else (case r of None \<Rightarrow> GMap [] | Some j \<Rightarrow> any_gv fl j))"

definition no_such_block :: "string \<Rightarrow> string \<Rightarrow> err" where
  "no_such_block target ty = translation (target @ '' output cannot represent '' @ go_q ty @ '' content blocks'')"

definition no_such_item :: "string \<Rightarrow> string \<Rightarrow> err" where
  "no_such_item target ty = translation (target @ '' output cannot represent '' @ go_q ty @ '' output items'')"

fun chat_parts :: "float_text \<Rightarrow> block_in list \<Rightarrow> string \<Rightarrow> tool_call list \<Rightarrow> (string \<times> tool_call list) result" where
  "chat_parts fl [] t calls = Inr (t, calls)"
| "chat_parts fl (b # bs) t calls =
     (if bi_type b = ''text'' then chat_parts fl bs (t @ bi_text b) calls
      else if bi_type b = ''tool_use'' then
        chat_parts fl bs t (calls @ [new_tool_call (bi_id b) (bi_name b) (marshal (decode_block_input fl (bi_input b)))])
      else if bi_type b = ''thinking'' \<or> bi_type b = ''redacted_thinking'' then chat_parts fl bs t calls
      else Inl (no_such_block messages_path (bi_type b)))"

definition whole_input :: "claude_usage_in \<Rightarrow> int" where
  "whole_input u = wrap64 (wrap64 (ci_in u + value_or_zero (ci_read u)) + value_or_zero (ci_creation u))"

definition claude_to_chat :: "float_text \<Rightarrow> int \<Rightarrow> string \<Rightarrow> string \<Rightarrow> gv result" where
  "claude_to_chat fl now diag body =
     (case decode_claude diag body of
        Inl e \<Rightarrow> Inl e
      | Inr (r, bs) \<Rightarrow>
          (case chat_parts fl bs [] [] of
             Inl e \<Rightarrow> Inl e
           | Inr (t, calls) \<Rightarrow>
               Inr (chat_completion (ci_id r) (ci_model r) now t calls
                 (terminal_reason (calls \<noteq> []) ''tool_calls'' (claude_stop_to_finish (ci_stop r)))
                 (cc_usage_from (whole_input (ci_usage r)) (ci_out (ci_usage r))
                    \<lparr>u_cached = ci_read (ci_usage r), u_cache_write = None, u_reasoning = None\<rparr>))))"

fun block_items :: "float_text \<Rightarrow> block_in list \<Rightarrow> assembler \<Rightarrow> assembler result" where
  "block_items fl [] a = Inr a"
| "block_items fl (b # bs) a =
     (if bi_type b = ''text'' then block_items fl bs (add_text (bi_text b) (reserve_text_slot a))
      else if bi_type b = ''tool_use'' then
        block_items fl bs (append_function_call (bi_id b) (bi_name b) [] (marshal (decode_block_input fl (bi_input b))) a)
      else if bi_type b = ''thinking'' \<or> bi_type b = ''redacted_thinking'' then block_items fl bs a
      else Inl (no_such_block messages_path (bi_type b)))"

definition claude_to_responses :: "float_text \<Rightarrow> string \<Rightarrow> string \<Rightarrow> gv result" where
  "claude_to_responses fl diag body =
     (case decode_claude diag body of
        Inl e \<Rightarrow> Inl e
      | Inr (r, bs) \<Rightarrow>
          (case block_items fl bs (new_assembler (ci_id r)) of
             Inl e \<Rightarrow> Inl e
           | Inr a \<Rightarrow>
               Inr (gv_responses_result (ci_id r) (ci_model r) (response_status_from_claude_stop (ci_stop r)) (rendered_items a)
                 (new_responses_usage_from (whole_input (ci_usage r)) (ci_out (ci_usage r))
                    \<lparr>u_cached = ci_read (ci_usage r), u_cache_write = ci_creation (ci_usage r), u_reasoning = None\<rparr>))))"

definition convert_messages_body :: "float_text \<Rightarrow> int \<Rightarrow> string \<Rightarrow> string \<Rightarrow> int \<Rightarrow> string \<Rightarrow> string result" where
  "convert_messages_body fl now diag source status body =
     (if 400 \<le> status then Inl (upstream_status_error status body)
      else if source = ''claude'' then
        (if json_valid body then Inr body else Inl (translation ''malformed Messages response JSON''))
      else if source = ''openai'' then map_sum id marshal (claude_to_chat fl now diag body)
      else if source = ''openai-response'' then map_sum id marshal (claude_to_responses fl diag body)
      else Inl (unsupported_format source messages_path))"

section \<open>Responses bodies\<close>

record resp_item_in =
  ro_type :: string
  ro_call :: string
  ro_name :: string
  ro_args :: string
  ro_content :: "(string \<times> string) list"

record resp_details_in =
  rd_cached :: "int option"
  rd_write :: "int option"

record resp_usage_in =
  rui_input :: int
  rui_output :: int
  rui_in_details :: "resp_details_in option"
  rui_out_details :: "int option option"

record resp_result_in =
  rr_id :: string
  rr_model :: string
  rr_status :: string
  rr_output :: "resp_item_in list option"
  rr_usage :: resp_usage_in

definition dec_resp_part :: "(string \<times> string) dec" where
  "dec_resp_part = dec_struct
     [(''type'', field fst (\<lambda>f p. (f (fst p), snd p)) dec_string), (''text'', field snd (\<lambda>f p. (fst p, f (snd p))) dec_string)]"

definition dec_resp_item_in :: "resp_item_in dec" where
  "dec_resp_item_in = dec_struct
     [(''type'', field ro_type ro_type_update dec_string), (''call_id'', field ro_call ro_call_update dec_string),
      (''name'', field ro_name ro_name_update dec_string), (''arguments'', field ro_args ro_args_update dec_string),
      (''content'', field ro_content ro_content_update (dec_list ([], []) dec_resp_part))]"

definition dec_resp_usage_in :: "resp_usage_in dec" where
  "dec_resp_usage_in = dec_struct
     [(''input_tokens'', field rui_input rui_input_update dec_int64),
      (''output_tokens'', field rui_output rui_output_update dec_int64),
      (''input_tokens_details'', field rui_in_details rui_in_details_update
         (dec_ptr \<lparr>rd_cached = None, rd_write = None\<rparr> (dec_struct
            [(''cached_tokens'', field rd_cached rd_cached_update (dec_ptr 0 dec_int64)),
             (''cache_write_tokens'', field rd_write rd_write_update (dec_ptr 0 dec_int64))]))),
      (''output_tokens_details'', field rui_out_details rui_out_details_update
         (dec_ptr None (dec_struct [(''reasoning_tokens'', dec_ptr 0 dec_int64)])))]"

definition resp_result_zero :: resp_result_in where
  "resp_result_zero = \<lparr>rr_id = [], rr_model = [], rr_status = [], rr_output = None,
     rr_usage = \<lparr>rui_input = 0, rui_output = 0, rui_in_details = None, rui_out_details = None\<rparr>\<rparr>"

definition dec_resp_result :: "resp_result_in dec" where
  "dec_resp_result = dec_struct
     [(''id'', field rr_id rr_id_update dec_string), (''model'', field rr_model rr_model_update dec_string),
      (''status'', field rr_status rr_status_update dec_string),
      (''output'', field rr_output rr_output_update
         (dec_ptr [] (dec_list \<lparr>ro_type = [], ro_call = [], ro_name = [], ro_args = [], ro_content = []\<rparr> dec_resp_item_in))),
      (''usage'', field rr_usage rr_usage_update dec_resp_usage_in)]"

definition decode_resp :: "string \<Rightarrow> string \<Rightarrow> (resp_result_in \<times> resp_item_in list) result" where
  "decode_resp diag body =
     (case unmarshal dec_resp_result body resp_result_zero of
        (_, False) \<Rightarrow> Inl (translation (''malformed Responses response JSON: '' @ diag))
      | (r, True) \<Rightarrow>
          (case rr_output r of
             None \<Rightarrow> Inl (translation ''Responses result carries no output items'')
           | Some items \<Rightarrow> Inr (r, items)))"

definition cc_finish_from_status :: "string \<Rightarrow> bool \<Rightarrow> string" where
  "cc_finish_from_status status saw = terminal_reason saw ''tool_calls'' (cc_finish_from_response_status status)"

definition carries_payload :: "resp_item_in \<Rightarrow> bool" where
  "carries_payload it = (ro_content it \<noteq> [] \<or> ro_name it \<noteq> [] \<or> ro_call it \<noteq> [] \<or> trim_space (ro_args it) \<noteq> [])"

definition part_texts :: "(string \<times> string) list \<Rightarrow> string" where
  "part_texts ps = concat (map snd (filter (\<lambda>p. fst p = ''output_text'') ps))"

fun item_parts :: "resp_item_in list \<Rightarrow> string \<Rightarrow> tool_call list \<Rightarrow> (string \<times> tool_call list) result" where
  "item_parts [] t calls = Inr (t, calls)"
| "item_parts (it # its) t calls =
     (if ro_type it = ''message'' then item_parts its (t @ part_texts (ro_content it)) calls
      else if ro_type it = ''function_call'' then
        item_parts its t (calls @ [new_tool_call (ro_call it) (ro_name it) (default_args (ro_args it))])
      else if ro_type it = ''reasoning'' \<or> \<not> carries_payload it then item_parts its t calls
      else Inl (no_such_item responses_path (ro_type it)))"

definition responses_to_chat :: "int \<Rightarrow> string \<Rightarrow> string \<Rightarrow> gv result" where
  "responses_to_chat now diag body =
     (case decode_resp diag body of
        Inl e \<Rightarrow> Inl e
      | Inr (r, items) \<Rightarrow>
          (case item_parts items [] [] of
             Inl e \<Rightarrow> Inl e
           | Inr (t, calls) \<Rightarrow>
               Inr (chat_completion (rr_id r) (rr_model r) now t calls (cc_finish_from_status (rr_status r) (calls \<noteq> []))
                 (cc_usage_from (rui_input (rr_usage r)) (rui_output (rr_usage r))
                    \<lparr>u_cached = Option.bind (rui_in_details (rr_usage r)) rd_cached, u_cache_write = None,
                      u_reasoning = Option.bind (rui_out_details (rr_usage r)) id\<rparr>))))"

text \<open>Content blocks of a Messages result.\<close>

definition text_gv :: "string \<Rightarrow> gv" where
  "text_gv t = GMap [(''type'', GStr ''text''), (''text'', GStr t)]"

definition tool_use_gv :: "string \<Rightarrow> string \<Rightarrow> gv \<Rightarrow> gv" where
  "tool_use_gv i nm input = GMap [(''type'', GStr ''tool_use''), (''id'', GStr i), (''name'', GStr nm), (''input'', input)]"

fun item_blocks :: "float_text \<Rightarrow> string \<Rightarrow> resp_item_in list \<Rightarrow> gv list \<Rightarrow> bool \<Rightarrow> (gv list \<times> bool) result" where
  "item_blocks fl diag [] blocks saw = Inr (blocks, saw)"
| "item_blocks fl diag (it # its) blocks saw =
     (if ro_type it = ''message'' then
        item_blocks fl diag its
          (blocks @ map (\<lambda>p. text_gv (snd p)) (filter (\<lambda>p. fst p = ''output_text'' \<and> snd p \<noteq> []) (ro_content it))) saw
      else if ro_type it = ''function_call'' then
        (case decode_args fl diag (ro_args it) of
           Inl e \<Rightarrow> Inl e
         | Inr input \<Rightarrow> item_blocks fl diag its (blocks @ [tool_use_gv (ro_call it) (ro_name it) input]) True)
      else if ro_type it = ''reasoning'' \<or> \<not> carries_payload it then item_blocks fl diag its blocks saw
      else Inl (no_such_item responses_path (ro_type it)))"

definition responses_to_claude :: "float_text \<Rightarrow> string \<Rightarrow> string \<Rightarrow> gv result" where
  "responses_to_claude fl diag body =
     (case decode_resp diag body of
        Inl e \<Rightarrow> Inl e
      | Inr (r, items) \<Rightarrow>
          (case item_blocks fl diag items [] False of
             Inl e \<Rightarrow> Inl e
           | Inr (blocks, saw) \<Rightarrow>
               (let cache_read = Option.bind (rui_in_details (rr_usage r)) rd_cached;
                    cache_write = Option.bind (rui_in_details (rr_usage r)) rd_write
                in Inr (new_claude_result (rr_id r) (rr_model r)
                     (terminal_reason saw ''tool_use'' (claude_stop_from_response_status (rr_status r)))
                     (clamp_subtract (rui_input (rr_usage r)) [cache_read, cache_write]) (rui_output (rr_usage r))
                     cache_read cache_write blocks))))"

definition convert_responses_body :: "float_text \<Rightarrow> int \<Rightarrow> string \<Rightarrow> string \<Rightarrow> int \<Rightarrow> string \<Rightarrow> string result" where
  "convert_responses_body fl now diag source status body =
     (if 400 \<le> status then Inl (upstream_status_error status body)
      else if source = ''openai-response'' then
        (if json_valid body then Inr body else Inl (translation ''malformed Responses response JSON''))
      else if source = ''openai'' then map_sum id marshal (responses_to_chat now diag body)
      else if source = ''claude'' then map_sum id marshal (responses_to_claude fl diag body)
      else Inl (unsupported_format source responses_path))"

section \<open>Chat Completions bodies\<close>

record cc_choice_in =
  xc_content :: raw
  xc_calls :: "tool_call list"
  xc_reasoning :: reasoning_fields
  xc_finish :: string

record cc_response_in =
  xr_id :: string
  xr_model :: string
  xr_choices :: "cc_choice_in list"
  xr_usage :: "cc_usage option"

definition tool_call_zero :: tool_call where
  "tool_call_zero = \<lparr>tl_id = [], tl_type = [], tl_name = [], tl_args = []\<rparr>"

definition dec_tool_call :: "tool_call dec" where
  "dec_tool_call = dec_struct
     [(''id'', field tl_id tl_id_update dec_string), (''type'', field tl_type tl_type_update dec_string),
      (''function'', dec_struct
         [(''name'', field tl_name tl_name_update dec_string), (''arguments'', field tl_args tl_args_update dec_string)])]"

definition cc_choice_in_zero :: cc_choice_in where
  "cc_choice_in_zero = \<lparr>xc_content = None, xc_calls = [], xc_reasoning = reasoning_zero, xc_finish = []\<rparr>"

definition dec_cc_choice_in :: "cc_choice_in dec" where
  "dec_cc_choice_in = dec_struct
     [(''message'', dec_struct
         [(''content'', field xc_content xc_content_update dec_raw),
          (''tool_calls'', field xc_calls xc_calls_update (dec_list tool_call_zero dec_tool_call)),
          (''reasoning'', field xc_reasoning xc_reasoning_update (field r_reasoning r_reasoning_update dec_string)),
          (''reasoning_content'', field xc_reasoning xc_reasoning_update (field r_content r_content_update dec_string)),
          (''reasoning_details'', field xc_reasoning xc_reasoning_update
             (field r_details r_details_update (dec_list [] dec_detail)))]),
      (''finish_reason'', field xc_finish xc_finish_update dec_string)]"

definition cc_response_zero :: cc_response_in where
  "cc_response_zero = \<lparr>xr_id = [], xr_model = [], xr_choices = [], xr_usage = None\<rparr>"

definition dec_cc_response :: "cc_response_in dec" where
  "dec_cc_response = dec_struct
     [(''id'', field xr_id xr_id_update dec_string), (''model'', field xr_model xr_model_update dec_string),
      (''choices'', field xr_choices xr_choices_update (dec_list cc_choice_in_zero dec_cc_choice_in)),
      (''usage'', field xr_usage xr_usage_update (dec_ptr cc_usage_zero dec_cc_usage))]"

definition decode_cc :: "string \<Rightarrow> string \<Rightarrow> (cc_response_in \<times> cc_choice_in) result" where
  "decode_cc diag body =
     (case unmarshal dec_cc_response body cc_response_zero of
        (_, False) \<Rightarrow> Inl (translation (''malformed Chat Completions response JSON: '' @ diag))
      | (r, True) \<Rightarrow>
          (case xr_choices r of
             [] \<Rightarrow> Inl (translation ''Chat Completions response carries no choices'')
           | c # _ \<Rightarrow> Inr (r, c)))"

text \<open>The backfill of \<open>BackfillReasoningContent\<close> is gjson's and sjson's work: a parameter.\<close>

definition passthrough_response :: "(string \<Rightarrow> string option) \<Rightarrow> string \<Rightarrow> string result" where
  "passthrough_response backfill body =
     (if \<not> json_valid body then Inl (translation ''malformed openai response JSON'')
      else (case backfill body of Some b \<Rightarrow> Inr b | None \<Rightarrow> Inr body))"

definition tool_use_blocks :: "float_text \<Rightarrow> string \<Rightarrow> tool_call list \<Rightarrow> gv list result" where
  "tool_use_blocks fl diag =
     collect (\<lambda>t. case decode_args fl diag (tl_args t) of
        Inl e \<Rightarrow> Inl e
      | Inr input \<Rightarrow> Inr (tool_use_gv (tl_id t) (tl_name t) input))"

definition thinking_gv :: "string \<Rightarrow> gv" where
  "thinking_gv t = GMap [(''type'', GStr ''thinking''), (''thinking'', GStr t)]"

definition cached_prompt :: "cc_usage option \<Rightarrow> int option" where
  "cached_prompt u = Option.bind u (\<lambda>u. Option.bind (cu_prompt_details u) id)"

definition prompt_tokens :: "cc_usage option \<Rightarrow> int" where
  "prompt_tokens u = (case u of None \<Rightarrow> 0 | Some u \<Rightarrow> cu_prompt u)"

definition completion_tokens :: "cc_usage option \<Rightarrow> int" where
  "completion_tokens u = (case u of None \<Rightarrow> 0 | Some u \<Rightarrow> cu_completion u)"

definition chat_to_claude :: "float_text \<Rightarrow> string \<Rightarrow> string \<Rightarrow> gv result" where
  "chat_to_claude fl diag body =
     (case decode_cc diag body of
        Inl e \<Rightarrow> Inl e
      | Inr (r, c) \<Rightarrow>
          (case claude_blocks_from_openai diag (xc_content c) chat_path of
             Inl e \<Rightarrow> Inl e
           | Inr blocks \<Rightarrow>
               (case tool_use_blocks fl diag (xc_calls c) of
                  Inl e \<Rightarrow> Inl e
                | Inr tools \<Rightarrow>
                    (let lead = (case reasoning_text (xc_reasoning c) of (t, True) \<Rightarrow> [thinking_gv t] | _ \<Rightarrow> []);
                         cache = cached_prompt (xr_usage r)
                     in Inr (new_claude_result (xr_id r) (xr_model r)
                          (terminal_reason (xc_calls c \<noteq> []) ''tool_use'' (finish_to_claude_stop (xc_finish c)))
                          (clamp_subtract (prompt_tokens (xr_usage r)) [cache]) (completion_tokens (xr_usage r)) cache None
                          (lead @ blocks @ tools))))))"

text \<open>The type and the text of a block of \<open>claude_blocks_from_openai\<close>.\<close>

definition block_field :: "string \<Rightarrow> gv \<Rightarrow> string" where
  "block_field k g = (case g of GMap kvs \<Rightarrow> (case map_of kvs k of Some (GStr t) \<Rightarrow> t | _ \<Rightarrow> []) | _ \<Rightarrow> [])"

fun text_blocks :: "gv list \<Rightarrow> assembler \<Rightarrow> assembler result" where
  "text_blocks [] a = Inr a"
| "text_blocks (b # bs) a =
     (if block_field ''type'' b \<noteq> ''text'' then Inl (no_such_block chat_path (block_field ''type'' b))
      else text_blocks bs (add_text (block_field ''text'' b) a))"

fun call_items :: "tool_context \<Rightarrow> tool_call list \<Rightarrow> assembler \<Rightarrow> assembler result" where
  "call_items ctx [] a = Inr a"
| "call_items ctx (t # ts) a =
     (case resolve_chat_name ctx (tl_name t) of
        Some i \<Rightarrow>
          (if id_kind i = ''custom'' then
             (case unwrap_custom_tool_input (tl_args t) of
                Inl e \<Rightarrow> Inl e
              | Inr input \<Rightarrow> call_items ctx ts (append_custom_tool_call (tl_id t) (id_name i) (id_namespace i) input a))
           else call_items ctx ts (append_function_call (tl_id t) (id_name i) (id_namespace i) (default_args (tl_args t)) a))
      | None \<Rightarrow> call_items ctx ts (append_function_call (tl_id t) (tl_name t) [] (default_args (tl_args t)) a))"

definition responses_usage_zero :: responses_usage where
  "responses_usage_zero = \<lparr>ru_input = 0, ru_output = 0, ru_total = 0, ru_input_details = None, ru_output_details = None\<rparr>"

definition chat_to_responses :: "tool_context \<Rightarrow> string \<Rightarrow> string \<Rightarrow> gv result" where
  "chat_to_responses ctx diag body =
     (case decode_cc diag body of
        Inl e \<Rightarrow> Inl e
      | Inr (r, c) \<Rightarrow>
          (case claude_blocks_from_openai diag (xc_content c) chat_path of
             Inl e \<Rightarrow> Inl e
           | Inr blocks \<Rightarrow>
               (let a0 = new_assembler (xr_id r);
                    a1 = (case reasoning_text (xc_reasoning c) of
                            (t, True) \<Rightarrow> append_reasoning (reasoning_item_id (xr_id r) 0) t a0 | _ \<Rightarrow> a0)
                in case text_blocks blocks a1 of
                     Inl e \<Rightarrow> Inl e
                   | Inr a2 \<Rightarrow>
                       (case call_items ctx (xc_calls c) (if blocks \<noteq> [] then reserve_text_slot a2 else a2) of
                          Inl e \<Rightarrow> Inl e
                        | Inr a3 \<Rightarrow>
                            Inr (gv_responses_result (xr_id r) (xr_model r) (response_status_from_cc_finish (xc_finish c))
                              (rendered_items a3)
                              (case xr_usage r of
                                 None \<Rightarrow> responses_usage_zero
                               | Some u \<Rightarrow> new_responses_usage_from (cu_prompt u) (cu_completion u) (cc_usage_details (Some u))))))))"

definition response_tool_context :: "string \<Rightarrow> string list \<Rightarrow> tool_context" where
  "response_tool_context diag original = new_responses_tool_context diag (case original of [] \<Rightarrow> [] | b # _ \<Rightarrow> b)"

definition convert_chat_body ::
  "(string \<Rightarrow> string option) \<Rightarrow> float_text \<Rightarrow> string \<Rightarrow> string list \<Rightarrow> string \<Rightarrow> int \<Rightarrow> string \<Rightarrow> string result" where
  "convert_chat_body backfill fl diag original source status body =
     (if 400 \<le> status then Inl (upstream_status_error status body)
      else if source = ''openai'' then passthrough_response backfill body
      else if source = ''claude'' then map_sum id marshal (chat_to_claude fl diag body)
      else if source = ''openai-response'' then
        map_sum id marshal (chat_to_responses (response_tool_context diag original) diag body)
      else Inl (unsupported_format source chat_path))"

end
