(* ===== verification/Outbound.thy ===== *)
theory Outbound
  imports Bodies Thinking
begin

text \<open>
  What the request builders of the three adapters share: the decoded Chat Completions request, the
  loops over source messages, and the rendering of numbers and tools. A \<open>*float64\<close> is kept
  as its literal; \<open>fl\<close> gives the text it is rendered with.
\<close>

section \<open>Loops that stop at the first error\<close>

fun walk :: "('a \<Rightarrow> 's \<Rightarrow> 's result) \<Rightarrow> 'a list \<Rightarrow> 's \<Rightarrow> 's result" where
  "walk f [] s = Inr s"
| "walk f (x # xs) s = (case f x s of Inl e \<Rightarrow> Inl e | Inr s' \<Rightarrow> walk f xs s')"

text \<open>The reasoning of every proof over such a loop: what each step keeps, the loop keeps.\<close>

lemma walk_keeps:
  assumes "walk f xs s = Inr s'" "P s" "\<And>x s s'. P s \<Longrightarrow> f x s = Inr s' \<Longrightarrow> P s'"
  shows "P s'"
  using assms
proof (induction xs arbitrary: s)
  case (Cons x xs)
  then obtain s1 where s1: "f x s = Inr s1" "walk f xs s1 = Inr s'" by (auto split: sum.splits)
  have "P s1" by (rule Cons.prems(3) [OF Cons.prems(2) s1(1)])
  then show ?case by (rule Cons.IH [OF s1(2) _ Cons.prems(3)])
qed simp

lemma walk_append: "walk f (xs @ ys) s = (case walk f xs s of Inl e \<Rightarrow> Inl e | Inr s' \<Rightarrow> walk f ys s')"
  by (induction xs arbitrary: s) (auto split: sum.splits)

section \<open>Chat Completions requests\<close>

record chat_message_in =
  mi_role :: string
  mi_content :: raw
  mi_calls :: "tool_call list"
  mi_call_id :: string

record chat_request =
  cq_messages :: "chat_message_in list"
  cq_max_tokens :: "int option"
  cq_max_completion :: "int option"
  cq_stop :: raw
  cq_tools :: "cc_tool list"
  cq_tool_choice :: raw
  cq_parallel :: "bool option"
  cq_stream :: bool
  cq_temperature :: "string option"
  cq_top_p :: "string option"
  cq_effort :: string
  cq_format :: raw

definition chat_message_zero :: chat_message_in where
  "chat_message_zero = \<lparr>mi_role = [], mi_content = None, mi_calls = [], mi_call_id = []\<rparr>"

definition dec_chat_message :: "chat_message_in dec" where
  "dec_chat_message = dec_struct
     [(''role'', field mi_role mi_role_update dec_string), (''content'', field mi_content mi_content_update dec_raw),
      (''tool_calls'', field mi_calls mi_calls_update (dec_list tool_call_zero dec_tool_call)),
      (''tool_call_id'', field mi_call_id mi_call_id_update dec_string)]"

definition cc_function_zero :: cc_function where
  "cc_function_zero = \<lparr>fn_name = [], fn_description = [], fn_parameters = None, fn_strict = None\<rparr>"

definition dec_cc_function :: "cc_function dec" where
  "dec_cc_function = dec_struct
     [(''name'', field fn_name fn_name_update dec_string),
      (''description'', field fn_description fn_description_update dec_string),
      (''parameters'', field fn_parameters fn_parameters_update dec_raw),
      (''strict'', field fn_strict fn_strict_update (dec_ptr False dec_bool))]"

definition dec_cc_tool :: "cc_tool dec" where
  "dec_cc_tool = dec_struct
     [(''type'', field cct_type cct_type_update dec_string),
      (''function'', field cct_function cct_function_update dec_cc_function)]"

definition chat_request_zero :: chat_request where
  "chat_request_zero = \<lparr>cq_messages = [], cq_max_tokens = None, cq_max_completion = None, cq_stop = None, cq_tools = [],
     cq_tool_choice = None, cq_parallel = None, cq_stream = False, cq_temperature = None, cq_top_p = None,
     cq_effort = [], cq_format = None\<rparr>"

definition chat_request_fields :: "(string \<times> chat_request dec) list" where
  "chat_request_fields =
     [(''messages'', field cq_messages cq_messages_update (dec_list chat_message_zero dec_chat_message)),
      (''max_tokens'', field cq_max_tokens cq_max_tokens_update (dec_ptr 0 dec_int64)),
      (''max_completion_tokens'', field cq_max_completion cq_max_completion_update (dec_ptr 0 dec_int64)),
      (''stop'', field cq_stop cq_stop_update dec_raw),
      (''tools'', field cq_tools cq_tools_update (dec_list \<lparr>cct_type = [], cct_function = cc_function_zero\<rparr> dec_cc_tool)),
      (''tool_choice'', field cq_tool_choice cq_tool_choice_update dec_raw),
      (''parallel_tool_calls'', field cq_parallel cq_parallel_update (dec_ptr False dec_bool)),
      (''stream'', field cq_stream cq_stream_update dec_bool),
      (''temperature'', field cq_temperature cq_temperature_update (dec_ptr [] dec_number)),
      (''top_p'', field cq_top_p cq_top_p_update (dec_ptr [] dec_number)),
      (''reasoning_effort'', field cq_effort cq_effort_update dec_string),
      (''response_format'', field cq_format cq_format_update dec_raw)]"

definition decode_chat_request :: "string \<Rightarrow> string \<Rightarrow> chat_request result" where
  "decode_chat_request diag body =
     (case unmarshal (dec_struct chat_request_fields) body chat_request_zero of
        (_, False) \<Rightarrow> Inl (translation (''malformed openai request JSON: '' @ diag))
      | (r, True) \<Rightarrow> Inr r)"

definition decode_responses_request :: "string \<Rightarrow> string \<Rightarrow> responses_request result" where
  "decode_responses_request diag body =
     (case unmarshal dec_responses_request body responses_request_zero of
        (_, False) \<Rightarrow> Inl (translation (''malformed openai-response request JSON: '' @ diag))
      | (r, True) \<Rightarrow> Inr r)"

section \<open>Rendering\<close>

definition gv_number :: "float_text \<Rightarrow> string \<Rightarrow> gv" where
  "gv_number fl s = GRaw (JNum (case fl s of Some t \<Rightarrow> t | None \<Rightarrow> s))"

definition if_some :: "string \<Rightarrow> ('a \<Rightarrow> gv) \<Rightarrow> 'a option \<Rightarrow> (string \<times> gv) list" where
  "if_some k g v = (case v of None \<Rightarrow> [] | Some x \<Rightarrow> [(k, g x)])"

definition if_any :: "string \<Rightarrow> ('a \<Rightarrow> gv) \<Rightarrow> 'a list \<Rightarrow> (string \<times> gv) list" where
  "if_any k g xs = (if xs = [] then [] else [(k, GArr (map g xs))])"

definition if_true :: "string \<Rightarrow> bool \<Rightarrow> (string \<times> gv) list" where
  "if_true k b = (if b then [(k, GBool True)] else [])"

definition gv_cc_tool :: "cc_tool \<Rightarrow> gv" where
  "gv_cc_tool t = GStruct [(''type'', GStr (cct_type t)), (''function'', gv_cc_function (cct_function t))]"

definition members :: "gv \<Rightarrow> (string \<times> gv) list" where
  "members g = (case g of GMap kvs \<Rightarrow> kvs | _ \<Rightarrow> [])"

end
