(* ===== verification/Policy.thy ===== *)
theory Policy
  imports Outbound
begin

text \<open>
  \<open>internal/adapter/shared/responses_policy.go\<close>: the options of a Responses request that
  Chat Completions cannot honour, and the two mappings of structured output formats.
\<close>

section \<open>Stateful and unsupported options\<close>

definition policy_error :: "string \<Rightarrow> string \<Rightarrow> err" where
  "policy_error fld requirement = mk_err ClassUnsupported (''Responses option '' @ fld @ '' '' @ requirement) 400 False"

text \<open>A member that is there and not null.\<close>

definition given :: "(string \<times> json) list \<Rightarrow> string \<Rightarrow> json option" where
  "given ms k = (case map_of ms k of Some j \<Rightarrow> (if j = JNull then None else Some j) | None \<Rightarrow> None)"

fun first_error :: "err option list \<Rightarrow> err option" where
  "first_error [] = None"
| "first_error (Some e # es) = Some e"
| "first_error (None # es) = first_error es"

definition must_be_false :: "(string \<times> json) list \<Rightarrow> string \<Rightarrow> err option" where
  "must_be_false ms k =
     (case given ms k of
        None \<Rightarrow> None
      | Some j \<Rightarrow>
          (case raw_as dec_bool False (Some j) of
             None \<Rightarrow> Some (policy_error k ''must be boolean or null'')
           | Some b \<Rightarrow> (if b then Some (policy_error k ''must be false'') else None)))"

definition must_be_object :: "(string \<times> json) list \<Rightarrow> string \<Rightarrow> err option" where
  "must_be_object ms k =
     (case given ms k of
        None \<Rightarrow> None
      | Some j \<Rightarrow> (if raw_as dec_raw_map None (Some j) = None then Some (policy_error k ''must be an object or null'') else None))"

definition must_be_stateless :: "(string \<times> json) list \<Rightarrow> string \<Rightarrow> err option" where
  "must_be_stateless ms k =
     (case given ms k of
        None \<Rightarrow> None
      | Some j \<Rightarrow>
          (case raw_as dec_string [] (Some j) of
             None \<Rightarrow> Some (policy_error k ''must be a string or null'')
           | Some s \<Rightarrow> (if s \<noteq> [] then Some (policy_error k ''is stateful and unsupported'') else None)))"

definition must_be_empty :: "(string \<times> json) list \<Rightarrow> string \<Rightarrow> err option" where
  "must_be_empty ms k =
     (case given ms k of
        None \<Rightarrow> None
      | Some j \<Rightarrow>
          (case raw_as (dec_list None dec_raw) [] (Some j) of
             None \<Rightarrow> Some (policy_error k ''must be an array or null'')
           | Some v \<Rightarrow> (if v \<noteq> [] then Some (policy_error k ''must be empty'') else None)))"

definition must_be_absent :: "(string \<times> json) list \<Rightarrow> string \<Rightarrow> err option" where
  "must_be_absent ms k =
     (if given ms k = None then None else Some (policy_error k ''cannot be enforced by Chat Completions''))"

definition must_be_one_of :: "(string \<times> json) list \<Rightarrow> string \<times> string list \<Rightarrow> err option" where
  "must_be_one_of ms r =
     (case given ms (fst r) of
        None \<Rightarrow> None
      | Some j \<Rightarrow>
          (case raw_as dec_string [] (Some j) of
             None \<Rightarrow> Some (policy_error (fst r) ''must be a string or null'')
           | Some s \<Rightarrow> (if s \<notin> set (snd r) then Some (policy_error (fst r) ''has an unsupported value'') else None)))"

definition must_be_string :: "(string \<times> json) list \<Rightarrow> string \<Rightarrow> err option" where
  "must_be_string ms k =
     (case given ms k of
        None \<Rightarrow> None
      | Some j \<Rightarrow> (if raw_as dec_string [] (Some j) = None then Some (policy_error k ''must be a string or null'') else None))"

text \<open>The two options the code ranges over in the order of a Go map: either order.\<close>

definition ranged :: "(string \<times> string list) list" where
  "ranged = [(''service_tier'', [''auto'', ''default'']), (''truncation'', [''disabled''])]"

definition validate_responses_chat_options :: "bool \<Rightarrow> string \<Rightarrow> err option" where
  "validate_responses_chat_options swapped body =
     (case unmarshal dec_raw_map body None of
        (Some ms, True) \<Rightarrow>
          first_error
            (map (must_be_false ms) [''store'', ''background'']
             @ [must_be_object ms ''metadata'']
             @ map (must_be_stateless ms) [''previous_response_id'', ''conversation'']
             @ [must_be_empty ms ''include'', must_be_absent ms ''max_tool_calls'']
             @ map (must_be_one_of ms) (if swapped then rev ranged else ranged)
             @ map (must_be_string ms) [''prompt_cache_key'', ''prompt_cache_retention'', ''user'', ''safety_identifier''])
      | _ \<Rightarrow> Some (translation ''malformed Responses request JSON''))"

section \<open>Structured output formats\<close>

definition optional_members :: "(string \<times> json) list \<Rightarrow> (string \<times> gv) list" where
  "optional_members m = List.map_filter (\<lambda>k. map_option (\<lambda>j. (k, GRaw j)) (map_of m k)) [''description'', ''strict'']"

text \<open>Name and schema of a json_schema format; the name not empty.\<close>

definition named_schema :: "(string \<times> json) list \<Rightarrow> (json \<times> json) option" where
  "named_schema m =
     (case (map_of m ''name'', map_of m ''schema'') of
        (Some n, Some s) \<Rightarrow>
          (if raw_as dec_string [] (Some n) \<notin> {None, Some []} \<and> has_content (Some s) then Some (n, s) else None)
      | _ \<Rightarrow> None)"

definition responses_text_format_to_chat :: "raw \<Rightarrow> raw result" where
  "responses_text_format_to_chat r =
     (if \<not> has_content r then Inr None
      else (case raw_as dec_raw_map None r of
              Some (Some m) \<Rightarrow>
                (case raw_as dec_string [] (map_of m ''type'') of
                   None \<Rightarrow> Inl (translation ''Responses text format type is required'')
                 | Some ty \<Rightarrow>
                     (if ty = ''text'' \<or> ty = ''json_object'' then Inr r
                      else if ty = ''json_schema'' then
                        (case named_schema m of
                           None \<Rightarrow> Inl (translation ''Responses json_schema format requires name and schema'')
                         | Some (n, s) \<Rightarrow>
                             Inr (Some (encode (GMap [(''type'', GStr ''json_schema''),
                               (''json_schema'', GMap ([(''name'', GRaw n), (''schema'', GRaw s)] @ optional_members m))]))))
                      else Inl (unsupported_responses_tool ''unsupported Responses text format type'')))
            | _ \<Rightarrow> Inl (translation ''Responses text format must be an object'')))"

definition chat_response_format_to_responses :: "raw \<Rightarrow> raw result" where
  "chat_response_format_to_responses r =
     (if \<not> has_content r then Inr None
      else (case raw_as dec_raw_map None r of
              Some (Some m) \<Rightarrow>
                (case raw_as dec_string [] (map_of m ''type'') of
                   None \<Rightarrow> Inl (translation ''Chat response_format type is required'')
                 | Some ty \<Rightarrow>
                     (if ty = ''text'' \<or> ty = ''json_object'' then Inr r
                      else if ty \<noteq> ''json_schema'' then Inl (unsupported_responses_tool ''unsupported Chat response_format type'')
                      else (case raw_as dec_raw_map None (map_of m ''json_schema'') of
                              Some (Some inner) \<Rightarrow>
                                (case named_schema inner of
                                   None \<Rightarrow> Inl (translation ''Chat json_schema response_format requires name and schema'')
                                 | Some (n, s) \<Rightarrow>
                                     Inr (Some (encode (GMap ([(''type'', GRaw (JStr ''json_schema'')), (''name'', GRaw n),
                                       (''schema'', GRaw s)] @ optional_members inner)))))
                            | _ \<Rightarrow> Inl (translation ''Chat json_schema response_format requires json_schema''))))
            | _ \<Rightarrow> Inl (translation ''Chat response_format must be an object'')))"

section \<open>What a request that passes may carry\<close>

lemma first_error_None: "first_error es = None \<longleftrightarrow> (\<forall>e \<in> set es. e = None)"
  by (induction es rule: first_error.induct) auto

lemma given_None: "given ms k = None \<longleftrightarrow> map_of ms k \<in> {None, Some JNull}"
  by (auto simp: given_def split: option.splits)

lemma given_not_null: "given ms k = Some j \<Longrightarrow> j \<noteq> JNull"
  by (auto simp: given_def split: option.splits if_splits)

lemma must_be_false_None:
  assumes "must_be_false ms k = None"
  shows "given ms k \<in> {None, Some (JBool False)}"
proof (cases "given ms k")
  case (Some j)
  then show ?thesis using assms given_not_null [OF Some]
    by (cases j) (auto simp: must_be_false_def raw_as_def split: if_splits)
qed simp

lemma must_be_stateless_None:
  assumes "must_be_stateless ms k = None"
  shows "given ms k = None \<or> (\<exists>t. given ms k = Some (JStr t) \<and> unquote t = [])"
proof (cases "given ms k")
  case (Some j)
  then show ?thesis using assms given_not_null [OF Some]
    by (cases j) (auto simp: must_be_stateless_def raw_as_def split: if_splits)
qed simp

lemma must_be_empty_None:
  assumes "must_be_empty ms k = None"
  shows "given ms k \<in> {None, Some (JArr [])}"
proof (cases "given ms k")
  case (Some j)
  then show ?thesis using assms given_not_null [OF Some]
    by (cases j) (auto simp: must_be_empty_def raw_as_def dec_raw_def split: if_splits)
qed simp

section \<open>Properties\<close>

text \<open>
  C32. A Responses request the strict mode passes asks for nothing Chat Completions cannot do: no
  storage, no background run, no stored conversation, nothing to include, no limit of tool calls;
  and whether a request passes does not depend on the order in which a Go map is ranged over.
\<close>

theorem strict_request_stateless:
  assumes "validate_responses_chat_options swapped body = None"
  shows "validate_responses_chat_options (\<not> swapped) body = None
    \<and> (\<exists>ms. unmarshal dec_raw_map body None = (Some ms, True)
         \<and> (\<forall>k \<in> {''store'', ''background''}. given ms k \<in> {None, Some (JBool False)})
         \<and> (\<forall>k \<in> {''previous_response_id'', ''conversation''}.
              given ms k = None \<or> (\<exists>t. given ms k = Some (JStr t) \<and> unquote t = []))
         \<and> given ms ''include'' \<in> {None, Some (JArr [])} \<and> given ms ''max_tool_calls'' = None)"
proof -
  obtain ms where u: "unmarshal dec_raw_map body None = (Some ms, True)"
    using assms by (auto simp: validate_responses_chat_options_def split: prod.splits option.splits bool.splits)
  let ?es = "\<lambda>sw. map (must_be_false ms) [''store'', ''background''] @ [must_be_object ms ''metadata'']
      @ map (must_be_stateless ms) [''previous_response_id'', ''conversation'']
      @ [must_be_empty ms ''include'', must_be_absent ms ''max_tool_calls'']
      @ map (must_be_one_of ms) (if sw then rev ranged else ranged)
      @ map (must_be_string ms) [''prompt_cache_key'', ''prompt_cache_retention'', ''user'', ''safety_identifier'']"
  have v: "validate_responses_chat_options sw body = first_error (?es sw)" for sw
    by (simp add: validate_responses_chat_options_def u)
  have n: "\<forall>e \<in> set (?es swapped). e = None" using assms unfolding v first_error_None .
  have "set (?es (\<not> swapped)) = set (?es swapped)" by (cases swapped) (auto simp: ranged_def)
  then have "validate_responses_chat_options (\<not> swapped) body = None" unfolding v first_error_None using n by blast
  moreover have "must_be_false ms ''store'' = None" "must_be_false ms ''background'' = None"
    "must_be_stateless ms ''previous_response_id'' = None" "must_be_stateless ms ''conversation'' = None"
    "must_be_empty ms ''include'' = None" "must_be_absent ms ''max_tool_calls'' = None"
    using n by simp_all
  ultimately show ?thesis using u must_be_false_None must_be_stateless_None must_be_empty_None
    by (auto simp: must_be_absent_def split: if_splits)
qed

lemma strict_sample:
  "validate_responses_chat_options False ''{\"store\":false,\"conversation\":\"\"}'' = None"
  by code_simp

lemma strict_request_stateless_witness:
  "validate_responses_chat_options True ''{\"store\":false,\"conversation\":\"\"}'' = None"
  using strict_request_stateless [OF strict_sample] by simp

end
