(* ===== verification/Build_Responses.thy ===== *)
theory Build_Responses
  imports Policy
begin

text \<open>
  The request builders of \<open>internal/adapter/responses/request.go\<close>: Chat Completions and
  Messages requests become Responses requests. The arguments of a \<open>tool_use\<close> block are the
  bytes of its input; \<open>txt\<close> gives the bytes of a value, whose white space \<open>json\<close>
  does not keep.
\<close>

section \<open>The outbound request\<close>

record resp_tool_out =
  rto_name :: string
  rto_description :: string
  rto_parameters :: json
  rto_strict :: "bool option"

record responses_envelope =
  re_model :: string
  re_input :: "gv list"
  re_instructions :: string
  re_tools :: "resp_tool_out list"
  re_choice :: raw
  re_parallel :: "bool option"
  re_effort :: "string option"
  re_max_tokens :: "int option"
  re_stream :: bool
  re_temperature :: "string option"
  re_top_p :: "string option"
  re_format :: raw

definition gv_resp_tool :: "resp_tool_out \<Rightarrow> gv" where
  "gv_resp_tool t =
     GStruct ([(''type'', GStr ''function''), (''name'', GStr (rto_name t))] @ str_field ''description'' (rto_description t)
       @ [(''parameters'', GRaw (rto_parameters t))] @ if_some ''strict'' GBool (rto_strict t))"

definition gv_responses_envelope :: "float_text \<Rightarrow> responses_envelope \<Rightarrow> gv" where
  "gv_responses_envelope fl r =
     GStruct ([(''model'', GStr (re_model r))] @ if_any ''input'' id (re_input r)
       @ str_field ''instructions'' (re_instructions r) @ if_any ''tools'' gv_resp_tool (re_tools r)
       @ if_some ''tool_choice'' GRaw (re_choice r) @ if_some ''parallel_tool_calls'' GBool (re_parallel r)
       @ if_some ''reasoning'' (\<lambda>e. GMap [(''effort'', GStr e)]) (re_effort r)
       @ if_some ''max_output_tokens'' GInt (re_max_tokens r) @ if_true ''stream'' (re_stream r)
       @ if_some ''temperature'' (gv_number fl) (re_temperature r) @ if_some ''top_p'' (gv_number fl) (re_top_p r)
       @ if_some ''text'' (\<lambda>j. GStruct [(''format'', GRaw j)]) (re_format r))"

definition new_responses_envelope :: "string \<Rightarrow> bool \<Rightarrow> string option \<Rightarrow> string option \<Rightarrow> responses_envelope" where
  "new_responses_envelope model stream temp top_p =
     \<lparr>re_model = model, re_input = [], re_instructions = [], re_tools = [], re_choice = None, re_parallel = None,
      re_effort = None, re_max_tokens = None, re_stream = stream, re_temperature = temp, re_top_p = top_p, re_format = None\<rparr>"

definition message_item_gv :: "string \<Rightarrow> gv list \<Rightarrow> gv" where
  "message_item_gv role parts = GMap [(''type'', GStr ''message''), (''role'', GStr role), (''content'', GArr parts)]"

definition text_part_gv :: "string \<Rightarrow> string \<Rightarrow> gv" where
  "text_part_gv role t =
     GMap [(''type'', GStr (if role = ''assistant'' then ''output_text'' else ''input_text'')), (''text'', GStr t)]"

definition image_part_gv :: "string \<Rightarrow> gv" where
  "image_part_gv url = GMap [(''type'', GStr ''input_image''), (''image_url'', GStr url)]"

definition call_gv :: "string \<Rightarrow> string \<Rightarrow> string \<Rightarrow> gv" where
  "call_gv i nm args =
     GMap [(''type'', GStr ''function_call''), (''call_id'', GStr i), (''name'', GStr nm), (''arguments'', GStr args)]"

definition call_output_gv :: "string \<Rightarrow> string \<Rightarrow> gv" where
  "call_output_gv i t = GMap [(''type'', GStr ''function_call_output''), (''call_id'', GStr i), (''output'', GStr t)]"

fun resp_tool_choice :: "tool_choice_kind \<Rightarrow> string \<Rightarrow> raw" where
  "resp_tool_choice ChoiceAuto nm = Some (JStr ''auto'')"
| "resp_tool_choice ChoiceAny nm = Some (JStr ''required'')"
| "resp_tool_choice ChoiceNone nm = Some (JStr ''none'')"
| "resp_tool_choice ChoiceNamed nm = Some (encode (GMap [(''type'', GStr ''function''), (''name'', GStr nm)]))"
| "resp_tool_choice ChoiceAbsent nm = None"

definition render_part :: "string \<Rightarrow> content_part \<Rightarrow> gv" where
  "render_part role p = (case p of ImagePart u \<Rightarrow> image_part_gv u | TextPart t \<Rightarrow> text_part_gv role t)"

definition response_parts :: "string \<Rightarrow> raw \<Rightarrow> string \<Rightarrow> gv list result" where
  "response_parts diag r role = map_sum id (map (render_part role)) (decode_string_or_parts diag r responses_path)"

definition is_text_part :: "gv \<Rightarrow> bool" where
  "is_text_part p = (block_field ''type'' p \<in> {''input_text'', ''output_text''})"

definition reasoning_effort_for :: "string \<Rightarrow> thinking_support option \<Rightarrow> string option" where
  "reasoning_effort_for effort ts =
     (if effort = ''auto'' then None
      else if effort = ''none'' then (if ''none'' \<in> set (supported_levels ts) then Some effort else None)
      else Some effort)"

section \<open>Chat Completions requests\<close>

text \<open>Instructions and input collected so far.\<close>

type_synonym transcript = "string \<times> gv list"

definition unsupported_tool_part :: "string \<Rightarrow> err" where
  "unsupported_tool_part ty =
     translation (''unsupported tool content part type '' @ go_q ty @ ''; function_call_output carries text only'')"

definition add_instructions :: "string \<Rightarrow> string \<Rightarrow> string" where
  "add_instructions instr t = (if t = [] then instr else if instr = [] then t else instr @ [nl, nl] @ t)"

definition turn_item :: "string \<Rightarrow> gv list \<Rightarrow> gv list" where
  "turn_item role parts = (if parts = [] then [] else [message_item_gv role parts])"

definition chat_calls :: "tool_call list \<Rightarrow> gv list" where
  "chat_calls = map (\<lambda>t. call_gv (tl_id t) (tl_name t) (default_args (tl_args t)))"

definition respond_chat_message :: "string \<Rightarrow> chat_message_in \<Rightarrow> transcript \<Rightarrow> transcript result" where
  "respond_chat_message diag m c =
     (case c of (instr, input) \<Rightarrow>
        if mi_role m \<notin> {''system'', ''developer'', ''user'', ''assistant'', ''tool''} then Inl (validate_role (mi_role m) responses_path)
        else (case response_parts diag (mi_content m) (mi_role m) of
                Inl e \<Rightarrow> Inl e
              | Inr ps \<Rightarrow>
                  (if mi_role m = ''system'' \<or> mi_role m = ''developer'' then
                     (if list_all is_text_part ps then Inr (add_instructions instr (join_texts (map members ps)), input)
                      else Inl system_image_rejected)
                   else if mi_role m = ''user'' then Inr (instr, input @ turn_item (mi_role m) ps)
                   else if mi_role m = ''assistant'' then
                     Inr (instr, input @ turn_item (mi_role m) ps @ chat_calls (mi_calls m))
                   else (case List.find (\<lambda>p. \<not> is_text_part p) ps of
                           Some p \<Rightarrow> Inl (unsupported_tool_part (block_field ''type'' p))
                         | None \<Rightarrow> Inr (instr, input @ [call_output_gv (mi_call_id m) (join_texts (map members ps))])))))"

definition check_choices :: "string \<Rightarrow> string \<Rightarrow> err option" where
  "check_choices diag body =
     (case unmarshal (dec_struct [(''n'', dec_raw)]) body None of
        (_, False) \<Rightarrow> Some (translation (''malformed openai request JSON: '' @ diag))
      | (r, True) \<Rightarrow>
          (if \<not> has_content r then None
           else (case raw_as dec_int64 0 r of
                   None \<Rightarrow> Some (translation ''Chat Completions n must be a positive integer'')
                 | Some n \<Rightarrow>
                     (if n < 1 then Some (translation ''Chat Completions n must be a positive integer'')
                      else if 1 < n then Some (unsupported ''Chat Completions n greater than 1 is not supported by the Responses API'')
                      else None))))"

definition tool_for_responses :: "cc_tool \<Rightarrow> resp_tool_out result" where
  "tool_for_responses t =
     (case function_tool (cct_type t) responses_path of
        Some e \<Rightarrow> Inl e
      | None \<Rightarrow> Inr \<lparr>rto_name = fn_name (cct_function t), rto_description = fn_description (cct_function t),
                  rto_parameters = object_schema (fn_parameters (cct_function t)), rto_strict = fn_strict (cct_function t)\<rparr>)"

definition positive :: "int option \<Rightarrow> int option" where
  "positive v = (case v of Some n \<Rightarrow> (if 0 < n then Some n else None) | None \<Rightarrow> None)"

definition chat_effort :: "string \<Rightarrow> thinking_support option \<Rightarrow> string option result" where
  "chat_effort effort ts =
     (if effort = [] then Inr None
      else (case validate_effort effort ts of
              Some e \<Rightarrow> Inl e
            | None \<Rightarrow> Inr (reasoning_effort_for (to_lower (trim_space effort)) ts)))"

definition responses_from_chat ::
  "string \<Rightarrow> string \<Rightarrow> string \<Rightarrow> thinking_support option \<Rightarrow> responses_envelope result" where
  "responses_from_chat diag model body ts =
     (case decode_chat_request diag body of
        Inl e \<Rightarrow> Inl e
      | Inr q \<Rightarrow>
          (case check_choices diag body of
             Some e \<Rightarrow> Inl e
           | None \<Rightarrow>
               (case chat_response_format_to_responses (cq_format q) of
                  Inl e \<Rightarrow> Inl e
                | Inr fmt \<Rightarrow>
                    (case decode_tool_choice diag (cq_tool_choice q) of
                       Inl e \<Rightarrow> Inl e
                     | Inr (kind, nm) \<Rightarrow>
                         (case chat_effort (cq_effort q) ts of
                            Inl e \<Rightarrow> Inl e
                          | Inr effort \<Rightarrow>
                              (case walk (respond_chat_message diag) (cq_messages q) ([], []) of
                                 Inl e \<Rightarrow> Inl e
                               | Inr (instr, input) \<Rightarrow>
                                   (case collect tool_for_responses (cq_tools q) of
                                      Inl e \<Rightarrow> Inl e
                                    | Inr tools \<Rightarrow>
                                        Inr ((new_responses_envelope model (cq_stream q) (cq_temperature q) (cq_top_p q))
                                          \<lparr>re_parallel := cq_parallel q, re_format := fmt, re_choice := resp_tool_choice kind nm,
                                           re_max_tokens := (case positive (cq_max_tokens q) of Some n \<Rightarrow> Some n
                                             | None \<Rightarrow> positive (cq_max_completion q)),
                                           re_effort := effort, re_input := input, re_instructions := instr, re_tools := tools\<rparr>))))))))"

section \<open>Messages requests\<close>

definition raw_text :: "(json \<Rightarrow> string) \<Rightarrow> raw \<Rightarrow> string" where
  "raw_text txt r = (case r of None \<Rightarrow> [] | Some j \<Rightarrow> txt j)"

text \<open>The parts not yet sent as a message, and the input.\<close>

definition respond_claude_block ::
  "(json \<Rightarrow> string) \<Rightarrow> string \<Rightarrow> claude_block \<Rightarrow> gv list \<times> gv list \<Rightarrow> (gv list \<times> gv list) result" where
  "respond_claude_block txt role b c =
     (case c of (parts, input) \<Rightarrow>
        if cb_kind b = ''text'' then Inr (parts @ [text_part_gv role (cb_text b)], input)
        else if cb_kind b = ''image'' then Inr (parts @ [image_part_gv (cb_url b)], input)
        else if cb_kind b = ''tool_use'' then
          Inr ([], input @ turn_item role parts @ [call_gv (cb_call_id b) (cb_name b) (default_args (raw_text txt (cb_input b)))])
        else if cb_kind b = ''tool_result'' then
          (case tool_result_text (cb_result b) ''function_call_output carries text only'' of
             Inl e \<Rightarrow> Inl e
           | Inr t \<Rightarrow>
               Inr ([], input @ turn_item role parts
                 @ [call_output_gv (cb_call_id b) (if cb_is_error b then tool_result_error_prefix @ t else t)]))
        else if cb_kind b = ''thinking'' \<or> cb_kind b = ''redacted_thinking'' then Inr c
        else Inl (unsupported_part_type (cb_kind b) responses_path))"

definition respond_claude_message ::
  "(json \<Rightarrow> string) \<Rightarrow> claude_message \<Rightarrow> gv list \<Rightarrow> gv list result" where
  "respond_claude_message txt m input =
     (if cm_role m \<noteq> ''user'' \<and> cm_role m \<noteq> ''assistant'' then Inl (validate_role (cm_role m) responses_path)
      else (case walk (respond_claude_block txt (cm_role m)) (cm_blocks m)
                  (if cm_content m = [] then [] else [text_part_gv (cm_role m) (cm_content m)], input) of
              Inl e \<Rightarrow> Inl e
            | Inr (parts, input') \<Rightarrow> Inr (input' @ turn_item (cm_role m) parts)))"

text \<open>The outer None is a panic of the clamp of thinking levels.\<close>

definition claude_effort :: "thinking_conf option \<Rightarrow> thinking_support option \<Rightarrow> string option option" where
  "claude_effort th ts =
     (case th of
        Some t \<Rightarrow>
          (if thinking_enabled th then map_option (\<lambda>e. reasoning_effort_for e ts) (effort_from_budget (th_budget t) ts)
           else Some None)
      | None \<Rightarrow> Some None)"

definition responses_from_claude ::
  "(json \<Rightarrow> string) \<Rightarrow> string \<Rightarrow> string \<Rightarrow> string \<Rightarrow> thinking_support option \<Rightarrow> responses_envelope result option" where
  "responses_from_claude txt diag model body ts =
     (case decode_claude_messages diag body of
        Inl e \<Rightarrow> Some (Inl e)
      | Inr q \<Rightarrow>
          (case claude_effort (cr_thinking q) ts of
             None \<Rightarrow> None
           | Some effort \<Rightarrow>
               (case walk (respond_claude_message txt) (cr_messages q) [] of
                  Inl e \<Rightarrow> Some (Inl e)
                | Inr input \<Rightarrow>
                    Some (Inr ((new_responses_envelope model (cr_stream q) (cr_temperature q) (cr_top_p q))
                      \<lparr>re_max_tokens := Some (cr_max_tokens q), re_choice := resp_tool_choice (cr_choice_kind q) (cr_choice_name q),
                       re_effort := effort, re_instructions := cr_system q, re_input := input,
                       re_tools := map (\<lambda>t. \<lparr>rto_name = ct_name t, rto_description = ct_description t,
                         rto_parameters = object_schema (ct_input_schema t), rto_strict = None\<rparr>) (cr_tools q)\<rparr>)))))"

definition build_responses_request ::
  "float_text \<Rightarrow> (json \<Rightarrow> string) \<Rightarrow> string \<Rightarrow> string \<Rightarrow> string \<Rightarrow> string \<Rightarrow> thinking_support option \<Rightarrow> string result option" where
  "build_responses_request fl txt diag model source body ts =
     (if source = ''openai-response'' then Some (rewrite_model_id diag model body ''openai-response'')
      else if source = ''openai'' then
        Some (map_sum id (\<lambda>r. marshal (gv_responses_envelope fl r)) (responses_from_chat diag model body ts))
      else if source = ''claude'' then
        map_option (map_sum id (\<lambda>r. marshal (gv_responses_envelope fl r))) (responses_from_claude txt diag model body ts)
      else Some (Inl (unsupported_format source responses_path)))"

section \<open>Calls\<close>

definition calls_in :: "gv list \<Rightarrow> gv list" where
  "calls_in gs = filter (\<lambda>g. block_field ''type'' g = ''function_call'') gs"

lemma calls_in_simps [simp]:
  "calls_in [] = []" "calls_in (xs @ ys) = calls_in xs @ calls_in ys" "calls_in [call_gv i n a] = [call_gv i n a]"
  "calls_in [call_output_gv i t] = []" "calls_in (turn_item r ps) = []" "calls_in (chat_calls ts) = chat_calls ts"
  by (auto simp: calls_in_def call_gv_def call_output_gv_def turn_item_def message_item_gv_def chat_calls_def block_field_def
      intro!: filter_True)

definition said_calls :: "chat_message_in \<Rightarrow> gv list" where
  "said_calls m = (if mi_role m = ''assistant'' then chat_calls (mi_calls m) else [])"

lemma calls_in_chat:
  "respond_chat_message diag m (i, gs) = Inr (i', gs') \<Longrightarrow> calls_in gs' = calls_in gs @ said_calls m"
  by (auto simp: respond_chat_message_def said_calls_def split: sum.splits if_splits option.splits)

lemma calls_in_chat_walk:
  "walk (respond_chat_message diag) ms (i, gs) = Inr (i', gs') \<Longrightarrow> calls_in gs' = calls_in gs @ concat (map said_calls ms)"
proof (induction ms arbitrary: i gs)
  case (Cons m ms)
  then obtain i1 gs1 where s: "respond_chat_message diag m (i, gs) = Inr (i1, gs1)"
      "walk (respond_chat_message diag) ms (i1, gs1) = Inr (i', gs')"
    by (auto split: sum.splits)
  show ?case using calls_in_chat [OF s(1)] Cons.IH [OF s(2)] by simp
qed simp

definition used_calls :: "(json \<Rightarrow> string) \<Rightarrow> claude_message \<Rightarrow> gv list" where
  "used_calls txt m =
     map (\<lambda>b. call_gv (cb_call_id b) (cb_name b) (default_args (raw_text txt (cb_input b))))
       (filter (\<lambda>b. cb_kind b = ''tool_use'') (cm_blocks m))"

lemma calls_in_blocks:
  "walk (respond_claude_block txt role) bs (ps, gs) = Inr (ps', gs') \<Longrightarrow>
     calls_in gs' = calls_in gs @ map (\<lambda>b. call_gv (cb_call_id b) (cb_name b) (default_args (raw_text txt (cb_input b))))
       (filter (\<lambda>b. cb_kind b = ''tool_use'') bs)"
proof (induction bs arbitrary: ps gs)
  case (Cons b bs)
  then obtain ps1 gs1 where s: "respond_claude_block txt role b (ps, gs) = Inr (ps1, gs1)"
      "walk (respond_claude_block txt role) bs (ps1, gs1) = Inr (ps', gs')"
    by (auto split: sum.splits)
  show ?case using s(1) Cons.IH [OF s(2)] by (auto simp: respond_claude_block_def split: if_splits sum.splits)
qed simp

lemma calls_in_claude_walk:
  "walk (respond_claude_message txt) ms gs = Inr gs' \<Longrightarrow> calls_in gs' = calls_in gs @ concat (map (used_calls txt) ms)"
proof (induction ms arbitrary: gs)
  case (Cons m ms)
  then obtain gs1 where s: "respond_claude_message txt m gs = Inr gs1" "walk (respond_claude_message txt) ms gs1 = Inr gs'"
    by (auto split: sum.splits)
  have "calls_in gs1 = calls_in gs @ used_calls txt m"
    using s(1) by (auto simp: respond_claude_message_def used_calls_def split: if_splits sum.splits dest!: calls_in_blocks)
  then show ?case using Cons.IH [OF s(2)] by simp
qed simp

section \<open>Properties\<close>

text \<open>
  C19. No call of a conversation is lost, repeated or moved when it becomes a Responses request: its
  function calls are those the assistant's messages made, in order, with their identifiers, names
  and arguments, whichever of the two protocols the conversation came from.
\<close>

theorem responses_calls_kept:
  "(responses_from_chat diag model body ts = Inr r \<longrightarrow>
      (\<exists>q. decode_chat_request diag body = Inr q \<and> calls_in (re_input r) = concat (map said_calls (cq_messages q))))
   \<and> (responses_from_claude txt diag model body ts = Some (Inr r) \<longrightarrow>
      (\<exists>q. decode_claude_messages diag body = Inr q \<and> calls_in (re_input r) = concat (map (used_calls txt) (cr_messages q))))"
proof (intro conjI impI)
  assume a: "responses_from_chat diag model body ts = Inr r"
  then obtain q where q: "decode_chat_request diag body = Inr q" by (auto simp: responses_from_chat_def split: sum.splits)
  obtain i gs where w: "walk (respond_chat_message diag) (cq_messages q) ([], []) = Inr (i, gs)" "re_input r = gs"
    using a q by (auto simp: responses_from_chat_def new_responses_envelope_def split: sum.splits option.splits prod.splits)
  show "\<exists>q. decode_chat_request diag body = Inr q \<and> calls_in (re_input r) = concat (map said_calls (cq_messages q))"
    using q calls_in_chat_walk [OF w(1)] w(2) by simp
next
  assume a: "responses_from_claude txt diag model body ts = Some (Inr r)"
  then obtain q where q: "decode_claude_messages diag body = Inr q" by (auto simp: responses_from_claude_def split: sum.splits)
  obtain gs where w: "walk (respond_claude_message txt) (cr_messages q) [] = Inr gs" "re_input r = gs"
    using a q by (auto simp: responses_from_claude_def new_responses_envelope_def split: sum.splits option.splits)
  show "\<exists>q. decode_claude_messages diag body = Inr q \<and> calls_in (re_input r) = concat (map (used_calls txt) (cr_messages q))"
    using q calls_in_claude_walk [OF w(1)] w(2) by simp
qed

definition calling_body :: string where
  "calling_body = ''{\"messages\":[{\"role\":\"assistant\",\"tool_calls\":[{\"type\":\"function\",\"function\":{\"name\":\"f\"}}]}]}''"

lemma responses_sample:
  "case responses_from_chat [] ''m'' calling_body None of Inr r \<Rightarrow> length (re_input r) = 1 | _ \<Rightarrow> False"
  by code_simp

lemma responses_calls_kept_witness:
  "\<exists>r q. responses_from_chat [] ''m'' calling_body None = Inr r \<and> decode_chat_request [] calling_body = Inr q
     \<and> calls_in (re_input r) = concat (map said_calls (cq_messages q))"
proof -
  obtain r where r: "responses_from_chat [] ''m'' calling_body None = Inr r"
    using responses_sample by (auto split: sum.splits)
  show ?thesis using responses_calls_kept [of "[]" "''m''" calling_body None r] r by blast
qed

end
