(* ===== verification/Build_Chat.thy ===== *)
theory Build_Chat
  imports Build_Responses
begin

text \<open>
  The request builders of \<open>internal/adapter/chatcompletions/request.go\<close>: Messages and
  Responses requests become Chat Completions requests.
\<close>

section \<open>Steps that may fail\<close>

definition and_then :: "'a result \<Rightarrow> ('a \<Rightarrow> 'b result) \<Rightarrow> 'b result" where
  "and_then r f = (case r of Inl e \<Rightarrow> Inl e | Inr x \<Rightarrow> f x)"

lemma and_then_Inr: "and_then r f = Inr y \<longleftrightarrow> (\<exists>x. r = Inr x \<and> f x = Inr y)"
  by (cases r) (simp_all add: and_then_def)

definition refuse :: "err option \<Rightarrow> unit result" where
  "refuse e = (case e of None \<Rightarrow> Inr () | Some x \<Rightarrow> Inl x)"

section \<open>Native requests\<close>

definition valid_thinking :: "json \<Rightarrow> bool" where
  "valid_thinking j =
     (case raw_as dec_raw_map None (Some j) of
        Some (Some m) \<Rightarrow>
          (case raw_as dec_string [] (map_of m ''type'') of Some t \<Rightarrow> trim_space t \<noteq> [] | None \<Rightarrow> False)
      | _ \<Rightarrow> False)"

definition build_openai_request :: "string \<Rightarrow> string \<Rightarrow> string \<Rightarrow> string result" where
  "build_openai_request diag model body =
     (case unmarshal dec_raw_map body None of
        (_, False) \<Rightarrow> Inl (translation (''malformed openai request JSON: '' @ diag))
      | (None, True) \<Rightarrow> Inl (translation ''malformed request body: JSON null is not a valid request'')
      | (Some req, True) \<Rightarrow>
          (let th = map_of req ''thinking'';
               valid = (case th of Some j \<Rightarrow> valid_thinking j | None \<Rightarrow> False);
               req1 = (if th \<noteq> None \<and> \<not> valid then filter (\<lambda>(k, _). k \<noteq> ''thinking'') req else req)
           in if map_of req1 ''model'' = Some (JStr model) \<and> (valid \<or> th = None) then Inr body
              else if wf_lit model
              then Inr (marshal (GMap (map (\<lambda>(k, v). (k, GRaw v)) (AList.update ''model'' (JStr model) req1))))
              else Inl (translation ''model id cannot be represented as JSON'')))"

section \<open>The outbound request\<close>

datatype cc_content = NoContent | TextContent string | PartsContent "content_part list"

record cc_out =
  co_role :: string
  co_content :: cc_content
  co_calls :: "tool_call list"
  co_call_id :: string

record cc_request =
  qo_model :: string
  qo_messages :: "cc_out list"
  qo_max_tokens :: "int option"
  qo_stop :: "string list"
  qo_stream :: bool
  qo_temperature :: "string option"
  qo_top_p :: "string option"
  qo_effort :: string
  qo_tools :: "cc_tool list"
  qo_choice :: raw
  qo_parallel :: "bool option"
  qo_format :: raw
  qo_stream_options :: raw

definition gv_cc_part :: "content_part \<Rightarrow> gv" where
  "gv_cc_part p =
     (case p of
        TextPart t \<Rightarrow> GStruct ([(''type'', GStr ''text'')] @ str_field ''text'' t)
      | ImagePart u \<Rightarrow> GStruct [(''type'', GStr ''image_url''), (''image_url'', GStruct [(''url'', GStr u)])])"

fun gv_cc_content :: "cc_content \<Rightarrow> gv" where
  "gv_cc_content NoContent = GNull"
| "gv_cc_content (TextContent t) = GStr t"
| "gv_cc_content (PartsContent ps) = GArr (map gv_cc_part ps)"

definition gv_cc_out :: "cc_out \<Rightarrow> gv" where
  "gv_cc_out m =
     GStruct ([(''role'', GStr (co_role m)), (''content'', gv_cc_content (co_content m))]
       @ if_any ''tool_calls'' gv_tool_call (co_calls m) @ str_field ''tool_call_id'' (co_call_id m))"

definition gv_cc_request :: "float_text \<Rightarrow> cc_request \<Rightarrow> gv" where
  "gv_cc_request fl r =
     GStruct ([(''model'', GStr (qo_model r)), (''messages'', GArr (map gv_cc_out (qo_messages r)))]
       @ if_some ''max_tokens'' GInt (qo_max_tokens r)
       @ (if qo_stop r = [] then [] else [(''stop'', GArr (map GStr (qo_stop r)))])
       @ if_true ''stream'' (qo_stream r) @ if_some ''temperature'' (gv_number fl) (qo_temperature r)
       @ if_some ''top_p'' (gv_number fl) (qo_top_p r) @ str_field ''reasoning_effort'' (qo_effort r)
       @ if_any ''tools'' gv_cc_tool (qo_tools r) @ if_some ''tool_choice'' GRaw (qo_choice r)
       @ if_some ''parallel_tool_calls'' GBool (qo_parallel r) @ if_some ''response_format'' GRaw (qo_format r)
       @ if_some ''stream_options'' GRaw (qo_stream_options r))"

definition new_cc_request :: "string \<Rightarrow> bool \<Rightarrow> string option \<Rightarrow> string option \<Rightarrow> cc_request" where
  "new_cc_request model stream temp top_p =
     \<lparr>qo_model = model, qo_messages = [], qo_max_tokens = None, qo_stop = [], qo_stream = stream, qo_temperature = temp,
      qo_top_p = top_p, qo_effort = [], qo_tools = [], qo_choice = None, qo_parallel = None, qo_format = None,
      qo_stream_options = None\<rparr>"

fun cc_tool_choice :: "tool_choice_kind \<Rightarrow> string \<Rightarrow> raw" where
  "cc_tool_choice ChoiceAuto nm = Some (JStr ''auto'')"
| "cc_tool_choice ChoiceAny nm = Some (JStr ''required'')"
| "cc_tool_choice ChoiceNone nm = Some (JStr ''none'')"
| "cc_tool_choice ChoiceNamed nm =
     Some (encode (GMap [(''type'', GStr ''function''), (''function'', GMap [(''name'', GStr nm)])]))"
| "cc_tool_choice ChoiceAbsent nm = None"

definition cc_message :: "string \<Rightarrow> cc_content \<Rightarrow> cc_out" where
  "cc_message role c = \<lparr>co_role = role, co_content = c, co_calls = [], co_call_id = []\<rparr>"

definition cc_tool_message :: "string \<Rightarrow> string \<Rightarrow> cc_out" where
  "cc_tool_message i t = \<lparr>co_role = ''tool'', co_content = TextContent t, co_calls = [], co_call_id = i\<rparr>"

section \<open>Messages requests\<close>

text \<open>The parts not yet sent, and the messages.\<close>

definition user_turn :: "content_part list \<Rightarrow> cc_out list" where
  "user_turn parts =
     (case parts of
        [] \<Rightarrow> []
      | [TextPart t] \<Rightarrow> [cc_message ''user'' (TextContent t)]
      | _ \<Rightarrow> [cc_message ''user'' (PartsContent parts)])"

definition chat_user_block :: "claude_block \<Rightarrow> content_part list \<times> cc_out list \<Rightarrow> (content_part list \<times> cc_out list) result" where
  "chat_user_block b c =
     (case c of (parts, msgs) \<Rightarrow>
        if cb_kind b = ''text'' then Inr (parts @ [TextPart (cb_text b)], msgs)
        else if cb_kind b = ''image'' then Inr (parts @ [ImagePart (cb_url b)], msgs)
        else if cb_kind b = ''tool_result'' then
          and_then (tool_result_text (cb_result b) ''tool messages carry text only'')
            (\<lambda>t. Inr ([], msgs @ user_turn parts
                 @ [cc_tool_message (cb_call_id b) (if cb_is_error b then tool_result_error_prefix @ t else t)]))
        else Inl (unsupported_part_type (cb_kind b) chat_path))"

definition claude_user_messages :: "claude_message \<Rightarrow> cc_out list result" where
  "claude_user_messages m =
     and_then (walk chat_user_block (cm_blocks m) (if cm_content m = [] then [] else [TextPart (cm_content m)], []))
       (\<lambda>(parts, msgs). Inr (msgs @ user_turn parts))"

definition chat_assistant_block ::
  "(json \<Rightarrow> string) \<Rightarrow> claude_block \<Rightarrow> string \<times> tool_call list \<Rightarrow> (string \<times> tool_call list) result" where
  "chat_assistant_block txt b c =
     (case c of (t, calls) \<Rightarrow>
        if cb_kind b = ''text'' then Inr (t @ cb_text b, calls)
        else if cb_kind b = ''thinking'' \<or> cb_kind b = ''redacted_thinking'' then Inr c
        else if cb_kind b = ''tool_use'' then
          Inr (t, calls @ [new_tool_call (cb_call_id b) (cb_name b) (default_args (raw_text txt (cb_input b)))])
        else Inl (unsupported_part_type (cb_kind b) chat_path))"

definition claude_assistant_message :: "(json \<Rightarrow> string) \<Rightarrow> claude_message \<Rightarrow> cc_out list result" where
  "claude_assistant_message txt m =
     and_then (walk (chat_assistant_block txt) (cm_blocks m) (cm_content m, []))
       (\<lambda>(t, calls). Inr (if t = [] \<and> calls = [] then []
          else [(cc_message ''assistant'' (if t = [] then NoContent else TextContent t))\<lparr>co_calls := calls\<rparr>]))"

definition chat_claude_message :: "(json \<Rightarrow> string) \<Rightarrow> claude_message \<Rightarrow> cc_out list \<Rightarrow> cc_out list result" where
  "chat_claude_message txt m msgs =
     (if cm_role m = ''user'' then and_then (claude_user_messages m) (\<lambda>ms. Inr (msgs @ ms))
      else if cm_role m = ''assistant'' then and_then (claude_assistant_message txt m) (\<lambda>ms. Inr (msgs @ ms))
      else Inl (validate_role (cm_role m) chat_path))"

definition chat_thinking_effort :: "thinking_conf option \<Rightarrow> thinking_support option \<Rightarrow> string option" where
  "chat_thinking_effort th ts =
     (case th of
        Some t \<Rightarrow> (if thinking_enabled th then effort_from_budget (th_budget t) ts else Some [])
      | None \<Rightarrow> Some [])"

definition chat_from_claude ::
  "(json \<Rightarrow> string) \<Rightarrow> string \<Rightarrow> string \<Rightarrow> string \<Rightarrow> thinking_support option \<Rightarrow> cc_request result option" where
  "chat_from_claude txt diag model body ts =
     (case decode_claude_messages diag body of
        Inl e \<Rightarrow> Some (Inl e)
      | Inr q \<Rightarrow>
          (case chat_thinking_effort (cr_thinking q) ts of
             None \<Rightarrow> None
           | Some effort \<Rightarrow>
               Some (and_then (walk (chat_claude_message txt) (cr_messages q)
                       (if cr_system q = [] then [] else [cc_message ''system'' (TextContent (cr_system q))]))
                 (\<lambda>msgs. Inr ((new_cc_request model (cr_stream q) (cr_temperature q) (cr_top_p q))
                   \<lparr>qo_max_tokens := Some (cr_max_tokens q), qo_stop := cr_stop q, qo_effort := effort,
                    qo_choice := cc_tool_choice (cr_choice_kind q) (cr_choice_name q), qo_messages := msgs,
                    qo_tools := map (\<lambda>t. \<lparr>cct_type = ''function'', cct_function = \<lparr>fn_name = ct_name t,
                      fn_description = ct_description t, fn_parameters = Some (object_schema (ct_input_schema t)),
                      fn_strict = None\<rparr>\<rparr>) (cr_tools q)\<rparr>)))))"

section \<open>Responses requests\<close>

definition dec_tool_carrier :: "(string \<times> raw list) dec" where
  "dec_tool_carrier = dec_struct
     [(''type'', field fst (\<lambda>f p. (f (fst p), snd p)) dec_string),
      (''tools'', field snd (\<lambda>f p. (fst p, f (snd p))) (dec_list None dec_raw))]"

definition has_additional_tools :: "raw \<Rightarrow> bool" where
  "has_additional_tools input =
     (has_content input
      \<and> (case raw_as (dec_list ([], []) dec_tool_carrier) [] input of
           None \<Rightarrow> False
         | Some items \<Rightarrow> list_ex (\<lambda>i. fst i = ''additional_tools'' \<and> snd i \<noteq> []) items))"

definition cpa_ignored :: "string \<Rightarrow> bool" where
  "cpa_ignored k = (k \<in> {''code_interpreter_call'', ''web_search_call'', ''file_search_call'', ''computer_call'',
     ''computer_call_output''})"

definition responses_call_chat_name :: "tool_context \<Rightarrow> string \<Rightarrow> string \<Rightarrow> string result" where
  "responses_call_chat_name ctx namespace nm =
     (case resolve_call ctx namespace nm of
        Inr i \<Rightarrow> Inr (id_chat_name i)
      | Inl e \<Rightarrow> (if namespace = [] \<and> \<not> contains (e_message e) ''ambiguous'' then Inr nm else Inl e))"

definition responses_stream_options :: "raw \<Rightarrow> json result" where
  "responses_stream_options r =
     (if \<not> has_content r then Inr (JObj [(''include_usage'', JBool True)])
      else (case raw_as dec_raw_map None r of
              Some (Some m) \<Rightarrow>
                (case map_of m ''include_usage'' of
                   None \<Rightarrow> Inr (encode (GMap [(''include_usage'', GBool True)]))
                 | Some j \<Rightarrow>
                     (case raw_as dec_bool True (Some j) of
                        Some b \<Rightarrow> Inr (encode (GMap [(''include_usage'', GBool b)]))
                      | None \<Rightarrow> Inl (translation ''stream_options.include_usage must be boolean'')))
            | _ \<Rightarrow> Inl (translation ''stream_options must be an object or null'')))"

definition item_content :: "string \<Rightarrow> raw \<Rightarrow> cc_content result" where
  "item_content diag r =
     and_then (decode_string_or_parts diag r chat_path)
       (\<lambda>parts. Inr (case parts of
          [] \<Rightarrow> NoContent
        | [TextPart t] \<Rightarrow> TextContent t
        | _ \<Rightarrow> PartsContent parts))"

fun flat_text :: "cc_content \<Rightarrow> string result" where
  "flat_text NoContent = Inr []"
| "flat_text (TextContent t) = Inr t"
| "flat_text (PartsContent ps) =
     (if list_ex (\<lambda>p. case p of ImagePart _ \<Rightarrow> True | _ \<Rightarrow> False) ps then Inl system_image_rejected
      else Inr (concat (map part_text ps)))"

definition add_system :: "string \<Rightarrow> cc_out list \<Rightarrow> cc_out list" where
  "add_system t msgs = (if t = [] then msgs else msgs @ [cc_message ''system'' (TextContent t)])"

text \<open>Calls in a row share one assistant message without content.\<close>

definition add_call :: "tool_call \<Rightarrow> cc_out list \<Rightarrow> cc_out list" where
  "add_call t msgs =
     (if msgs \<noteq> [] \<and> co_role (last msgs) = ''assistant'' \<and> co_content (last msgs) = NoContent
      then butlast msgs @ [(last msgs)\<lparr>co_calls := co_calls (last msgs) @ [t]\<rparr>]
      else msgs @ [(cc_message ''assistant'' NoContent)\<lparr>co_calls := [t]\<rparr>])"

definition chat_resp_message :: "string \<Rightarrow> resp_item \<Rightarrow> cc_out list \<Rightarrow> cc_out list result" where
  "chat_resp_message diag it msgs =
     and_then (item_content diag (ri_content it))
       (\<lambda>c. if ri_role it = ''system'' \<or> ri_role it = ''developer'' then and_then (flat_text c) (\<lambda>t. Inr (add_system t msgs))
            else if ri_role it = ''user'' \<or> ri_role it = ''assistant'' then
              Inr (if c = NoContent then msgs else msgs @ [cc_message (ri_role it) c])
            else Inl (validate_role (ri_role it) chat_path))"

definition not_custom :: err where
  "not_custom = mk_err ClassUnsupported ''custom tool call does not match a custom declaration'' 400 False"

definition chat_resp_item :: "string \<Rightarrow> bool \<Rightarrow> tool_context \<Rightarrow> resp_item \<Rightarrow> cc_out list \<Rightarrow> cc_out list result" where
  "chat_resp_item diag strict ctx it msgs =
     (let kind = normalize_item_type it in
      if kind = [] then Inr msgs
      else if kind = ''message'' then chat_resp_message diag it msgs
      else if kind = ''function_call'' then
        and_then (responses_call_chat_name ctx (ri_namespace it) (ri_name it))
          (\<lambda>nm. Inr (add_call (new_tool_call (ri_call_id it) nm (default_args (ri_arguments it))) msgs))
      else if kind = ''custom_tool_call'' then
        and_then (resolve_call ctx (ri_namespace it) (ri_name it))
          (\<lambda>i. if id_kind i \<noteq> ''custom'' then Inl not_custom
               else Inr (add_call (new_tool_call (ri_call_id it) (id_chat_name i) (wrap_custom_tool_input (ri_input it))) msgs))
      else if kind = ''function_call_output'' \<or> kind = ''custom_tool_call_output'' then
        and_then (function_call_output_text diag (ri_output it)) (\<lambda>t. Inr (msgs @ [cc_tool_message (ri_call_id it) t]))
      else if kind = ''reasoning'' \<or> kind = ''additional_tools'' then Inr msgs
      else if \<not> strict \<and> cpa_ignored (ri_type it) then Inr msgs
      else Inl (unsupported_input_item_type (ri_type it)))"

text \<open>The tool choice, resolved against the declarations.\<close>

definition chat_choice ::
  "string \<Rightarrow> bool \<Rightarrow> tool_context \<Rightarrow> cc_tool list \<Rightarrow> bool \<Rightarrow> raw \<Rightarrow> raw result" where
  "chat_choice diag strict ctx tools had r =
     (let d = decode_tool_choice_identity diag r in
      case d of
        Inl e \<Rightarrow>
          (if strict then Inl e
           else if tools \<noteq> [] \<and> has_content r then Inr r
           else Inr None)
      | Inr (kind, nm, ns) \<Rightarrow>
          (let k = (if \<not> strict \<and> had \<and> tools = [] then ChoiceAbsent else kind) in
           if k = ChoiceNamed then
             (case resolve_call ctx ns nm of
                Inr i \<Rightarrow> Inr (cc_tool_choice k (id_chat_name i))
              | Inl e \<Rightarrow> (if tools \<noteq> [] \<or> ns \<noteq> [] then Inl e else Inr (cc_tool_choice k nm)))
           else Inr (cc_tool_choice k nm)))"

definition chat_from_responses ::
  "string \<Rightarrow> bool \<Rightarrow> string \<Rightarrow> string \<Rightarrow> thinking_support option \<Rightarrow> bool \<Rightarrow> cc_request result" where
  "chat_from_responses diag swapped model body ts strict =
     and_then (decode_responses_request diag body) (\<lambda>q.
     and_then (refuse (if strict then validate_responses_chat_options swapped body else None)) (\<lambda>_.
     case build_responses_tool_context diag (Some q) chat_path strict of (ctx, tools, e) \<Rightarrow>
     and_then (refuse e) (\<lambda>_.
     and_then (case rq_text_format q of Some f \<Rightarrow> responses_text_format_to_chat f | None \<Rightarrow> Inr None) (\<lambda>fmt.
     and_then (if rq_stream q then map_sum id Some (responses_stream_options (rq_stream_options q)) else Inr None) (\<lambda>so.
     and_then (case rq_effort q of
        Some eff \<Rightarrow> (if eff = [] then Inr [] else and_then (refuse (validate_effort eff ts)) (\<lambda>_. Inr (to_lower (trim_space eff))))
      | None \<Rightarrow> Inr []) (\<lambda>effort.
     and_then (chat_choice diag strict ctx tools (rq_tools q \<noteq> [] \<or> has_additional_tools (rq_input q)) (rq_tool_choice q)) (\<lambda>choice.
     and_then (decode_instructions q) (\<lambda>instr.
     and_then (decode_input_items diag q) (\<lambda>items.
     and_then (walk (chat_resp_item diag strict ctx) items (add_system instr [])) (\<lambda>msgs.
       Inr ((new_cc_request model (rq_stream q) (rq_temperature q) (rq_top_p q))
         \<lparr>qo_parallel := rq_parallel q, qo_tools := tools, qo_format := fmt, qo_stream_options := so,
          qo_max_tokens := positive (rq_max_output_tokens q), qo_effort := effort, qo_choice := choice,
          qo_messages := msgs\<rparr>)))))))))))"

text \<open>The compatibility mode is \<open>cpa\<close> unless another is given.\<close>

definition build_chat_request ::
  "float_text \<Rightarrow> (json \<Rightarrow> string) \<Rightarrow> string \<Rightarrow> bool \<Rightarrow> string \<Rightarrow> string \<Rightarrow> string \<Rightarrow> thinking_support option \<Rightarrow> string list
     \<Rightarrow> string result option" where
  "build_chat_request fl txt diag swapped model source body ts modes =
     (if source = ''openai'' then Some (build_openai_request diag model body)
      else if source = ''claude'' then
        map_option (map_sum id (\<lambda>r. marshal (gv_cc_request fl r))) (chat_from_claude txt diag model body ts)
      else if source = ''openai-response'' then
        (let mode = (case modes of m # _ \<Rightarrow> (if m = [] then ''cpa'' else m) | [] \<Rightarrow> ''cpa'')
         in Some (map_sum id (\<lambda>r. marshal (gv_cc_request fl r)) (chat_from_responses diag swapped model body ts (mode = ''strict''))))
      else Some (Inl (unsupported_format source chat_path)))"

section \<open>Calls\<close>

text \<open>The calls an item of the input stands for, under the names of the Chat Completions tools.\<close>

definition item_calls :: "tool_context \<Rightarrow> resp_item \<Rightarrow> tool_call list" where
  "item_calls ctx it =
     (let kind = normalize_item_type it in
      if kind = ''function_call'' then
        (case responses_call_chat_name ctx (ri_namespace it) (ri_name it) of
           Inr nm \<Rightarrow> [new_tool_call (ri_call_id it) nm (default_args (ri_arguments it))] | Inl _ \<Rightarrow> [])
      else if kind = ''custom_tool_call'' then
        (case resolve_call ctx (ri_namespace it) (ri_name it) of
           Inr i \<Rightarrow> [new_tool_call (ri_call_id it) (id_chat_name i) (wrap_custom_tool_input (ri_input it))] | Inl _ \<Rightarrow> [])
      else [])"

definition calls_of :: "cc_out list \<Rightarrow> tool_call list" where
  "calls_of ms = concat (map co_calls ms)"

lemma calls_of_append [simp]: "calls_of (xs @ ys) = calls_of xs @ calls_of ys"
  by (simp add: calls_of_def)

lemma calls_of_Cons [simp]: "calls_of (m # ms) = co_calls m @ calls_of ms" "calls_of [] = []"
  by (simp_all add: calls_of_def)

lemma calls_of_messages [simp]:
  "co_calls (cc_message r c) = []" "co_calls (cc_tool_message i t) = []"
  "calls_of (add_system t ms) = calls_of ms" "calls_of (user_turn ps) = []"
  by (simp_all add: cc_message_def cc_tool_message_def add_system_def user_turn_def split: list.split content_part.split)

lemma calls_of_add: "calls_of (add_call t ms) = calls_of ms @ [t]"
  by (cases ms rule: rev_cases) (simp_all add: add_call_def)

lemma calls_of_item: "chat_resp_item diag strict ctx it ms = Inr ms' \<Longrightarrow> calls_of ms' = calls_of ms @ item_calls ctx it"
  by (auto simp: chat_resp_item_def chat_resp_message_def item_calls_def Let_def and_then_Inr calls_of_add split: if_splits)

lemma calls_of_walk:
  "walk (chat_resp_item diag strict ctx) its ms = Inr ms' \<Longrightarrow> calls_of ms' = calls_of ms @ concat (map (item_calls ctx) its)"
  by (induction its arbitrary: ms) (auto split: sum.splits dest!: calls_of_item)

text \<open>A Messages conversation: only tool_use blocks of the assistant call tools.\<close>

definition block_calls :: "(json \<Rightarrow> string) \<Rightarrow> claude_message \<Rightarrow> tool_call list" where
  "block_calls txt m =
     (if cm_role m = ''assistant''
      then map (\<lambda>b. new_tool_call (cb_call_id b) (cb_name b) (default_args (raw_text txt (cb_input b))))
             (filter (\<lambda>b. cb_kind b = ''tool_use'') (cm_blocks m))
      else [])"

lemma assistant_walk:
  "walk (chat_assistant_block txt) bs (t, calls) = Inr (t', calls') \<Longrightarrow>
     calls' = calls @ map (\<lambda>b. new_tool_call (cb_call_id b) (cb_name b) (default_args (raw_text txt (cb_input b))))
       (filter (\<lambda>b. cb_kind b = ''tool_use'') bs)"
proof (induction bs arbitrary: t calls)
  case (Cons b bs)
  then obtain t1 calls1 where s: "chat_assistant_block txt b (t, calls) = Inr (t1, calls1)"
      "walk (chat_assistant_block txt) bs (t1, calls1) = Inr (t', calls')"
    by (auto split: sum.splits)
  show ?case using s(1) Cons.IH [OF s(2)] by (auto simp: chat_assistant_block_def split: if_splits)
qed simp

lemma user_walk: "walk chat_user_block bs (ps, ms) = Inr (ps', ms') \<Longrightarrow> calls_of ms' = calls_of ms"
proof (induction bs arbitrary: ps ms)
  case (Cons b bs)
  then obtain ps1 ms1 where s: "chat_user_block b (ps, ms) = Inr (ps1, ms1)" "walk chat_user_block bs (ps1, ms1) = Inr (ps', ms')"
    by (auto split: sum.splits)
  have "calls_of ms1 = calls_of ms" using s(1) by (auto simp: chat_user_block_def and_then_Inr split: if_splits)
  then show ?case using Cons.IH [OF s(2)] by simp
qed simp

lemma calls_of_claude: "chat_claude_message txt m ms = Inr ms' \<Longrightarrow> calls_of ms' = calls_of ms @ block_calls txt m"
  by (auto simp: chat_claude_message_def claude_user_messages_def claude_assistant_message_def block_calls_def and_then_Inr split: if_splits dest!: user_walk assistant_walk)

lemma calls_of_claude_walk:
  "walk (chat_claude_message txt) cms ms = Inr ms' \<Longrightarrow> calls_of ms' = calls_of ms @ concat (map (block_calls txt) cms)"
  by (induction cms arbitrary: ms) (auto split: sum.splits dest!: calls_of_claude)

section \<open>Properties\<close>

text \<open>
  C18. No call of a Responses conversation is lost, repeated or moved when it becomes a Chat
  Completions conversation, although calls in a row share a message: the calls of the messages are
  those of the items, in order, under the names of the tools that are sent along; and in strict
  mode only requests that pass the policy are built.
\<close>

theorem chat_calls_kept:
  assumes "chat_from_responses diag swapped model body ts strict = Inr r"
  shows "\<exists>q items ctx. decode_responses_request diag body = Inr q \<and> decode_input_items diag q = Inr items
    \<and> build_responses_tool_context diag (Some q) chat_path strict = (ctx, qo_tools r, None)
    \<and> calls_of (qo_messages r) = concat (map (item_calls ctx) items)
    \<and> (strict \<longrightarrow> validate_responses_chat_options swapped body = None)"
proof -
  obtain q where q: "decode_responses_request diag body = Inr q"
    and v: "refuse (if strict then validate_responses_chat_options swapped body else None) = Inr ()"
    using assms by (auto simp: chat_from_responses_def and_then_Inr)
  obtain ctx tools e where c: "build_responses_tool_context diag (Some q) chat_path strict = (ctx, tools, e)"
    by (metis prod_cases3)
  obtain instr items msgs where i: "decode_input_items diag q = Inr items" "refuse e = Inr ()"
      "walk (chat_resp_item diag strict ctx) items (add_system instr []) = Inr msgs" "qo_messages r = msgs" "qo_tools r = tools"
    using assms q v c by (auto simp: chat_from_responses_def and_then_Inr new_cc_request_def)
  have "e = None" "strict \<longrightarrow> validate_responses_chat_options swapped body = None"
    using i(2) v by (auto simp: refuse_def split: option.splits if_splits)
  then show ?thesis using q c i calls_of_walk [OF i(3)] by auto
qed

definition responding_body :: string where
  "responding_body = ''{\"input\":[{\"type\":\"function_call\",\"name\":\"f\"}]}''"

lemma chat_sample:
  "case chat_from_responses [] False ''m'' responding_body None False of
     Inr r \<Rightarrow> length (qo_messages r) = 1
   | _ \<Rightarrow> False"
  by code_simp

lemma chat_calls_kept_witness:
  "\<exists>r q items ctx. chat_from_responses [] False ''m'' responding_body None False = Inr r
     \<and> decode_responses_request [] responding_body = Inr q \<and> decode_input_items [] q = Inr items
     \<and> calls_of (qo_messages r) = concat (map (item_calls ctx) items)"
proof -
  obtain r where r: "chat_from_responses [] False ''m'' responding_body None False = Inr r"
    using chat_sample by (auto split: sum.splits)
  show ?thesis using chat_calls_kept [OF r] r by blast
qed

end
