(* ===== verification/Build_Messages.thy ===== *)
theory Build_Messages
  imports Outbound
begin

text \<open>
  The request builders of \<open>internal/adapter/messages/request.go\<close>: Chat Completions and
  Responses requests become Anthropic Messages requests.
\<close>

section \<open>The outbound request\<close>

text \<open>The content of a message: a string, or blocks.\<close>

datatype content = Plain string | Blocks "gv list"

record anthropic_message =
  am_role :: string
  am_content :: content

record messages_request =
  mq_model :: string
  mq_max_tokens :: int
  mq_system :: "gv option"
  mq_messages :: "anthropic_message list"
  mq_stop :: "string list"
  mq_tools :: "claude_tool_decl list"
  mq_choice :: "gv option"
  mq_thinking :: "thinking_conf option"
  mq_stream :: bool
  mq_temperature :: "string option"
  mq_top_p :: "string option"

fun gv_content :: "content \<Rightarrow> gv" where
  "gv_content (Plain t) = GStr t"
| "gv_content (Blocks bs) = GArr bs"

definition gv_anthropic_message :: "anthropic_message \<Rightarrow> gv" where
  "gv_anthropic_message m = GStruct [(''role'', GStr (am_role m)), (''content'', gv_content (am_content m))]"

definition gv_anthropic_tool :: "claude_tool_decl \<Rightarrow> gv" where
  "gv_anthropic_tool t =
     GStruct ([(''name'', GStr (ct_name t))] @ str_field ''description'' (ct_description t)
       @ [(''input_schema'', case ct_input_schema t of None \<Rightarrow> GNull | Some j \<Rightarrow> GRaw j)])"

definition gv_messages_request :: "float_text \<Rightarrow> messages_request \<Rightarrow> gv" where
  "gv_messages_request fl r =
     GStruct ([(''model'', GStr (mq_model r)), (''max_tokens'', GInt (mq_max_tokens r))]
       @ if_some ''system'' id (mq_system r)
       @ [(''messages'', GArr (map gv_anthropic_message (mq_messages r)))]
       @ if_any ''stop_sequences'' GStr (mq_stop r)
       @ if_any ''tools'' gv_anthropic_tool (mq_tools r)
       @ if_some ''tool_choice'' id (mq_choice r)
       @ if_some ''thinking'' (\<lambda>t. GStruct [(''type'', GStr (th_type t)), (''budget_tokens'', GInt (th_budget t))]) (mq_thinking r)
       @ if_true ''stream'' (mq_stream r)
       @ if_some ''temperature'' (gv_number fl) (mq_temperature r)
       @ if_some ''top_p'' (gv_number fl) (mq_top_p r))"

definition new_messages_request ::
  "string \<Rightarrow> int option \<Rightarrow> bool \<Rightarrow> string option \<Rightarrow> string option \<Rightarrow> messages_request" where
  "new_messages_request model tokens stream temp top_p =
     \<lparr>mq_model = model, mq_max_tokens = claude_max_tokens (case tokens of None \<Rightarrow> 0 | Some n \<Rightarrow> n), mq_system = None,
      mq_messages = [], mq_stop = [], mq_tools = [], mq_choice = None, mq_thinking = None, mq_stream = stream,
      mq_temperature = temp, mq_top_p = top_p\<rparr>"

section \<open>Content\<close>

definition message_parts :: "string \<Rightarrow> raw \<Rightarrow> gv list result" where
  "message_parts diag r = claude_blocks_from_openai diag r messages_path"

definition has_image :: "gv list \<Rightarrow> bool" where
  "has_image bs = list_ex (\<lambda>b. block_field ''type'' b = ''image'') bs"

definition decode_stop :: "raw \<Rightarrow> string list result" where
  "decode_stop r =
     (if \<not> has_content r then Inr []
      else (case raw_as dec_string [] r of
              Some s \<Rightarrow> Inr [s]
            | None \<Rightarrow>
                (case raw_as (dec_list [] dec_string) [] r of
                   Some ss \<Rightarrow> Inr ss
                 | None \<Rightarrow> Inl (translation ''stop must be a string or an array of strings''))))"

fun system_field :: "string list \<Rightarrow> gv option" where
  "system_field [] = None"
| "system_field [p] = Some (GStr p)"
| "system_field ps = Some (GArr (map text_gv ps))"

definition assistant_image_rejected :: err where
  "assistant_image_rejected = translation ''assistant messages cannot carry image content''"

section \<open>Grouping blocks into messages\<close>

record msg_builder =
  mb_key :: string
  mb_cur :: "(string \<times> gv list) option"
  mb_msgs :: "anthropic_message list"

definition mb_zero :: msg_builder where
  "mb_zero = \<lparr>mb_key = [], mb_cur = None, mb_msgs = []\<rparr>"

definition plain_or_blocks :: "gv list \<Rightarrow> content" where
  "plain_or_blocks bs =
     (case bs of
        [b] \<Rightarrow> (if block_field ''type'' b = ''text'' then Plain (block_field ''text'' b) else Blocks bs)
      | _ \<Rightarrow> Blocks bs)"

definition mb_flush :: "msg_builder \<Rightarrow> msg_builder" where
  "mb_flush b =
     (case mb_cur b of
        None \<Rightarrow> b
      | Some (role, bs) \<Rightarrow>
          b\<lparr>mb_msgs := mb_msgs b @ [\<lparr>am_role = role, am_content = plain_or_blocks bs\<rparr>], mb_cur := None, mb_key := []\<rparr>)"

definition mb_add :: "string \<Rightarrow> string \<Rightarrow> gv \<Rightarrow> msg_builder \<Rightarrow> msg_builder" where
  "mb_add key role block b =
     (case mb_cur b of
        Some (r, bs) \<Rightarrow>
          (if mb_key b \<noteq> key \<and> \<not> (role = ''user'' \<and> r = ''user'')
           then (mb_flush b)\<lparr>mb_cur := Some (role, [block]), mb_key := key\<rparr>
           else b\<lparr>mb_cur := Some (r, bs @ [block])\<rparr>)
      | None \<Rightarrow> (mb_flush b)\<lparr>mb_cur := Some (role, [block]), mb_key := key\<rparr>)"

text \<open>What the loops over a source conversation update: the builder and the system texts.\<close>

type_synonym conversation = "msg_builder \<times> string list"

definition mb_adds :: "string \<Rightarrow> string \<Rightarrow> gv list \<Rightarrow> msg_builder \<Rightarrow> msg_builder" where
  "mb_adds key role bs b = fold (mb_add key role) bs b"

definition add_text_block :: "gv list \<Rightarrow> msg_builder \<Rightarrow> msg_builder" where
  "add_text_block bs b =
     (let t = join_texts (map members bs) in if t = [] then b else mb_add ''assistant'' ''assistant'' (text_gv t) b)"

definition tool_result_gv :: "string \<Rightarrow> gv \<Rightarrow> gv" where
  "tool_result_gv i c = GMap [(''type'', GStr ''tool_result''), (''tool_use_id'', GStr i), (''content'', c)]"

section \<open>Thinking and tool choice\<close>

definition apply_thinking :: "int \<Rightarrow> messages_request \<Rightarrow> messages_request" where
  "apply_thinking budget r =
     (if budget \<le> 0 then r
      else r\<lparr>mq_thinking := Some \<lparr>th_type = ''enabled'', th_budget = budget\<rparr>, mq_temperature := None, mq_top_p := None,
             mq_max_tokens := (if mq_max_tokens r \<le> budget then wrap64 (budget + 1024) else mq_max_tokens r)\<rparr>)"

text \<open>The outer None is a panic of the clamp of thinking levels.\<close>

definition finalize_request ::
  "messages_request \<Rightarrow> string list \<Rightarrow> string \<Rightarrow> thinking_support option \<Rightarrow> messages_request result option" where
  "finalize_request r system effort ts =
     (let r1 = r\<lparr>mq_system := system_field system\<rparr> in
      if effort = [] then Some (Inr r1)
      else (case validate_effort effort ts of
              Some e \<Rightarrow> Some (Inl e)
            | None \<Rightarrow>
                (case budget_from_effort effort ts of
                   None \<Rightarrow> None
                 | Some (_, False) \<Rightarrow> Some (Inl (unsupported_effort effort))
                 | Some (budget, True) \<Rightarrow> Some (Inr (apply_thinking budget r1)))))"

definition tool_choice_block :: "string \<Rightarrow> string \<Rightarrow> bool \<Rightarrow> gv" where
  "tool_choice_block ty nm no_parallel =
     GMap ([(''type'', GStr ty)] @ str_field ''name'' nm @ if_true ''disable_parallel_tool_use'' no_parallel)"

definition choice_for_messages :: "tool_choice_kind \<Rightarrow> string \<Rightarrow> bool option \<Rightarrow> gv option result" where
  "choice_for_messages kind nm par =
     (let no = (par = Some False);
          k = (if kind = ChoiceAbsent \<and> no then ChoiceAuto else kind)
      in case k of
           ChoiceAbsent \<Rightarrow> Inr None
         | ChoiceAuto \<Rightarrow> Inr (Some (tool_choice_block ''auto'' [] no))
         | ChoiceAny \<Rightarrow> Inr (Some (tool_choice_block ''any'' [] no))
         | ChoiceNamed \<Rightarrow> Inr (Some (tool_choice_block ''tool'' nm no))
         | ChoiceNone \<Rightarrow> Inl (unsupported (''tool_choice '' @ go_q ''none'' @ '' cannot be represented for '' @ messages_path)))"

section \<open>Chat Completions requests\<close>

fun add_tool_uses :: "float_text \<Rightarrow> string \<Rightarrow> tool_call list \<Rightarrow> msg_builder \<Rightarrow> msg_builder result" where
  "add_tool_uses fl diag [] b = Inr b"
| "add_tool_uses fl diag (t # ts) b =
     (case decode_args fl diag (tl_args t) of
        Inl e \<Rightarrow> Inl e
      | Inr input \<Rightarrow> add_tool_uses fl diag ts (mb_add ''assistant'' ''assistant'' (tool_use_gv (tl_id t) (tl_name t) input) b))"

definition add_chat_message :: "float_text \<Rightarrow> string \<Rightarrow> chat_message_in \<Rightarrow> conversation \<Rightarrow> conversation result" where
  "add_chat_message fl diag m c =
     (case c of (b, system) \<Rightarrow>
        if mi_role m \<notin> {''system'', ''developer'', ''assistant'', ''tool'', ''user''} then Inl (validate_role (mi_role m) messages_path)
        else (case message_parts diag (mi_content m) of
                Inl e \<Rightarrow> Inl e
              | Inr bs \<Rightarrow>
                  (if mi_role m = ''system'' \<or> mi_role m = ''developer'' then
                     (if has_image bs then Inl system_image_rejected else Inr (b, system @ [join_texts (map members bs)]))
                   else if mi_role m = ''assistant'' then
                     (if has_image bs then Inl assistant_image_rejected
                      else map_sum id (\<lambda>b'. (b', system)) (add_tool_uses fl diag (mi_calls m) (add_text_block bs b)))
                   else if mi_role m = ''tool'' then
                     Inr (mb_add ''user:tool'' ''user''
                            (tool_result_gv (mi_call_id m) (if has_image bs then GArr bs else GStr (join_texts (map members bs)))) b, system)
                   else Inr (mb_adds ''user'' ''user'' bs b, system))))"

definition tool_for_messages :: "cc_tool \<Rightarrow> claude_tool_decl result" where
  "tool_for_messages t =
     (case function_tool (cct_type t) messages_path of
        Some e \<Rightarrow> Inl e
      | None \<Rightarrow> Inr \<lparr>ct_name = fn_name (cct_function t), ct_description = fn_description (cct_function t),
                  ct_input_schema = Some (object_schema (fn_parameters (cct_function t)))\<rparr>)"

text \<open>The end both sources share: tools, tool choice, the envelope.\<close>

definition finish_messages_request ::
  "string \<Rightarrow> messages_request \<Rightarrow> conversation \<Rightarrow> claude_tool_decl list result \<Rightarrow> raw \<Rightarrow> bool option \<Rightarrow> string
     \<Rightarrow> thinking_support option \<Rightarrow> messages_request result option" where
  "finish_messages_request diag r c tools choice par effort ts =
     (case tools of
        Inl e \<Rightarrow> Some (Inl e)
      | Inr ds \<Rightarrow>
          (case decode_tool_choice diag choice of
             Inl e \<Rightarrow> Some (Inl e)
           | Inr (kind, nm) \<Rightarrow>
               (case choice_for_messages kind nm par of
                  Inl e \<Rightarrow> Some (Inl e)
                | Inr tc \<Rightarrow>
                    finalize_request (r\<lparr>mq_messages := mb_msgs (mb_flush (fst c)), mq_tools := ds, mq_choice := tc\<rparr>) (snd c) effort ts)))"

definition messages_from_chat ::
  "float_text \<Rightarrow> string \<Rightarrow> string \<Rightarrow> string \<Rightarrow> thinking_support option \<Rightarrow> messages_request result option" where
  "messages_from_chat fl diag model body ts =
     (case decode_chat_request diag body of
        Inl e \<Rightarrow> Some (Inl e)
      | Inr q \<Rightarrow>
          (let r = new_messages_request model (case cq_max_tokens q of None \<Rightarrow> cq_max_completion q | Some n \<Rightarrow> Some n)
                 (cq_stream q) (cq_temperature q) (cq_top_p q)
           in case decode_stop (cq_stop q) of
                Inl e \<Rightarrow> Some (Inl e)
              | Inr stop \<Rightarrow>
                  (case walk (add_chat_message fl diag) (cq_messages q) (mb_zero, []) of
                     Inl e \<Rightarrow> Some (Inl e)
                   | Inr c \<Rightarrow>
                       finish_messages_request diag (r\<lparr>mq_stop := stop\<rparr>) c (collect tool_for_messages (cq_tools q))
                         (cq_tool_choice q) (cq_parallel q) (cq_effort q) ts)))"

section \<open>Responses requests\<close>

definition summary_text :: "string list \<Rightarrow> string" where
  "summary_text ss = (case ss of [] \<Rightarrow> [] | s # rest \<Rightarrow> s @ concat (map (\<lambda>t. nl # t) rest))"

definition add_resp_message :: "string \<Rightarrow> resp_item \<Rightarrow> conversation \<Rightarrow> conversation result" where
  "add_resp_message diag it c =
     (case c of (b, system) \<Rightarrow>
        (case message_parts diag (ri_content it) of
           Inl e \<Rightarrow> Inl e
         | Inr bs \<Rightarrow>
             (if ri_role it = ''user'' then Inr (mb_adds ''user'' ''user'' bs b, system)
              else if ri_role it = ''assistant'' then
                (if has_image bs then Inl assistant_image_rejected else Inr (add_text_block bs b, system))
              else if ri_role it = ''system'' \<or> ri_role it = ''developer'' then
                (if has_image bs then Inl system_image_rejected else Inr (b, system @ [join_texts (map members bs)]))
              else Inl (validate_role (ri_role it) messages_path))))"

definition add_resp_item :: "float_text \<Rightarrow> string \<Rightarrow> resp_item \<Rightarrow> conversation \<Rightarrow> conversation result" where
  "add_resp_item fl diag it c =
     (case c of (b, system) \<Rightarrow>
        (let kind = normalize_item_type it in
         if kind = [] then Inr c
         else if kind = ''message'' then add_resp_message diag it c
         else if kind = ''function_call'' then
           (case decode_args fl diag (ri_arguments it) of
              Inl e \<Rightarrow> Inl e
            | Inr input \<Rightarrow> Inr (mb_add ''assistant'' ''assistant'' (tool_use_gv (ri_call_id it) (ri_name it) input) b, system))
         else if kind = ''function_call_output'' then
           (case function_call_output_text diag (ri_output it) of
              Inl e \<Rightarrow> Inl e
            | Inr t \<Rightarrow> Inr (mb_add ''user:tool'' ''user'' (tool_result_gv (ri_call_id it) (GStr t)) b, system))
         else if kind = ''reasoning'' then
           (let t = summary_text (ri_summary it)
            in Inr (if t = [] then b else mb_add ''assistant'' ''assistant'' (thinking_gv t) b, system))
         else Inl (unsupported_input_item_type (ri_type it))))"

definition resp_tool_for_messages :: "tool_wire \<Rightarrow> claude_tool_decl result" where
  "resp_tool_for_messages t =
     (case function_tool (tw_type t) messages_path of
        Some e \<Rightarrow> Inl e
      | None \<Rightarrow> Inr \<lparr>ct_name = tw_name t, ct_description = tw_description t, ct_input_schema = Some (object_schema (tw_parameters t))\<rparr>)"

definition messages_from_responses ::
  "float_text \<Rightarrow> string \<Rightarrow> string \<Rightarrow> string \<Rightarrow> thinking_support option \<Rightarrow> messages_request result option" where
  "messages_from_responses fl diag model body ts =
     (case decode_responses_request diag body of
        Inl e \<Rightarrow> Some (Inl e)
      | Inr q \<Rightarrow>
          (let r = new_messages_request model (rq_max_output_tokens q) (rq_stream q) (rq_temperature q) (rq_top_p q)
           in case decode_instructions q of
                Inl e \<Rightarrow> Some (Inl e)
              | Inr instr \<Rightarrow>
                  (case decode_input_items diag q of
                     Inl e \<Rightarrow> Some (Inl e)
                   | Inr items \<Rightarrow>
                       (case walk (add_resp_item fl diag) items (mb_zero, if instr = [] then [] else [instr]) of
                          Inl e \<Rightarrow> Some (Inl e)
                        | Inr c \<Rightarrow>
                            finish_messages_request diag r c (collect (\<lambda>t. resp_tool_for_messages (tool_wire_of t)) (rq_tools q))
                              (rq_tool_choice q) (rq_parallel q) (case rq_effort q of None \<Rightarrow> [] | Some e \<Rightarrow> e) ts))))"

definition build_messages_request ::
  "float_text \<Rightarrow> string \<Rightarrow> string \<Rightarrow> string \<Rightarrow> string \<Rightarrow> thinking_support option \<Rightarrow> string result option" where
  "build_messages_request fl diag model source body ts =
     (if source = ''claude'' then Some (rewrite_model_id diag model body ''claude'')
      else if source = ''openai'' then
        map_option (map_sum id (\<lambda>r. marshal (gv_messages_request fl r))) (messages_from_chat fl diag model body ts)
      else if source = ''openai-response'' then
        map_option (map_sum id (\<lambda>r. marshal (gv_messages_request fl r))) (messages_from_responses fl diag model body ts)
      else Some (Inl (unsupported_format source messages_path)))"

section \<open>Whose turn it is\<close>

text \<open>
  The Messages contract: roles alternate and no message is empty. The builder keeps it because a
  bucket is closed exactly when the role changes.
\<close>

fun alternating :: "anthropic_message list \<Rightarrow> bool" where
  "alternating (m # n # ms) = (am_role m \<noteq> am_role n \<and> alternating (n # ms))"
| "alternating _ = True"

definition bucket :: "(string \<times> string) set" where
  "bucket = {(''assistant'', ''assistant''), (''user'', ''user''), (''user:tool'', ''user'')}"

definition speaks :: "anthropic_message \<Rightarrow> bool" where
  "speaks m = (am_role m \<in> {''user'', ''assistant''} \<and> am_content m \<noteq> Blocks [])"

definition mb_ok :: "msg_builder \<Rightarrow> bool" where
  "mb_ok b =
     (case mb_cur b of
        None \<Rightarrow> mb_msgs b = []
      | Some (r, bs) \<Rightarrow> (mb_key b, r) \<in> bucket \<and> bs \<noteq> [] \<and> alternating (mb_msgs (mb_flush b)) \<and> list_all speaks (mb_msgs b))"

lemma alternating_snoc:
  "alternating (ms @ [m]) \<longleftrightarrow> alternating ms \<and> (ms \<noteq> [] \<longrightarrow> am_role (last ms) \<noteq> am_role m)"
  by (induction ms rule: alternating.induct) auto

lemma alternating_snoc2: "alternating (ms @ [m, n]) \<longleftrightarrow> alternating (ms @ [m]) \<and> am_role m \<noteq> am_role n"
  using alternating_snoc [of "ms @ [m]" n] by simp

lemma plain_or_blocks_full: "bs \<noteq> [] \<Longrightarrow> plain_or_blocks bs \<noteq> Blocks []"
  by (auto simp: plain_or_blocks_def split: list.splits)

lemma mb_ok_zero: "mb_ok mb_zero"
  by (simp add: mb_ok_def mb_zero_def)

lemma mb_ok_add:
  assumes k: "(key, role) \<in> bucket" and b: "mb_ok b"
  shows "mb_ok (mb_add key role g b)"
proof (cases "mb_cur b")
  case None
  then show ?thesis using assms by (simp add: mb_ok_def mb_add_def mb_flush_def)
next
  case (Some c)
  obtain r bs where c: "c = (r, bs)" by fastforce
  have o: "(mb_key b, r) \<in> bucket" "bs \<noteq> []" "alternating (mb_msgs (mb_flush b))" "list_all speaks (mb_msgs b)"
    using b Some c by (simp_all add: mb_ok_def)
  show ?thesis
  proof (cases "mb_key b \<noteq> key \<and> \<not> (role = ''user'' \<and> r = ''user'')")
    case True
    then have "role \<noteq> r" using k o(1) by (auto simp: bucket_def)
    moreover have "speaks \<lparr>am_role = r, am_content = plain_or_blocks bs\<rparr>"
      using o(1,2) plain_or_blocks_full by (auto simp: speaks_def bucket_def)
    ultimately show ?thesis using True Some c o k
      by (simp add: mb_ok_def mb_add_def mb_flush_def alternating_snoc alternating_snoc2)
  next
    case False
    then show ?thesis using Some c o by (auto simp: mb_ok_def mb_add_def mb_flush_def alternating_snoc)
  qed
qed

lemma mb_ok_adds: "(key, role) \<in> bucket \<Longrightarrow> mb_ok b \<Longrightarrow> mb_ok (mb_adds key role gs b)"
  unfolding mb_adds_def by (induction gs arbitrary: b) (simp_all add: mb_ok_add)

lemma mb_ok_text: "mb_ok b \<Longrightarrow> mb_ok (add_text_block gs b)"
  by (simp add: add_text_block_def Let_def mb_ok_add bucket_def)

lemma mb_ok_uses: "add_tool_uses fl diag ts b = Inr b' \<Longrightarrow> mb_ok b \<Longrightarrow> mb_ok b'"
  by (induction fl diag ts b rule: add_tool_uses.induct) (auto simp: mb_ok_add bucket_def split: sum.splits)

lemma mb_ok_chat: "add_chat_message fl diag m c = Inr c' \<Longrightarrow> mb_ok (fst c) \<Longrightarrow> mb_ok (fst c')"
  by (auto simp: add_chat_message_def map_sum_def mb_ok_add mb_ok_adds mb_ok_text bucket_def
      split: prod.splits sum.splits if_splits dest!: mb_ok_uses)

lemma mb_ok_item: "add_resp_item fl diag it c = Inr c' \<Longrightarrow> mb_ok (fst c) \<Longrightarrow> mb_ok (fst c')"
  by (auto simp: add_resp_item_def add_resp_message_def Let_def mb_ok_add mb_ok_adds mb_ok_text bucket_def
      split: prod.splits sum.splits if_splits)

lemma mb_ok_flush: "mb_ok b \<Longrightarrow> alternating (mb_msgs (mb_flush b)) \<and> list_all speaks (mb_msgs (mb_flush b))"
  by (auto simp: mb_ok_def mb_flush_def speaks_def bucket_def plain_or_blocks_full split: option.splits prod.splits)

section \<open>Nothing is lost\<close>

text \<open>The blocks of a message; a string stands for its text block.\<close>

fun blocks_of :: "content \<Rightarrow> gv list" where
  "blocks_of (Plain t) = [text_gv t]"
| "blocks_of (Blocks bs) = bs"

definition conversation_blocks :: "anthropic_message list \<Rightarrow> gv list" where
  "conversation_blocks ms = concat (map (\<lambda>m. blocks_of (am_content m)) ms)"

definition canonical :: "gv \<Rightarrow> bool" where
  "canonical g = (block_field ''type'' g = ''text'' \<longrightarrow> g = text_gv (block_field ''text'' g))"

definition collected :: "msg_builder \<Rightarrow> gv list" where
  "collected b = conversation_blocks (mb_msgs (mb_flush b))"

definition mb_canonical :: "msg_builder \<Rightarrow> bool" where
  "mb_canonical b = (case mb_cur b of None \<Rightarrow> True | Some (_, bs) \<Rightarrow> list_all canonical bs)"

lemma blocks_plain: "list_all canonical bs \<Longrightarrow> blocks_of (plain_or_blocks bs) = bs"
  by (auto simp: plain_or_blocks_def canonical_def split: list.splits)

lemma collected_add:
  assumes "canonical g" "mb_canonical b"
  shows "collected (mb_add key role g b) = collected b @ [g]" "mb_canonical (mb_add key role g b)"
  using assms
  by (auto simp: collected_def conversation_blocks_def mb_add_def mb_flush_def mb_canonical_def blocks_plain
      split: option.splits prod.splits)

lemma collected_adds:
  "list_all canonical gs \<Longrightarrow> mb_canonical b \<Longrightarrow>
     collected (mb_adds key role gs b) = collected b @ gs \<and> mb_canonical (mb_adds key role gs b)"
  unfolding mb_adds_def by (induction gs arbitrary: b) (simp_all add: collected_add)

lemma canonical_gvs [simp]:
  "canonical (text_gv t)" "canonical (tool_use_gv i n g)" "canonical (thinking_gv t)" "canonical (tool_result_gv i g)"
  by (simp_all add: canonical_def text_gv_def tool_use_gv_def thinking_gv_def tool_result_gv_def block_field_def)

lemma canonical_image: "canonical (image_block src)"
  by (cases src) (simp_all add: canonical_def block_field_def)

lemma canonical_blocks: "blocks_loop ps = Inr bs \<Longrightarrow> list_all canonical bs"
  by (induction ps arbitrary: bs rule: blocks_loop.induct)
    (auto simp: canonical_image map_sum_def canonical_gvs(1) [unfolded text_gv_def] split: sum.splits)

lemma canonical_parts: "message_parts diag r = Inr bs \<Longrightarrow> list_all canonical bs"
  by (auto simp: message_parts_def claude_blocks_from_openai_def dest: canonical_blocks split: sum.splits)

text \<open>
  What a source message gives: its blocks to the conversation, or, for a system or developer
  message, its text to the system field.
\<close>

definition text_of :: "gv list \<Rightarrow> gv list" where
  "text_of bs = (let t = join_texts (map members bs) in if t = [] then [] else [text_gv t])"

definition chat_gives :: "float_text \<Rightarrow> string \<Rightarrow> chat_message_in \<Rightarrow> gv list" where
  "chat_gives fl diag m =
     (case message_parts diag (mi_content m) of
        Inl _ \<Rightarrow> []
      | Inr bs \<Rightarrow>
          (if mi_role m = ''user'' then bs
           else if mi_role m = ''assistant'' then
             text_of bs @ (case tool_use_blocks fl diag (mi_calls m) of Inl _ \<Rightarrow> [] | Inr us \<Rightarrow> us)
           else if mi_role m = ''tool'' then
             [tool_result_gv (mi_call_id m) (if has_image bs then GArr bs else GStr (join_texts (map members bs)))]
           else []))"

definition system_gives :: "string \<Rightarrow> chat_message_in \<Rightarrow> string list" where
  "system_gives diag m =
     (case message_parts diag (mi_content m) of
        Inl _ \<Rightarrow> []
      | Inr bs \<Rightarrow> (if mi_role m = ''system'' \<or> mi_role m = ''developer'' then [join_texts (map members bs)] else []))"

lemma collected_uses:
  "add_tool_uses fl diag ts b = Inr b' \<Longrightarrow> mb_canonical b \<Longrightarrow>
     \<exists>us. tool_use_blocks fl diag ts = Inr us \<and> collected b' = collected b @ us \<and> mb_canonical b'"
proof (induction fl diag ts b rule: add_tool_uses.induct)
  case (1 fl diag b)
  then show ?case by (simp add: tool_use_blocks_def)
next
  case (2 fl diag t ts b)
  obtain input where i: "decode_args fl diag (tl_args t) = Inr input" using 2(2) by (auto split: sum.splits)
  let ?g = "tool_use_gv (tl_id t) (tl_name t) input"
  have c: "collected (mb_add ''assistant'' ''assistant'' ?g b) = collected b @ [?g]"
      "mb_canonical (mb_add ''assistant'' ''assistant'' ?g b)"
    using collected_add [OF _ 2(3), of ?g] by simp_all
  obtain us where "tool_use_blocks fl diag ts = Inr us"
      "collected b' = collected (mb_add ''assistant'' ''assistant'' ?g b) @ us" "mb_canonical b'"
    using 2(1) [OF i _ c(2)] 2(2) i by auto
  then show ?case using c i by (simp add: tool_use_blocks_def)
qed

lemma collected_text:
  "mb_canonical b \<Longrightarrow> collected (add_text_block bs b) = collected b @ text_of bs \<and> mb_canonical (add_text_block bs b)"
  by (simp add: add_text_block_def text_of_def Let_def collected_add)

lemma collected_chat:
  assumes "add_chat_message fl diag m c = Inr c'" "mb_canonical (fst c)"
  shows "collected (fst c') = collected (fst c) @ chat_gives fl diag m \<and> mb_canonical (fst c')"
proof -
  obtain b system where c: "c = (b, system)" by fastforce
  obtain bs where bs: "message_parts diag (mi_content m) = Inr bs"
    using assms(1) c by (auto simp: add_chat_message_def split: if_splits sum.splits)
  have can: "list_all canonical bs" using canonical_parts [OF bs] .
  consider (sys) "mi_role m = ''system'' \<or> mi_role m = ''developer''" | (asst) "mi_role m = ''assistant''"
    | (tool) "mi_role m = ''tool''" | (user) "mi_role m = ''user''"
    using assms(1) c by (auto simp: add_chat_message_def split: if_splits)
  then show ?thesis
  proof cases
    case sys
    then have "fst c' = b" using assms(1) c bs by (auto simp: add_chat_message_def split: if_splits)
    then show ?thesis using sys assms(2) c bs by (auto simp: chat_gives_def)
  next
    case asst
    then obtain b' where b': "add_tool_uses fl diag (mi_calls m) (add_text_block bs b) = Inr b'" "fst c' = b'"
      using assms(1) c bs by (auto simp: add_chat_message_def map_sum_def split: if_splits sum.splits)
    have t: "collected (add_text_block bs b) = collected b @ text_of bs" "mb_canonical (add_text_block bs b)"
      using collected_text assms(2) c by simp_all
    show ?thesis using collected_uses [OF b'(1) t(2)] b'(2) t(1) asst c bs by (auto simp: chat_gives_def)
  next
    case tool
    then show ?thesis using assms c bs by (auto simp: add_chat_message_def chat_gives_def collected_add)
  next
    case user
    then show ?thesis using assms c bs can collected_adds [OF can, of b] by (auto simp: add_chat_message_def chat_gives_def)
  qed
qed

lemma collected_walk:
  "walk (add_chat_message fl diag) ms c = Inr c' \<Longrightarrow> mb_canonical (fst c) \<Longrightarrow>
     collected (fst c') = collected (fst c) @ concat (map (chat_gives fl diag) ms)"
proof (induction ms arbitrary: c)
  case (Cons m ms)
  then obtain c1 where c1: "add_chat_message fl diag m c = Inr c1" "walk (add_chat_message fl diag) ms c1 = Inr c'"
    by (auto split: sum.splits)
  show ?case using Cons.IH [OF c1(2)] collected_chat [OF c1(1) Cons.prems(2)] by simp
qed simp

lemma system_chat: "add_chat_message fl diag m c = Inr c' \<Longrightarrow> snd c' = snd c @ system_gives diag m"
  by (auto simp: add_chat_message_def system_gives_def map_sum_def split: prod.splits sum.splits if_splits)

lemma system_walk:
  "walk (add_chat_message fl diag) ms c = Inr c' \<Longrightarrow> snd c' = snd c @ concat (map (system_gives diag) ms)"
proof (induction ms arbitrary: c)
  case (Cons m ms)
  then obtain c1 where c1: "add_chat_message fl diag m c = Inr c1" "walk (add_chat_message fl diag) ms c1 = Inr c'"
    by (auto split: sum.splits)
  show ?case using Cons.IH [OF c1(2)] system_chat [OF c1(1)] by simp
qed simp

section \<open>What the end adds\<close>

lemma apply_thinking_kept [simp]:
  "mq_messages (apply_thinking n r) = mq_messages r" "mq_system (apply_thinking n r) = mq_system r"
  by (simp_all add: apply_thinking_def)

lemma finalized:
  assumes "finalize_request r system effort ts = Some (Inr r')"
  shows "mq_messages r' = mq_messages r" "mq_system r' = system_field system"
    and "mq_thinking r = None \<Longrightarrow> mq_thinking r' = Some t \<Longrightarrow>
      r' = apply_thinking (th_budget t) (r\<lparr>mq_system := system_field system\<rparr>) \<and> 0 < th_budget t"
  using assms by (auto simp: finalize_request_def apply_thinking_def Let_def split: option.splits if_splits bool.splits)

lemma finished:
  assumes "finish_messages_request diag r c tools choice par effort ts = Some (Inr r')"
  shows "mq_messages r' = mb_msgs (mb_flush (fst c))" "mq_system r' = system_field (snd c)"
    and "mq_thinking r = None \<Longrightarrow> mq_thinking r' = Some t \<Longrightarrow>
      0 < th_budget t \<and> mq_temperature r' = None \<and> mq_top_p r' = None
      \<and> (th_budget t < 2 ^ 62 \<longrightarrow> th_budget t < mq_max_tokens r')"
proof -
  obtain r1 where r1: "finalize_request r1 (snd c) effort ts = Some (Inr r')"
      "mq_messages r1 = mb_msgs (mb_flush (fst c))" "mq_thinking r1 = mq_thinking r"
    using assms by (auto simp: finish_messages_request_def split: sum.splits)
  show "mq_messages r' = mb_msgs (mb_flush (fst c))" "mq_system r' = system_field (snd c)"
    using finalized(1,2) [OF r1(1)] r1(2) by simp_all
  assume "mq_thinking r = None" "mq_thinking r' = Some t"
  then have "r' = apply_thinking (th_budget t) (r1\<lparr>mq_system := system_field (snd c)\<rparr>)" "0 < th_budget t"
    using finalized(3) [OF r1(1)] r1(3) by simp_all
  then show "0 < th_budget t \<and> mq_temperature r' = None \<and> mq_top_p r' = None
      \<and> (th_budget t < 2 ^ 62 \<longrightarrow> th_budget t < mq_max_tokens r')"
    by (auto simp: apply_thinking_def int64_def)
qed

lemma from_chat_cases:
  assumes "messages_from_chat fl diag model body ts = Some (Inr r)"
  obtains q c r0 tools where "decode_chat_request diag body = Inr q"
    "walk (add_chat_message fl diag) (cq_messages q) (mb_zero, []) = Inr c" "mq_thinking r0 = None"
    "finish_messages_request diag r0 c tools (cq_tool_choice q) (cq_parallel q) (cq_effort q) ts = Some (Inr r)"
proof -
  obtain q where q: "decode_chat_request diag body = Inr q"
    using assms by (auto simp: messages_from_chat_def split: sum.splits)
  obtain stop where s: "decode_stop (cq_stop q) = Inr stop"
    using assms q by (auto simp: messages_from_chat_def Let_def split: sum.splits)
  obtain c where c: "walk (add_chat_message fl diag) (cq_messages q) (mb_zero, []) = Inr c"
    using assms q s by (auto simp: messages_from_chat_def Let_def split: sum.splits)
  show thesis by (rule that [OF q c]) (use assms q s c in \<open>simp_all add: messages_from_chat_def new_messages_request_def\<close>)
qed

lemma from_responses_cases:
  assumes "messages_from_responses fl diag model body ts = Some (Inr r)"
  obtains q items c r0 tools effort s where "decode_responses_request diag body = Inr q" "decode_input_items diag q = Inr items"
    "walk (add_resp_item fl diag) items (mb_zero, s) = Inr c" "mq_thinking r0 = None"
    "finish_messages_request diag r0 c tools (rq_tool_choice q) (rq_parallel q) effort ts = Some (Inr r)"
proof -
  obtain q where q: "decode_responses_request diag body = Inr q"
    using assms by (auto simp: messages_from_responses_def split: sum.splits)
  obtain instr where i: "decode_instructions q = Inr instr"
    using assms q by (auto simp: messages_from_responses_def Let_def split: sum.splits)
  obtain items where s: "decode_input_items diag q = Inr items"
    using assms q i by (auto simp: messages_from_responses_def Let_def split: sum.splits)
  obtain c where c: "walk (add_resp_item fl diag) items (mb_zero, if instr = [] then [] else [instr]) = Inr c"
    using assms q i s by (auto simp: messages_from_responses_def Let_def split: sum.splits)
  show thesis by (rule that [OF q s c]) (use assms q i s c in \<open>simp_all add: messages_from_responses_def new_messages_request_def\<close>)
qed

section \<open>Properties\<close>

text \<open>
  C6. Every Messages request built from another protocol keeps the conversation contract of the
  Messages endpoint: only user and assistant speak, never twice in a row, never with no content;
  and a thinking budget is positive, not combined with sampling controls and, as long as it is below
  2^62, below the token limit (a budget near the end of int64 would wrap in the limit the code sets,
  budget + 1024).
\<close>

theorem messages_request_contract:
  assumes "messages_from_chat fl diag model body ts = Some (Inr r) \<or> messages_from_responses fl diag model body ts = Some (Inr r)"
  shows "alternating (mq_messages r) \<and> list_all speaks (mq_messages r)
    \<and> (case mq_thinking r of
         None \<Rightarrow> True
       | Some t \<Rightarrow> 0 < th_budget t \<and> mq_temperature r = None \<and> mq_top_p r = None
           \<and> (th_budget t < 2 ^ 62 \<longrightarrow> th_budget t < mq_max_tokens r))"
proof -
  obtain r0 c tools choice par effort where
    f: "finish_messages_request diag r0 c tools choice par effort ts = Some (Inr r)" "mq_thinking r0 = None"
    and ok: "mb_ok (fst c)"
    using assms
  proof
    assume "messages_from_chat fl diag model body ts = Some (Inr r)"
    then obtain q c r0 tools where "decode_chat_request diag body = Inr q" "walk (add_chat_message fl diag) (cq_messages q) (mb_zero, []) = Inr c" "mq_thinking r0 = None"
      "finish_messages_request diag r0 c tools (cq_tool_choice q) (cq_parallel q) (cq_effort q) ts = Some (Inr r)"
      by (rule from_chat_cases)
    moreover from this(2) have "mb_ok (fst c)"
      by (rule walk_keeps [where P = "\<lambda>c. mb_ok (fst c)"]) (simp_all add: mb_ok_zero mb_ok_chat)
    ultimately show thesis by (intro that) simp_all
  next
    assume "messages_from_responses fl diag model body ts = Some (Inr r)"
    then obtain q items c r0 tools effort s where "decode_responses_request diag body = Inr q"
      "decode_input_items diag q = Inr items" "walk (add_resp_item fl diag) items (mb_zero, s) = Inr c" "mq_thinking r0 = None"
      "finish_messages_request diag r0 c tools (rq_tool_choice q) (rq_parallel q) effort ts = Some (Inr r)"
      by (rule from_responses_cases)
    moreover from this(3) have "mb_ok (fst c)"
      by (rule walk_keeps [where P = "\<lambda>c. mb_ok (fst c)"]) (simp_all add: mb_ok_zero mb_ok_item)
    ultimately show thesis by (intro that) simp_all
  qed
  show ?thesis using finished [OF f(1)] f(2) mb_ok_flush [OF ok] by (cases "mq_thinking r") simp_all
qed

text \<open>
  C7. No part of a Chat Completions conversation is lost, repeated or moved on its way to the
  Messages endpoint: the blocks of the built messages are those of the source messages, in order,
  and the system field has the texts of the system and developer messages, in order and each once:
  a string for one text, a list of text blocks for several.
\<close>

theorem messages_conversation_kept:
  assumes "messages_from_chat fl diag model body ts = Some (Inr r)"
  shows "\<exists>q. decode_chat_request diag body = Inr q
    \<and> conversation_blocks (mq_messages r) = concat (map (chat_gives fl diag) (cq_messages q))
    \<and> mq_system r = system_field (concat (map (system_gives diag) (cq_messages q)))"
proof -
  obtain q c r0 tools where q: "decode_chat_request diag body = Inr q"
    "walk (add_chat_message fl diag) (cq_messages q) (mb_zero, []) = Inr c"
    "finish_messages_request diag r0 c tools (cq_tool_choice q) (cq_parallel q) (cq_effort q) ts = Some (Inr r)"
    using assms by (rule from_chat_cases)
  have "collected (fst c) = collected mb_zero @ concat (map (chat_gives fl diag) (cq_messages q))"
    using collected_walk [OF q(2)] by (simp add: mb_canonical_def mb_zero_def)
  moreover have "snd c = concat (map (system_gives diag) (cq_messages q))" using system_walk [OF q(2)] by simp
  ultimately show ?thesis using q(1) finished(1,2) [OF q(3)]
    by (simp add: collected_def conversation_blocks_def mb_zero_def mb_flush_def)
qed

definition asking_body :: string where
  "asking_body = ''{\"messages\":[{\"role\":\"system\",\"content\":\"s\"},{\"role\":\"user\",\"content\":\"hi\"}],''
     @ ''\"reasoning_effort\":\"high\"}''"

lemma messages_sample:
  "case messages_from_chat (\<lambda>_. None) [] ''m'' asking_body None of
     Some (Inr r) \<Rightarrow> length (mq_messages r) = 1 \<and> mq_system r = Some (GStr ''s'') \<and> map_option th_budget (mq_thinking r) = Some 24576
   | _ \<Rightarrow> False"
  by code_simp

lemma messages_sample_request:
  obtains r where "messages_from_chat (\<lambda>_. None) [] ''m'' asking_body None = Some (Inr r)"
    "length (mq_messages r) = 1" "mq_system r = Some (GStr ''s'')" "map_option th_budget (mq_thinking r) = Some 24576"
  using messages_sample by (auto split: option.splits sum.splits)

lemma messages_request_contract_witness:
  "\<exists>r. messages_from_chat (\<lambda>_. None) [] ''m'' asking_body None = Some (Inr r)
     \<and> length (mq_messages r) = 1 \<and> alternating (mq_messages r) \<and> list_all speaks (mq_messages r)
     \<and> 24576 < mq_max_tokens r"
proof -
  obtain r where r: "messages_from_chat (\<lambda>_. None) [] ''m'' asking_body None = Some (Inr r)"
      "length (mq_messages r) = 1" "map_option th_budget (mq_thinking r) = Some 24576"
    by (rule messages_sample_request)
  then obtain t where t: "mq_thinking r = Some t" "th_budget t = 24576" by auto
  show ?thesis using messages_request_contract [OF disjI1 [OF r(1)]] r(1,2) t by simp
qed

lemma messages_conversation_kept_witness:
  "\<exists>r q. messages_from_chat (\<lambda>_. None) [] ''m'' asking_body None = Some (Inr r)
     \<and> decode_chat_request [] asking_body = Inr q
     \<and> conversation_blocks (mq_messages r) = concat (map (chat_gives (\<lambda>_. None) []) (cq_messages q))
     \<and> mq_system r = Some (GStr ''s'')
     \<and> Some (GStr ''s'') = system_field (concat (map (system_gives []) (cq_messages q)))"
proof -
  obtain r where r: "messages_from_chat (\<lambda>_. None) [] ''m'' asking_body None = Some (Inr r)"
      "mq_system r = Some (GStr ''s'')"
    by (rule messages_sample_request)
  show ?thesis using messages_conversation_kept [OF r(1)] r by fastforce
qed

end
