(* ===== verification/Catalog.thy ===== *)
theory Catalog
  imports Kernel Thinking Config
begin

text \<open>
  \<open>internal/catalog/catalog.go\<close>: the model catalog. Each method takes the manager's mutex for
  the part that touches the snapshot, so that a method is a function on the snapshot. The host
  client's answer is an argument of \<open>refresh\<close>; \<open>net/url.Parse\<close> is the parameter
  \<open>url_of\<close> of Config, of which nothing is assumed. A \<open>Route\<close> is a string.
\<close>

section \<open>Data\<close>

record model_record =
  mr_public :: string
  mr_upstream :: string
  mr_display :: string
  mr_protocol :: string
  mr_endpoint :: string
  mr_context :: int
  mr_output :: int
  mr_in :: "string list"
  mr_out :: "string list"
  mr_thinking :: "thinking_support option"

record unsupported_model =
  um_upstream :: string
  um_reason :: string

record raw_thinking =
  rt_min :: "int option"
  rt_max :: "int option"
  rt_zero :: "bool option"
  rt_dynamic :: "bool option"
  rt_levels :: "string list"

record raw_model =
  rm_id :: string
  rm_display :: string
  rm_context :: int
  rm_output :: int
  rm_in :: "string list"
  rm_out :: "string list"
  rm_in_mod :: "string list"
  rm_out_mod :: "string list"
  rm_thinking :: "raw_thinking option"

definition raw_thinking_zero :: raw_thinking where
  "raw_thinking_zero = \<lparr>rt_min = None, rt_max = None, rt_zero = None, rt_dynamic = None, rt_levels = []\<rparr>"

definition dec_raw_thinking :: "raw_thinking dec" where
  "dec_raw_thinking = dec_struct
     [(''min'', field rt_min rt_min_update (dec_ptr 0 dec_int64)), (''max'', field rt_max rt_max_update (dec_ptr 0 dec_int64)),
      (''zero_allowed'', field rt_zero rt_zero_update (dec_ptr False dec_bool)),
      (''dynamic_allowed'', field rt_dynamic rt_dynamic_update (dec_ptr False dec_bool)),
      (''levels'', field rt_levels rt_levels_update (dec_list [] dec_string))]"

definition raw_model_zero :: raw_model where
  "raw_model_zero = \<lparr>rm_id = [], rm_display = [], rm_context = 0, rm_output = 0, rm_in = [], rm_out = [],
     rm_in_mod = [], rm_out_mod = [], rm_thinking = None\<rparr>"

definition dec_raw_model :: "raw_model dec" where
  "dec_raw_model = dec_struct
     [(''id'', field rm_id rm_id_update dec_string), (''display_name'', field rm_display rm_display_update dec_string),
      (''context_length'', field rm_context rm_context_update dec_int64),
      (''max_output_tokens'', field rm_output rm_output_update dec_int64),
      (''input_modes'', field rm_in rm_in_update (dec_list [] dec_string)),
      (''output_modes'', field rm_out rm_out_update (dec_list [] dec_string)),
      (''input_modalities'', field rm_in_mod rm_in_mod_update (dec_list [] dec_string)),
      (''output_modalities'', field rm_out_mod rm_out_mod_update (dec_list [] dec_string)),
      (''thinking'', field rm_thinking rm_thinking_update (dec_ptr raw_thinking_zero dec_raw_thinking))]"

text \<open>The snapshot of a manager.\<close>

record snap =
  sn_raw :: "raw_model list"
  sn_models :: "model_record list"
  sn_index :: "string \<rightharpoonup> model_record"
  sn_unsup :: "unsupported_model list"
  sn_warns :: "string list"

definition snap_empty :: snap where
  "snap_empty = \<lparr>sn_raw = [], sn_models = [], sn_index = Map.empty, sn_unsup = [], sn_warns = []\<rparr>"

section \<open>Routes\<close>

definition route_endpoints :: "(string \<times> string) list" where
  "route_endpoints =
     [(''chat-completions'', ''/v1/chat/completions''), (''messages'', ''/v1/messages''), (''responses'', ''/v1/responses'')]"

definition endpoint_path :: "string \<Rightarrow> string" where
  "endpoint_path r = (case map_of route_endpoints r of None \<Rightarrow> [] | Some p \<Rightarrow> p)"

definition default_route :: string where
  "default_route = ''chat-completions''"

definition protocol_enabled :: "config \<Rightarrow> string \<Rightarrow> bool" where
  "protocol_enabled c r =
     (if r = ''chat-completions'' then cf_chat c
      else if r = ''messages'' then cf_messages c
      else if r = ''responses'' then cf_responses c
      else True)"

definition resolve :: "config \<Rightarrow> raw_model \<Rightarrow> string \<times> string \<times> bool \<times> string" where
  "resolve c e =
     (case map_of (cf_overrides c) (rm_id e) of
        Some r \<Rightarrow> (ro_protocol r, ro_endpoint r, True,
          ''model '' @ go_q (rm_id e) @ '' routed via user override ('' @ ro_protocol r @ '' '' @ ro_endpoint r @ '')'')
      | None \<Rightarrow> (default_route, [], True, []))"

definition join_upstream_url :: "string \<Rightarrow> string \<Rightarrow> string" where
  "join_upstream_url base endpoint = trim_suffix base ''/'' @ trim_prefix endpoint ''/v1''"

definition endpoint_escapes_base :: "(string \<Rightarrow> url option) \<Rightarrow> string \<Rightarrow> string \<Rightarrow> bool" where
  "endpoint_escapes_base url_of base endpoint =
     (case url_of base of
        None \<Rightarrow> True
      | Some b \<Rightarrow>
          (case url_of (join_upstream_url base endpoint) of
             None \<Rightarrow> True
           | Some g \<Rightarrow> \<not> equal_fold (u_host g) (u_host b) \<or> u_scheme g \<noteq> u_scheme b))"

definition first_non_empty :: "string list \<Rightarrow> string list \<Rightarrow> string list" where
  "first_non_empty a b = (if a \<noteq> [] then a else b)"

definition normalize_thinking :: "raw_thinking option \<Rightarrow> thinking_support option" where
  "normalize_thinking rt =
     (case rt of
        None \<Rightarrow> None
      | Some t \<Rightarrow> Some
          \<lparr>ts_min = or_default (rt_min t) 0, ts_max = or_default (rt_max t) 0,
           zero_allowed = or_default (rt_zero t) False, dynamic_allowed = or_default (rt_dynamic t) False,
           ts_levels = rt_levels t\<rparr>)"

section \<open>Building a snapshot\<close>

text \<open>The local variables of the loop of \<open>swap\<close>.\<close>

record building =
  bd_models :: "model_record list"
  bd_index :: "string \<rightharpoonup> model_record"
  bd_unsup :: "unsupported_model list"
  bd_warns :: "string list"
  bd_seen :: "string list"

definition drop_model :: "string \<Rightarrow> string \<Rightarrow> building \<Rightarrow> building" where
  "drop_model i reason b = b\<lparr>bd_unsup := bd_unsup b @ [\<lparr>um_upstream = i, um_reason = reason\<rparr>]\<rparr>"

definition warn_model :: "string \<Rightarrow> building \<Rightarrow> building" where
  "warn_model w b = b\<lparr>bd_warns := bd_warns b @ [w]\<rparr>"

definition collision :: "string \<Rightarrow> string \<Rightarrow> string" where
  "collision public upstream = ''public id '' @ go_q public @ '' collides with upstream id '' @ go_q upstream"

definition model_of :: "config \<Rightarrow> raw_model \<Rightarrow> string \<Rightarrow> string \<Rightarrow> model_record" where
  "model_of c e route endpoint =
     \<lparr>mr_public = public_id c (rm_id e), mr_upstream = rm_id e,
      mr_display = (if rm_display e = [] then rm_id e else rm_display e),
      mr_protocol = route, mr_endpoint = (if endpoint = [] then endpoint_path route else endpoint),
      mr_context = rm_context e, mr_output = rm_output e,
      mr_in = first_non_empty (rm_in e) (rm_in_mod e), mr_out = first_non_empty (rm_out e) (rm_out_mod e),
      mr_thinking = normalize_thinking (rm_thinking e)\<rparr>"

definition insert_model :: "model_record \<Rightarrow> building \<Rightarrow> building" where
  "insert_model r b =
     (case bd_index b (mr_public r) of
        Some other \<Rightarrow>
          (let reason = collision (mr_public r) (mr_upstream other)
           in drop_model (mr_upstream r) reason (warn_model reason b))
      | None \<Rightarrow>
          (case bd_index b (mr_upstream r) of
             Some other \<Rightarrow>
               (let reason = collision (mr_public other) (mr_upstream r)
                in drop_model (mr_upstream r) reason (warn_model reason b))
           | None \<Rightarrow>
               b\<lparr>bd_models := bd_models b @ [r],
                 bd_index := (bd_index b)(mr_public r \<mapsto> r, mr_upstream r \<mapsto> r)\<rparr>))"

definition add_entry :: "(string \<Rightarrow> url option) \<Rightarrow> config \<Rightarrow> raw_model \<Rightarrow> building \<Rightarrow> building" where
  "add_entry url_of c e b =
     (if rm_id e = [] then drop_model [] ''missing id'' b
      else if rm_id e \<in> set (bd_seen b)
      then warn_model (''duplicate model '' @ go_q (rm_id e) @ '' ignored; keeping first occurrence'') b
      else (case resolve c e of (route, endpoint, ok, warn) \<Rightarrow>
        (let b1 = b\<lparr>bd_seen := bd_seen b @ [rm_id e]\<rparr>;
             b2 = (if warn \<noteq> [] then warn_model warn b1 else b1)
         in if \<not> ok then drop_model (rm_id e) ''no route determined'' b2
            else if \<not> protocol_enabled c route
            then drop_model (rm_id e) (''protocol '' @ route @ '' disabled by config'') b2
            else if endpoint \<noteq> [] \<and> endpoint_escapes_base url_of (cf_base_url c) endpoint
            then drop_model (rm_id e) ''resolved endpoint escapes the configured upstream host'' b2
            else insert_model (model_of c e route endpoint) b2)))"

definition building_start :: "string list \<Rightarrow> building" where
  "building_start warns = \<lparr>bd_models = [], bd_index = Map.empty, bd_unsup = [], bd_warns = warns, bd_seen = []\<rparr>"

definition swap :: "(string \<Rightarrow> url option) \<Rightarrow> config \<Rightarrow> raw_model list \<Rightarrow> string list \<Rightarrow> snap" where
  "swap url_of c entries extra =
     (let b = fold (add_entry url_of c) entries (building_start extra)
      in \<lparr>sn_raw = entries, sn_models = bd_models b, sn_index = bd_index b, sn_unsup = bd_unsup b, sn_warns = bd_warns b\<rparr>)"

definition seed_from :: "(string \<Rightarrow> url option) \<Rightarrow> config \<Rightarrow> snap \<Rightarrow> snap" where
  "seed_from url_of c prev = swap url_of c (sn_raw prev) []"

section \<open>Refreshing\<close>

definition fail_refresh :: "config \<Rightarrow> string \<Rightarrow> snap \<Rightarrow> string option \<times> snap" where
  "fail_refresh c category s =
     (Some (''catalog refresh failed: '' @ category), if cf_stale c then s else snap_empty)"

definition catalog_budget_floor :: int where
  "catalog_budget_floor = 16 * 2 ^ 20"

definition dec_envelope :: "raw dec" where
  "dec_envelope = dec_struct [(''data'', field id (\<lambda>f. f) dec_raw)]"

text \<open>The answer of the client: None is an error, otherwise the status and the body. A manager
without a client (\<open>m.client == nil\<close>) has no answer function.\<close>

definition refresh ::
    "(string \<Rightarrow> url option) \<Rightarrow> config \<Rightarrow> (unit \<Rightarrow> (int \<times> string) option) option \<Rightarrow> snap \<Rightarrow> string option \<times> snap" where
  "refresh url_of c client s =
     (case client of
        None \<Rightarrow> fail_refresh c ''host client unavailable'' s
      | Some ask \<Rightarrow>
          (case ask () of
             None \<Rightarrow> fail_refresh c ''network error'' s
           | Some (status, body) \<Rightarrow>
               (if max (cf_max_bytes c) catalog_budget_floor < int (length body)
                then fail_refresh c ''response exceeds max-response-bytes'' s
                else if status \<noteq> 200 then fail_refresh c (''http '' @ itoa status) s
                else (case unmarshal dec_envelope body None of
                        (_, False) \<Rightarrow> fail_refresh c ''invalid json'' s
                      | (None, True) \<Rightarrow>
                          (None, swap url_of c [] [''upstream catalog response missing \"data\" field''])
                      | (Some j, True) \<Rightarrow>
                          (case dec_list raw_model_zero dec_raw_model j [] of
                             (_, False) \<Rightarrow> fail_refresh c ''invalid json'' s
                           | (entries, True) \<Rightarrow> (None, swap url_of c entries []))))))"

definition lookup_model :: "string \<Rightarrow> snap \<Rightarrow> model_record option" where
  "lookup_model i s = sn_index s i"

section \<open>The invariant of a snapshot\<close>

text \<open>The index holds exactly the two identities of every record, and no identity twice.\<close>

definition indexed :: "config \<Rightarrow> model_record list \<Rightarrow> (string \<rightharpoonup> model_record) \<Rightarrow> bool" where
  "indexed c rs ix =
     ((\<forall>i r. ix i = Some r \<longleftrightarrow> r \<in> set rs \<and> (i = mr_public r \<or> i = mr_upstream r))
      \<and> distinct (map mr_upstream rs) \<and> (\<forall>r \<in> set rs. mr_public r = public_id c (mr_upstream r)))"

lemma indexed_unique:
  assumes "indexed c rs ix" "r \<in> set rs" "q \<in> set rs" "{mr_public r, mr_upstream r} \<inter> {mr_public q, mr_upstream q} \<noteq> {}"
  shows "r = q"
proof -
  obtain i where "i \<in> {mr_public r, mr_upstream r}" "i \<in> {mr_public q, mr_upstream q}" using assms(4) by blast
  then have "ix i = Some r" "ix i = Some q" using assms(1-3) unfolding indexed_def by blast+
  then show ?thesis by simp
qed

lemma indexed_add:
  assumes "indexed c rs ix" "ix (mr_public r) = None" "ix (mr_upstream r) = None"
    "mr_public r = public_id c (mr_upstream r)"
  shows "indexed c (rs @ [r]) (ix(mr_public r \<mapsto> r, mr_upstream r \<mapsto> r))"
proof -
  have old: "ix i = Some q \<longleftrightarrow> q \<in> set rs \<and> (i = mr_public q \<or> i = mr_upstream q)" for i q
    using assms(1) unfolding indexed_def by blast
  have new: "mr_public r \<notin> {mr_public q, mr_upstream q} \<and> mr_upstream r \<notin> {mr_public q, mr_upstream q}"
    if "q \<in> set rs" for q
    using assms(2,3) old [of "mr_public r" q] old [of "mr_upstream r" q] that by auto
  have "r \<notin> set rs" using new [of r] by blast
  have "(ix(mr_public r \<mapsto> r, mr_upstream r \<mapsto> r)) i = Some q
      \<longleftrightarrow> q \<in> set (rs @ [r]) \<and> (i = mr_public q \<or> i = mr_upstream q)" for i q
  proof (cases "i = mr_public r \<or> i = mr_upstream r")
    case True
    then show ?thesis using new [of q] \<open>r \<notin> set rs\<close> by auto
  next
    case False
    then show ?thesis using old [of i q] by auto
  qed
  moreover have "mr_upstream r \<notin> mr_upstream ` set rs" using new by auto
  ultimately show ?thesis using assms(1,4) unfolding indexed_def by auto
qed

definition routed :: "(string \<Rightarrow> url option) \<Rightarrow> config \<Rightarrow> model_record \<Rightarrow> bool" where
  "routed url_of c r =
     (protocol_enabled c (mr_protocol r)
      \<and> (mr_endpoint r = endpoint_path (mr_protocol r)
         \<or> \<not> endpoint_escapes_base url_of (cf_base_url c) (mr_endpoint r)))"

definition built :: "(string \<Rightarrow> url option) \<Rightarrow> config \<Rightarrow> building \<Rightarrow> bool" where
  "built url_of c b = (indexed c (bd_models b) (bd_index b) \<and> list_all (routed url_of c) (bd_models b))"

lemma built_view:
  "built url_of c b \<Longrightarrow> bd_models b' = bd_models b \<Longrightarrow> bd_index b' = bd_index b \<Longrightarrow> built url_of c b'"
  by (simp add: built_def)

lemma built_insert:
  assumes "built url_of c b" "routed url_of c r" "mr_public r = public_id c (mr_upstream r)"
  shows "built url_of c (insert_model r b)"
  using assms indexed_add [of c "bd_models b" "bd_index b" r]
  by (auto simp: insert_model_def built_def drop_model_def warn_model_def Let_def split: option.split)

lemma built_entry:
  assumes "built url_of c b"
  shows "built url_of c (add_entry url_of c e b)"
proof -
  obtain route endpoint ok warn where r: "resolve c e = (route, endpoint, ok, warn)" by (cases "resolve c e")
  have seen: "built url_of c (if warn \<noteq> [] then warn_model warn (b\<lparr>bd_seen := sn\<rparr>) else b\<lparr>bd_seen := sn\<rparr>)" for sn
    using assms by (auto simp: warn_model_def built_def)
  have "routed url_of c (model_of c e route endpoint)"
    if "protocol_enabled c route" "\<not> (endpoint \<noteq> [] \<and> endpoint_escapes_base url_of (cf_base_url c) endpoint)"
    using that by (auto simp: routed_def model_of_def)
  moreover have "mr_public (model_of c e route endpoint) = public_id c (mr_upstream (model_of c e route endpoint))"
    by (simp add: model_of_def)
  moreover have "built url_of c (drop_model i reason d) = built url_of c d" "built url_of c (warn_model w d) = built url_of c d" for i reason w d
    by (auto simp: built_def drop_model_def warn_model_def)
  ultimately show ?thesis using assms built_insert [OF seen] seen
    by (simp add: add_entry_def r Let_def)
qed

lemma built_fold: "built url_of c b \<Longrightarrow> built url_of c (fold (add_entry url_of c) es b)"
  by (induction es arbitrary: b) (simp_all add: built_entry)

lemma built_swap: "indexed c (sn_models (swap url_of c es ws)) (sn_index (swap url_of c es ws))
    \<and> list_all (routed url_of c) (sn_models (swap url_of c es ws))"
  using built_fold [of url_of c "building_start ws" es]
  by (simp add: swap_def Let_def built_def building_start_def indexed_def)

section \<open>Every entry is accounted for\<close>

definition accounted :: "raw_model list \<Rightarrow> building \<Rightarrow> bool" where
  "accounted es b =
     (set (bd_seen b) = set (map rm_id es) - {[]}
      \<and> length (bd_models b) + length (bd_unsup b)
        = length (filter (\<lambda>e. rm_id e = []) es) + card (set (map rm_id es) - {[]}))"

lemma accounted_insert:
  "length (bd_models (insert_model r b)) + length (bd_unsup (insert_model r b)) = Suc (length (bd_models b) + length (bd_unsup b))"
  "bd_seen (insert_model r b) = bd_seen b"
  by (simp_all add: insert_model_def drop_model_def warn_model_def Let_def split: option.split)

lemma accounted_entry:
  assumes "accounted es b"
  shows "accounted (es @ [e]) (add_entry url_of c e b)"
proof -
  obtain route endpoint ok warn where r: "resolve c e = (route, endpoint, ok, warn)" by (cases "resolve c e")
  let ?n = "\<lambda>d. length (bd_models d) + length (bd_unsup d)"
  have fin: "finite (set (map rm_id es) - {[]})" by simp
  consider "rm_id e = []" | "rm_id e \<noteq> []" "rm_id e \<in> set (bd_seen b)" | "rm_id e \<noteq> []" "rm_id e \<notin> set (bd_seen b)"
    by blast
  then show ?thesis
  proof cases
    case 1
    then show ?thesis using assms by (simp add: add_entry_def accounted_def drop_model_def)
  next
    case 2
    then have "insert (rm_id e) (set (map rm_id es)) = set (map rm_id es)" using assms by (auto simp: accounted_def)
    then show ?thesis using 2 assms by (simp add: add_entry_def accounted_def warn_model_def)
  next
    case 3
    have "?n (add_entry url_of c e b) = Suc (?n b) \<and> bd_seen (add_entry url_of c e b) = bd_seen b @ [rm_id e]"
      using 3 by (simp add: add_entry_def r Let_def accounted_insert) (simp add: drop_model_def warn_model_def)
    moreover have "card (set (map rm_id (es @ [e])) - {[]}) = Suc (card (set (map rm_id es) - {[]}))"
      using 3 assms fin by (simp add: accounted_def insert_Diff_if)
    ultimately show ?thesis using 3 assms by (auto simp: accounted_def)
  qed
qed

lemma accounted_fold: "accounted es b \<Longrightarrow> accounted (es @ ds) (fold (add_entry url_of c) ds b)"
proof (induction ds arbitrary: es b)
  case (Cons d ds)
  then show ?case using Cons.IH [OF accounted_entry [OF Cons.prems, of d url_of c]] by simp
qed simp

section \<open>Failures\<close>

text \<open>All a failed refresh can say.\<close>

definition refresh_category :: "string \<Rightarrow> bool" where
  "refresh_category cat =
     (cat \<in> {''host client unavailable'', ''network error'', ''response exceeds max-response-bytes'', ''invalid json''}
      \<or> (\<exists>status. cat = ''http '' @ itoa status))"

definition refresh_error :: "string \<Rightarrow> bool" where
  "refresh_error e = (\<exists>cat. e = ''catalog refresh failed: '' @ cat \<and> refresh_category cat)"

lemma refresh_categories:
  "refresh_category ''host client unavailable''" "refresh_category ''network error''"
  "refresh_category ''response exceeds max-response-bytes''" "refresh_category ''invalid json''"
  "refresh_category (''http '' @ itoa status)"
  unfolding refresh_category_def by blast+

lemma refresh_fails:
  assumes "refresh url_of c client s = (Some e, s')"
  obtains cat where "(Some e, s') = fail_refresh c cat s" "refresh_category cat"
proof (cases client)
  case None
  then show ?thesis using assms by (intro that [OF _ refresh_categories(1)]) (simp add: refresh_def)
next
  case (Some ask)
  show ?thesis
  proof (cases "ask ()")
    case None
    then show ?thesis using assms Some by (intro that [OF _ refresh_categories(2)]) (simp add: refresh_def)
  next
    case (Some sb)
    obtain status body where sb: "sb = (status, body)" by (cases sb)
    obtain x ok where u: "unmarshal dec_envelope body None = (x, ok)" by fastforce
    note r = assms [unfolded refresh_def \<open>client = Some ask\<close> option.case Some sb prod.case u]
    consider "max (cf_max_bytes c) catalog_budget_floor < int (length body)"
      | "\<not> max (cf_max_bytes c) catalog_budget_floor < int (length body)" "status \<noteq> 200"
      | "\<not> max (cf_max_bytes c) catalog_budget_floor < int (length body)" "status = 200" by blast
    then show ?thesis
    proof cases
      case 1
      then show ?thesis using r by (intro that [OF _ refresh_categories(3)]) simp
    next
      case 2
      then show ?thesis using r [unfolded if_not_P [OF 2(1)] if_P [OF 2(2)]]
        by (intro that [OF _ refresh_categories(5) [of status]]) (rule sym)
    next
      case 3
      then have "(Some e, s') = fail_refresh c ''invalid json'' s"
        using r [unfolded if_not_P [OF 3(1)]] by (cases ok; cases x) (simp_all split: prod.splits bool.splits)
      then show ?thesis by (rule that [OF _ refresh_categories(4)])
    qed
  qed
qed

section \<open>Properties\<close>

text \<open>
  C29. Looking a model up is unambiguous: an identifier resolves to a record of the snapshot exactly
  when it is that record's public or upstream identifier, whatever entries upstream lists, and no
  two records share an upstream identifier.
\<close>

theorem catalog_lookup_unambiguous:
  "(lookup_model i (swap url_of c es ws) = Some r
      \<longleftrightarrow> r \<in> set (sn_models (swap url_of c es ws)) \<and> (i = mr_public r \<or> i = mr_upstream r))
   \<and> distinct (map mr_upstream (sn_models (swap url_of c es ws)))"
  using built_swap [of c url_of es ws] unfolding indexed_def lookup_model_def by blast+

text \<open>
  Every model a snapshot routes is on an enabled protocol, and its endpoint is the one of the
  protocol or joins the base URL to a URL of the same host and scheme.
\<close>

theorem catalog_routes_safe:
  "list_all (routed url_of c) (sn_models (swap url_of c es ws))"
  using built_swap by blast

text \<open>
  No entry is lost silently: the routed models and the unsupported ones together are the
  entries without an identifier and the distinct identifiers of the others.
\<close>

theorem catalog_entries_accounted:
  "length (sn_models (swap url_of c es ws)) + length (sn_unsup (swap url_of c es ws))
   = length (filter (\<lambda>e. rm_id e = []) es) + card (set (map rm_id es) - {[]})"
  using accounted_fold [of "[]" "building_start ws" es url_of c]
  by (simp add: swap_def Let_def accounted_def building_start_def)

text \<open>
  C30. A refresh that fails leaves the last good snapshot in place, or clears it when stale serving
  is off, and its error carries nothing of the answer but a status.
\<close>

theorem refresh_failure_policy:
  assumes "refresh url_of c client s = (Some e, s')"
  shows "s' = (if cf_stale c then s else snap_empty) \<and> refresh_error e"
  by (rule refresh_fails [OF assms]) (auto simp: fail_refresh_def refresh_error_def)

lemma refresh_failure_policy_witness:
  "case load (\<lambda>_. None) https_url id (bare_config [''k'']) of
     Inl _ \<Rightarrow> False
   | Inr c \<Rightarrow> \<exists>e s. refresh https_url c None snap_empty = (Some e, s) \<and> refresh_error e"
proof -
  obtain c where c: "load (\<lambda>_. None) https_url id (bare_config [''k'']) = Inr c" using bare_config_loads by blast
  obtain e s where r: "refresh https_url c None snap_empty = (Some e, s)"
    by (simp add: refresh_def fail_refresh_def)
  show ?thesis using refresh_failure_policy [OF r] r c by auto
qed

end
