(* ===== verification/Execution.thy ===== *)
theory Execution
  imports Build_Chat Build_Messages Catalog
begin

text \<open>
  The execution paths of \<open>internal/plugin/executor.go\<close> around the streaming pump: resolving
  the model and the key, the session identity, the request sent upstream, and the answer converted
  for the client. The host's transport is an argument, SHA-256 a parameter.
\<close>

section \<open>Requests\<close>

record exec_request =
  xq_model :: string
  xq_source :: string
  xq_original :: string
  xq_payload :: string
  xq_provider :: string
  xq_key :: string
  xq_canonical :: "string option"
  xq_header :: "string \<Rightarrow> string"

text \<open>What the standard library and the clock contribute.\<close>

record exec_env =
  ee_fl :: float_text
  ee_txt :: "json \<Rightarrow> string"
  ee_diag :: string
  ee_swapped :: bool
  ee_now :: int
  ee_backfill :: "string \<Rightarrow> string option"
  ee_sha :: "string \<Rightarrow> string"

record upstream_call =
  uc_url :: string
  uc_headers :: "(string \<times> string) list"
  uc_body :: string

definition provider_id :: string where
  "provider_id = ''commandcode''"

definition invalid_model :: err where
  "invalid_model = mk_err ClassInvalidModel ''model not in routable catalog'' 404 False"

definition resolve_execution :: "snap option \<Rightarrow> exec_request \<Rightarrow> (model_record \<times> string) result" where
  "resolve_execution mgr q =
     (if xq_provider q \<noteq> provider_id then Inl (mk_err ClassAuth ''selected auth provider is not commandcode'' 0 False)
      else (let key = trim_space (xq_key q) in
            if key = [] then Inl (mk_err ClassAuth ''selected auth has no api key'' 0 False)
            else (case (case mgr of Some s \<Rightarrow> (if xq_model q \<noteq> [] then lookup_model (xq_model q) s else None) | None \<Rightarrow> None) of
                    None \<Rightarrow> Inl invalid_model
                  | Some r \<Rightarrow> Inr (r, key))))"

section \<open>The session identity\<close>

definition part_content :: "content_part \<Rightarrow> string" where
  "part_content p = (case p of ImagePart u \<Rightarrow> u | TextPart t \<Rightarrow> t)"

definition parts_content :: "string \<Rightarrow> raw \<Rightarrow> string \<Rightarrow> string result" where
  "parts_content diag r target = map_sum id (\<lambda>ps. concat (map part_content ps)) (decode_string_or_parts diag r target)"

text \<open>The first run of user turns: where it starts differs between the protocols.\<close>

definition opening_turns :: "('a \<Rightarrow> bool) \<Rightarrow> ('a \<Rightarrow> bool) \<Rightarrow> 'a list \<Rightarrow> 'a list" where
  "opening_turns skipped user ms = takeWhile user (dropWhile skipped ms)"

definition claude_block_content :: "claude_block \<Rightarrow> string result" where
  "claude_block_content b =
     (if cb_kind b = ''text'' then Inr (cb_text b)
      else if cb_kind b = ''image'' then Inr (cb_url b)
      else if cb_kind b = ''tool_result'' then tool_result_text (cb_result b) ''tool messages carry text only''
      else Inr [])"

definition claude_turn_content :: "claude_message \<Rightarrow> string result" where
  "claude_turn_content m = map_sum id (\<lambda>ts. cm_content m @ concat ts) (collect claude_block_content (cm_blocks m))"

definition chat_opening :: "string \<Rightarrow> chat_message_in list \<Rightarrow> string result" where
  "chat_opening diag ms =
     map_sum id concat
       (collect (\<lambda>m. parts_content diag (mi_content m) ''/v1/chat/completions'')
          (opening_turns (\<lambda>m. mi_role m = ''system'' \<or> mi_role m = ''developer'') (\<lambda>m. mi_role m = ''user'') ms))"

definition claude_opening :: "claude_message list \<Rightarrow> string result" where
  "claude_opening ms =
     map_sum id concat
       (collect claude_turn_content (opening_turns (\<lambda>m. cm_role m \<noteq> ''user'') (\<lambda>m. cm_role m = ''user'') ms))"

definition user_item :: "resp_item \<Rightarrow> bool" where
  "user_item it = (ri_role it = ''user'' \<and> (ri_type it = ''message'' \<or> ri_type it = []))"

definition responses_opening :: "string \<Rightarrow> resp_item list \<Rightarrow> string result" where
  "responses_opening diag items =
     map_sum id concat
       (collect (\<lambda>it. parts_content diag (ri_content it) ''/v1/responses'')
          (opening_turns (\<lambda>it. \<not> user_item it) user_item items))"

definition opening_content :: "exec_env \<Rightarrow> string \<Rightarrow> string \<Rightarrow> string result" where
  "opening_content x source body =
     (if source = ''openai'' then and_then (decode_chat_request (ee_diag x) body) (\<lambda>q. chat_opening (ee_diag x) (cq_messages q))
      else if source = ''claude'' then and_then (decode_claude_messages (ee_diag x) body) (\<lambda>q. claude_opening (cr_messages q))
      else if source = ''openai-response'' then
        and_then (decode_responses_request (ee_diag x) body)
          (\<lambda>q. and_then (decode_input_items (ee_diag x) q) (responses_opening (ee_diag x)))
      else Inl (unsupported_format source ''CommandCode session derivation''))"

definition derive_session_id :: "exec_env \<Rightarrow> string \<Rightarrow> string \<Rightarrow> string result" where
  "derive_session_id x source body = map_sum id (ee_sha x) (opening_content x source body)"

definition session_headers :: "string list" where
  "session_headers =
     [''X-Session-Affinity'', ''X-Commandcode-Session'', ''X-Session-Id'', ''X-Claude-Code-Session-Id'', ''Session-Id'']"

definition resolve_session_id :: "exec_env \<Rightarrow> exec_request \<Rightarrow> string result" where
  "resolve_session_id x q =
     (case xq_canonical q of
        Some (c # cs) \<Rightarrow> Inr (c # cs)
      | _ \<Rightarrow>
          (case List.find (\<lambda>n. xq_header q n \<noteq> []) session_headers of
             Some n \<Rightarrow> Inr (xq_header q n)
           | None \<Rightarrow> derive_session_id x (xq_source q) (xq_original q)))"

section \<open>What is sent\<close>

text \<open>The outer None is a panic of the clamp of thinking levels.\<close>

definition build_upstream_request :: "exec_env \<Rightarrow> string \<Rightarrow> string \<Rightarrow> string \<Rightarrow> string \<Rightarrow> thinking_support option \<Rightarrow> string list
     \<Rightarrow> string result option" where
  "build_upstream_request x route model source body ts modes =
     (if route = ''chat-completions'' then
        build_chat_request (ee_fl x) (ee_txt x) (ee_diag x) (ee_swapped x) model source body ts modes
      else if route = ''messages'' then build_messages_request (ee_fl x) (ee_diag x) model source body ts
      else if route = ''responses'' then build_responses_request (ee_fl x) (ee_txt x) (ee_diag x) model source body ts
      else Some (Inl (translation ''unsupported route'')))"

definition bearer_headers :: "string \<Rightarrow> (string \<times> string) list" where
  "bearer_headers key = [(''Authorization'', ''Bearer '' @ key)]"

definition api_key_headers :: "string \<Rightarrow> (string \<times> string) list" where
  "api_key_headers key = [(''X-Api-Key'', key), (''Anthropic-Version'', ''2023-06-01'')]"

definition upstream_auth_headers :: "string \<Rightarrow> string \<Rightarrow> string \<Rightarrow> (string \<times> string) list" where
  "upstream_auth_headers route key session =
     (if route = ''messages'' then api_key_headers key else bearer_headers key) @ [(''X-Commandcode-Session'', session)]"

text \<open>What both paths do before they call the host: the call, or the failure.\<close>

definition prepare :: "exec_env \<Rightarrow> config \<Rightarrow> snap option \<Rightarrow> exec_request \<Rightarrow> (model_record \<times> upstream_call) result option" where
  "prepare x cfg mgr q =
     (case resolve_execution mgr q of
        Inl e \<Rightarrow> Some (Inl e)
      | Inr (r, key) \<Rightarrow>
          (case resolve_session_id x q of
             Inl e \<Rightarrow> Some (Inl e)
           | Inr session \<Rightarrow>
               map_option (map_sum id (\<lambda>body.
                   (r, \<lparr>uc_url = join_upstream_url (cf_base_url cfg) (mr_endpoint r),
                        uc_headers = upstream_auth_headers (mr_protocol r) key session, uc_body = body\<rparr>)))
                 (build_upstream_request x (mr_protocol r) (mr_upstream r) (xq_source q) (xq_original q) (mr_thinking r)
                    [cf_compat cfg])))"

section \<open>What comes back\<close>

definition json_object :: "string \<Rightarrow> bool" where
  "json_object body = (case unmarshal dec_raw_map body None of (Some _, True) \<Rightarrow> True | _ \<Rightarrow> False)"

text \<open>The authentic Responses request, when there is one; empty stands for nil.\<close>

definition responses_request_context :: "exec_request \<Rightarrow> string" where
  "responses_request_context q =
     (if xq_source q \<noteq> ''openai-response'' then []
      else if json_object (xq_original q) then xq_original q
      else if json_object (xq_payload q) then xq_payload q
      else [])"

definition convert_non_stream :: "exec_env \<Rightarrow> string \<Rightarrow> string \<Rightarrow> int \<Rightarrow> string \<Rightarrow> string list \<Rightarrow> string result" where
  "convert_non_stream x route source status body original =
     (if route = ''chat-completions'' then
        convert_chat_body (ee_backfill x) (ee_fl x) (ee_diag x) original source status body
      else if route = ''messages'' then convert_messages_body (ee_fl x) (ee_now x) (ee_diag x) source status body
      else if route = ''responses'' then convert_responses_body (ee_fl x) (ee_now x) (ee_diag x) source status body
      else Inl (translation ''unsupported route''))"

datatype outcome = Refused envelope_error | Answered string

definition refused :: "err \<Rightarrow> outcome" where
  "refused e = Refused (to_envelope_error e)"

text \<open>
  The non-stream execution: the calls made, and the outcome. The host answers a call; the headers of
  its answer, which the code hands on unchanged, are left out.
\<close>

definition handle_execute ::
  "exec_env \<Rightarrow> config \<Rightarrow> snap option \<Rightarrow> (upstream_call \<Rightarrow> string + (int \<times> string)) \<Rightarrow> exec_request
     \<Rightarrow> (upstream_call list \<times> outcome) option" where
  "handle_execute x cfg mgr host q =
     (case prepare x cfg mgr q of
        None \<Rightarrow> None
      | Some (Inl e) \<Rightarrow> Some ([], refused e)
      | Some (Inr (r, call)) \<Rightarrow>
          Some ([call],
            case host call of
              Inl m \<Rightarrow> refused (from_network (Some m))
            | Inr (status, body) \<Rightarrow>
                (if 400 \<le> status then refused (upstream_status_error status body)
                 else if cf_max_bytes cfg < int (length body) then refused (translation ''response exceeds max-response-bytes'')
                 else (case convert_non_stream x (mr_protocol r) (xq_source q) status body [responses_request_context q] of
                         Inl e \<Rightarrow> refused e
                       | Inr out \<Rightarrow> Answered out))))"

datatype converter = ChatConverter cc | MessagesConverter ms | ResponsesConverter rs

definition new_stream_converter :: "exec_env \<Rightarrow> string \<Rightarrow> string \<Rightarrow> string list \<Rightarrow> converter" where
  "new_stream_converter x route source original =
     (if route = ''messages'' then MessagesConverter (new_ms source (ee_now x))
      else if route = ''responses'' then ResponsesConverter (new_rs source)
      else ChatConverter (new_cc source (response_tool_context (ee_diag x) original)))"

text \<open>
  The stream execution up to the pump, with what it asks of the host: the call, and of an upstream
  stream refused with a status one read, for the body of the error, and its closing.
\<close>

datatype host_op = Opened upstream_call | ReadOnce string | ClosedUpstream string

datatype start = NotStarted envelope_error | Pumping string converter

definition execute_stream ::
  "exec_env \<Rightarrow> config \<Rightarrow> snap option \<Rightarrow> (upstream_call \<Rightarrow> string + (int \<times> string)) \<Rightarrow> (string \<Rightarrow> (string \<times> string) option)
     \<Rightarrow> exec_request \<Rightarrow> (host_op list \<times> start) option" where
  "execute_stream x cfg mgr host read_first q =
     (case prepare x cfg mgr q of
        None \<Rightarrow> None
      | Some (Inl e) \<Rightarrow> Some ([], NotStarted (to_envelope_error e))
      | Some (Inr (r, call)) \<Rightarrow>
          Some (case host call of
              Inl m \<Rightarrow> ([Opened call], NotStarted (to_envelope_error (from_network (Some m))))
            | Inr (status, i) \<Rightarrow>
                (if 400 \<le> status then
                   (if i = [] then ([Opened call], NotStarted (to_envelope_error (upstream_status_error status [])))
                    else ([Opened call, ReadOnce i, ClosedUpstream i],
                      NotStarted (to_envelope_error (upstream_status_error status
                        (case read_first i of None \<Rightarrow> [] | Some (payload, msg) \<Rightarrow> if payload \<noteq> [] then payload else msg)))))
                 else ([Opened call],
                   Pumping i (new_stream_converter x (mr_protocol r) (xq_source q) [responses_request_context q])))))"

section \<open>A request goes to one endpoint of the catalog\<close>

definition call_for :: "exec_env \<Rightarrow> config \<Rightarrow> exec_request \<Rightarrow> model_record \<Rightarrow> upstream_call \<Rightarrow> bool" where
  "call_for x cfg q r call =
     (xq_provider q = provider_id \<and> trim_space (xq_key q) \<noteq> [] \<and> xq_model q \<in> {mr_public r, mr_upstream r}
      \<and> uc_url call = join_upstream_url (cf_base_url cfg) (mr_endpoint r)
      \<and> (\<exists>session. resolve_session_id x q = Inr session
           \<and> uc_headers call = upstream_auth_headers (mr_protocol r) (trim_space (xq_key q)) session)
      \<and> build_upstream_request x (mr_protocol r) (mr_upstream r) (xq_source q) (xq_original q) (mr_thinking r)
          [cf_compat cfg] = Some (Inr (uc_body call)))"

lemma map_sum_Inr: "map_sum id f z = Inr y \<longleftrightarrow> (\<exists>v. z = Inr v \<and> y = f v)"
  by (cases z) auto

lemma prepared:
  assumes "prepare x cfg (Some (swap url_of cfg es ws)) q = Some (Inr (r, call))"
  shows "r \<in> set (sn_models (swap url_of cfg es ws)) \<and> routed url_of cfg r \<and> call_for x cfg q r call"
proof -
  let ?s = "swap url_of cfg es ws"
  obtain key where k: "resolve_execution (Some ?s) q = Inr (r, key)"
    using assms by (auto simp: prepare_def map_sum_Inr split: sum.splits option.splits)
  have l: "sn_index ?s (xq_model q) = Some r" "xq_provider q = provider_id" "key = trim_space (xq_key q)" "key \<noteq> []"
    using k by (auto simp: resolve_execution_def Let_def lookup_model_def split: if_splits option.splits)
  have r: "r \<in> set (sn_models ?s)" "xq_model q \<in> {mr_public r, mr_upstream r}" "routed url_of cfg r"
    using built_swap [of cfg url_of es ws] l(1) by (auto simp: indexed_def list_all_iff)
  obtain session where s: "resolve_session_id x q = Inr session"
    using assms k by (auto simp: prepare_def split: sum.splits option.splits)
  obtain body where b: "build_upstream_request x (mr_protocol r) (mr_upstream r) (xq_source q) (xq_original q) (mr_thinking r)
      [cf_compat cfg] = Some (Inr body)"
    and c: "call = \<lparr>uc_url = join_upstream_url (cf_base_url cfg) (mr_endpoint r),
              uc_headers = upstream_auth_headers (mr_protocol r) key session, uc_body = body\<rparr>"
    using assms k s by (auto simp: prepare_def map_sum_Inr)
  show ?thesis using r l s b c by (simp add: call_for_def)
qed

text \<open>
  C5. An execution calls upstream at most once, and only for a model of the routing catalog: the
  address is the base URL with the endpoint of that model, the headers are those of its protocol
  with the selected key and the session. A request that is not sent is refused, and only an answer
  below status 400 and within the byte limit reaches the client.
\<close>

theorem execution_confined:
  assumes "handle_execute x cfg (Some (swap url_of cfg es ws)) host q = Some (calls, out)"
  shows "(calls = [] \<and> (\<exists>e. out = Refused e))
    \<or> (\<exists>r call. calls = [call] \<and> r \<in> set (sn_models (swap url_of cfg es ws)) \<and> routed url_of cfg r \<and> call_for x cfg q r call
        \<and> (\<forall>body. out = Answered body \<longrightarrow>
             (\<exists>status answer. host call = Inr (status, answer) \<and> status < 400 \<and> int (length answer) \<le> cf_max_bytes cfg
                \<and> convert_non_stream x (mr_protocol r) (xq_source q) status answer [responses_request_context q] = Inr body)))"
proof (cases "prepare x cfg (Some (swap url_of cfg es ws)) q")
  case None
  then show ?thesis using assms by (simp add: handle_execute_def)
next
  case (Some p)
  show ?thesis
  proof (cases p)
    case (Inl e)
    then show ?thesis using assms Some by (auto simp: handle_execute_def refused_def)
  next
    case (Inr rc)
    then obtain r call where p: "p = Inr (r, call)" by (cases rc) auto
    have c: "calls = [call]"
      "\<forall>body. out = Answered body \<longrightarrow>
         (\<exists>status answer. host call = Inr (status, answer) \<and> status < 400 \<and> int (length answer) \<le> cf_max_bytes cfg
            \<and> convert_non_stream x (mr_protocol r) (xq_source q) status answer [responses_request_context q] = Inr body)"
      using assms Some p by (auto simp: handle_execute_def refused_def not_le not_less split: sum.splits prod.splits if_splits)
    then show ?thesis using prepared [of x cfg url_of es ws q r call] Some p by blast
  qed
qed

text \<open>
  C22. A stream execution that is refused leaves nothing open: an upstream stream the host opened is
  read at most once and closed. The pump starts only for a stream answered below status 400, with a
  fresh converter for the protocol of a routed model and the source format of the request.
\<close>

theorem refused_stream_closed:
  assumes "execute_stream x cfg (Some (swap url_of cfg es ws)) host read_first q = Some (ops, st)"
  shows "case st of
      NotStarted e \<Rightarrow> ops = []
        \<or> (\<exists>call. ops = [Opened call] \<and> (\<forall>status i. host call = Inr (status, i) \<longrightarrow> i = []))
        \<or> (\<exists>call status i. ops = [Opened call, ReadOnce i, ClosedUpstream i] \<and> host call = Inr (status, i) \<and> 400 \<le> status)
    | Pumping i c \<Rightarrow> \<exists>r call status. ops = [Opened call] \<and> routed url_of cfg r \<and> call_for x cfg q r call
        \<and> host call = Inr (status, i) \<and> status < 400
        \<and> c = new_stream_converter x (mr_protocol r) (xq_source q) [responses_request_context q]"
proof (cases "prepare x cfg (Some (swap url_of cfg es ws)) q")
  case None
  then show ?thesis using assms by (simp add: execute_stream_def)
next
  case (Some p)
  show ?thesis
  proof (cases p)
    case (Inl e)
    then show ?thesis using assms Some by (auto simp: execute_stream_def)
  next
    case (Inr rc)
    then obtain r call where p: "p = Inr (r, call)" by (cases rc) auto
    then have r: "routed url_of cfg r" "call_for x cfg q r call"
      using prepared [of x cfg url_of es ws q r call] Some by blast+
    show ?thesis
    proof (cases st)
      case (NotStarted e)
      then show ?thesis using assms Some p by (cases "host call") (auto simp: execute_stream_def split: if_splits)
    next
      case (Pumping i c)
      then have "ops = [Opened call]" "c = new_stream_converter x (mr_protocol r) (xq_source q) [responses_request_context q]"
        "\<exists>status. host call = Inr (status, i) \<and> status < 400"
        using assms Some p by (auto simp: execute_stream_def not_le split: sum.splits if_splits)
      then show ?thesis using Pumping r by auto
    qed
  qed
qed

section \<open>The session of a conversation\<close>

text \<open>
  A conversation grows: its turns are there again, in front. Either the opening run of user turns
  was followed by another turn already, and anything may be added, or the conversation has a turn
  that is not skipped and what is added does not begin with a user turn. (A user turn added to a
  conversation that ends in its opening run is hashed with it and changes the session.)
\<close>

definition turns_grow :: "('a \<Rightarrow> bool) \<Rightarrow> ('a \<Rightarrow> bool) \<Rightarrow> 'a list \<Rightarrow> 'a list \<Rightarrow> bool" where
  "turns_grow skipped user ms ns =
     (take (length ms) ns = ms
      \<and> (list_ex (\<lambda>m. \<not> user m) (dropWhile skipped ms)
         \<or> (dropWhile skipped ms \<noteq> [] \<and> (case drop (length ms) ns of [] \<Rightarrow> True | m # _ \<Rightarrow> \<not> user m))))"

lemma opening_turns_grow:
  assumes "turns_grow skipped user ms ns"
  shows "opening_turns skipped user ns = opening_turns skipped user ms"
proof -
  let ?xs = "dropWhile skipped ms" and ?ys = "drop (length ms) ns"
  have n: "ns = ms @ ?ys" using assms append_take_drop_id [of "length ms" ns] by (simp add: turns_grow_def)
  have "?xs \<noteq> []" using assms by (auto simp: turns_grow_def simp del: dropWhile_eq_Nil_conv)
  then obtain m where "m \<in> set ms" "\<not> skipped m" by (auto simp: dropWhile_eq_Nil_conv)
  then have "dropWhile skipped ns = ?xs @ ?ys" by (subst n) (rule dropWhile_append1)
  moreover have "takeWhile user (?xs @ ?ys) = takeWhile user ?xs"
  proof (cases "list_ex (\<lambda>m. \<not> user m) ?xs")
    case True
    then show ?thesis by (auto simp: list_ex_iff takeWhile_append1)
  next
    case False
    then have "takeWhile user ?ys = []" using assms by (auto simp: turns_grow_def split: list.splits)
    moreover have "takeWhile user (us @ vs) = takeWhile user us" if "takeWhile user vs = []" for us vs
      using that by (induction us) simp_all
    ultimately show ?thesis by blast
  qed
  ultimately show ?thesis by (simp add: opening_turns_def)
qed

definition conversation_grows :: "exec_env \<Rightarrow> string \<Rightarrow> string \<Rightarrow> string \<Rightarrow> bool" where
  "conversation_grows x source b c =
     (if source = ''openai'' then
        (case (decode_chat_request (ee_diag x) b, decode_chat_request (ee_diag x) c) of
           (Inr q, Inr r) \<Rightarrow>
             turns_grow (\<lambda>m. mi_role m = ''system'' \<or> mi_role m = ''developer'') (\<lambda>m. mi_role m = ''user'') (cq_messages q) (cq_messages r)
         | _ \<Rightarrow> False)
      else if source = ''claude'' then
        (case (decode_claude_messages (ee_diag x) b, decode_claude_messages (ee_diag x) c) of
           (Inr q, Inr r) \<Rightarrow> turns_grow (\<lambda>m. cm_role m \<noteq> ''user'') (\<lambda>m. cm_role m = ''user'') (cr_messages q) (cr_messages r)
         | _ \<Rightarrow> False)
      else
        (case (and_then (decode_responses_request (ee_diag x) b) (decode_input_items (ee_diag x)),
               and_then (decode_responses_request (ee_diag x) c) (decode_input_items (ee_diag x))) of
           (Inr is, Inr js) \<Rightarrow> turns_grow (\<lambda>it. \<not> user_item it) user_item is js
         | _ \<Rightarrow> False))"

text \<open>
  C20. The session derived for a conversation stays the same while it grows, provided its opening run
  of user turns is over: either another turn follows that run already, and any turns may be added,
  or what is added does not begin with a user turn. Then neither the text that is hashed nor whether
  there is a session changes, whatever the source format and the rest of the request.
\<close>

theorem session_sticky:
  assumes "conversation_grows x source b c"
  shows "derive_session_id x source c = derive_session_id x source b"
proof -
  consider "source = ''openai''" | "source = ''claude''" | "source \<noteq> ''openai''" "source \<noteq> ''claude''" by blast
  then have "opening_content x source c = opening_content x source b"
  proof cases
    case 1
    then obtain q r where d: "decode_chat_request (ee_diag x) b = Inr q" "decode_chat_request (ee_diag x) c = Inr r"
      and g: "turns_grow (\<lambda>m. mi_role m = ''system'' \<or> mi_role m = ''developer'') (\<lambda>m. mi_role m = ''user'')
        (cq_messages q) (cq_messages r)"
      using assms by (auto simp: conversation_grows_def split: sum.splits)
    show ?thesis by (simp add: 1 opening_content_def and_then_def d chat_opening_def opening_turns_grow [OF g])
  next
    case 2
    then obtain q r where d: "decode_claude_messages (ee_diag x) b = Inr q" "decode_claude_messages (ee_diag x) c = Inr r"
      and g: "turns_grow (\<lambda>m. cm_role m \<noteq> ''user'') (\<lambda>m. cm_role m = ''user'') (cr_messages q) (cr_messages r)"
      using assms by (auto simp: conversation_grows_def split: sum.splits)
    show ?thesis by (simp add: 2 opening_content_def and_then_def d claude_opening_def opening_turns_grow [OF g])
  next
    case 3
    then obtain "is" js where g: "turns_grow (\<lambda>it. \<not> user_item it) user_item is js"
      and d: "and_then (decode_responses_request (ee_diag x) b) (decode_input_items (ee_diag x)) = Inr is"
        "and_then (decode_responses_request (ee_diag x) c) (decode_input_items (ee_diag x)) = Inr js"
      using assms by (auto simp: conversation_grows_def split: sum.splits)
    have "responses_opening (ee_diag x) js = responses_opening (ee_diag x) is"
      by (simp add: responses_opening_def opening_turns_grow [OF g])
    have "opening_content x source s = and_then (and_then (decode_responses_request (ee_diag x) s) (decode_input_items (ee_diag x)))
        (responses_opening (ee_diag x))" if "source = ''openai-response''" for s
      by (simp add: that opening_content_def and_then_def split: sum.split)
    moreover have "opening_content x source c = opening_content x source b" if "source \<noteq> ''openai-response''"
      using 3 that by (simp add: opening_content_def)
    ultimately show ?thesis using d \<open>responses_opening (ee_diag x) js = responses_opening (ee_diag x) is\<close>
      by (cases "source = ''openai-response''") (simp_all add: and_then_def)
  qed
  then show ?thesis by (simp add: derive_session_id_def)
qed

section \<open>An execution\<close>

definition sample_config :: config where
  "sample_config = \<lparr>cf_base_url = ''https://h/v1'', cf_catalog_url = [], cf_prefix_enabled = False, cf_prefix = [], cf_keys = [''k''],
     cf_refresh = 1, cf_stale = True, cf_chat = True, cf_messages = True, cf_responses = True,
     cf_predictor = \<lparr>pd_enabled = False, pd_persistence = False, pd_sample = 0, pd_budget = 0, pd_history = 0, pd_horizon = 0,
       pd_dir = [], pd_peers = []\<rparr>,
     cf_overrides = [], cf_allow_http = False, cf_request_timeout = 1, cf_first = 1, cf_idle = 1, cf_total = 1, cf_grace = 1,
     cf_max_bytes = 100, cf_compat = []\<rparr>"

definition sample_env :: exec_env where
  "sample_env = \<lparr>ee_fl = (\<lambda>_. None), ee_txt = (\<lambda>_. []), ee_diag = [], ee_swapped = False, ee_now = 0, ee_backfill = (\<lambda>_. None),
     ee_sha = id\<rparr>"

definition sample_asked :: exec_request where
  "sample_asked = \<lparr>xq_model = ''m'', xq_source = ''openai'', xq_original = ''{\"messages\":[{\"role\":\"user\",\"content\":\"hi\"}]}'',
     xq_payload = [], xq_provider = provider_id, xq_key = '' k'', xq_canonical = None, xq_header = (\<lambda>_. [])\<rparr>"

definition sample_catalog :: snap where
  "sample_catalog = swap https_url sample_config [raw_model_zero\<lparr>rm_id := ''m''\<rparr>] []"

lemma sample_prepared:
  "case prepare sample_env sample_config (Some sample_catalog) sample_asked of
     Some (Inr (r, call)) \<Rightarrow> mr_protocol r = ''chat-completions''
   | _ \<Rightarrow> False"
  by code_simp

lemma sample_converted: "convert_chat_body (ee_backfill sample_env) fl d [[]] ''openai'' 200 ''{}'' = Inr ''{}''"
proof -
  have "json_valid ''{}''" by code_simp
  then show ?thesis by (simp add: convert_chat_body_def passthrough_response_def sample_env_def)
qed

lemma sample_call:
  obtains r call where "prepare sample_env sample_config (Some sample_catalog) sample_asked = Some (Inr (r, call))"
    "mr_protocol r = ''chat-completions''"
  using sample_prepared by (auto split: option.splits sum.splits)

lemma execution_confined_witness:
  "\<exists>call. handle_execute sample_env sample_config (Some sample_catalog) (\<lambda>_. Inr (200, ''{}'')) sample_asked
       = Some ([call], Answered ''{}'')
     \<and> trim_space (xq_key sample_asked) \<noteq> []"
proof -
  obtain r call where p: "prepare sample_env sample_config (Some sample_catalog) sample_asked = Some (Inr (r, call))"
    "mr_protocol r = ''chat-completions''"
    by (rule sample_call)
  have h: "handle_execute sample_env sample_config (Some sample_catalog) (\<lambda>_. Inr (200, ''{}'')) sample_asked
      = Some ([call], Answered ''{}'')"
    using p by (simp add: handle_execute_def convert_non_stream_def sample_converted sample_config_def sample_asked_def
        responses_request_context_def)
  show ?thesis using execution_confined [OF h [unfolded sample_catalog_def]] h by (auto simp: call_for_def)
qed

lemma refused_stream_closed_witness:
  "\<exists>call e. execute_stream sample_env sample_config (Some sample_catalog) (\<lambda>_. Inr (503, ''u'')) (\<lambda>_. None) sample_asked
     = Some ([Opened call, ReadOnce ''u'', ClosedUpstream ''u''], NotStarted e)"
proof -
  obtain r call where "prepare sample_env sample_config (Some sample_catalog) sample_asked = Some (Inr (r, call))"
    by (rule sample_call)
  then obtain e where h: "execute_stream sample_env sample_config (Some sample_catalog) (\<lambda>_. Inr (503, ''u'')) (\<lambda>_. None) sample_asked
      = Some ([Opened call, ReadOnce ''u'', ClosedUpstream ''u''], NotStarted e)"
    by (simp add: execute_stream_def)
  show ?thesis using refused_stream_closed [OF h [unfolded sample_catalog_def]] h by auto
qed

lemma sample_conversation:
  "conversation_grows sample_env ''openai'' ''{\"messages\":[{\"role\":\"user\",\"content\":\"hi\"},{\"role\":\"assistant\"}]}''
     ''{\"messages\":[{\"role\":\"user\",\"content\":\"hi\"},{\"role\":\"assistant\"},{\"role\":\"user\"}]}''"
  by code_simp

lemma session_sticky_witness:
  "derive_session_id sample_env ''openai'' ''{\"messages\":[{\"role\":\"user\",\"content\":\"hi\"},{\"role\":\"assistant\"},{\"role\":\"user\"}]}''
   = derive_session_id sample_env ''openai'' ''{\"messages\":[{\"role\":\"user\",\"content\":\"hi\"},{\"role\":\"assistant\"}]}''"
  by (rule session_sticky [OF sample_conversation])

end
