(* ===== verification/Tool_Choice.thy ===== *)
theory Tool_Choice
  imports Build_Chat
begin

text \<open>
  The tool choice between the protocols: \<open>AllToolChoiceKinds\<close> of
  \<open>internal/adapter/shared/shared.go\<close> lists every kind, the renderers of the Chat Completions
  and Responses adapters cover them, and the decoder reads back what they write.
\<close>

definition all_tool_choice_kinds :: "tool_choice_kind list" where
  "all_tool_choice_kinds = [ChoiceAbsent, ChoiceAuto, ChoiceAny, ChoiceNone, ChoiceNamed]"

text \<open>The kinds are enumerated by that list, in the order of the list.\<close>

instantiation tool_choice_kind :: enum
begin

definition enum_tool_choice_kind :: "tool_choice_kind list" where
  "enum_tool_choice_kind = all_tool_choice_kinds"

definition enum_all_tool_choice_kind :: "(tool_choice_kind \<Rightarrow> bool) \<Rightarrow> bool" where
  "enum_all_tool_choice_kind P = list_all P all_tool_choice_kinds"

definition enum_ex_tool_choice_kind :: "(tool_choice_kind \<Rightarrow> bool) \<Rightarrow> bool" where
  "enum_ex_tool_choice_kind P = list_ex P all_tool_choice_kinds"

instance
proof
  have all: "set all_tool_choice_kinds = (UNIV :: tool_choice_kind set)"
    using tool_choice_kind.exhaust by (auto simp: all_tool_choice_kinds_def)
  then show "UNIV = set (enum_class.enum :: tool_choice_kind list)" by (simp add: enum_tool_choice_kind_def)
  show "distinct (enum_class.enum :: tool_choice_kind list)"
    by (simp add: enum_tool_choice_kind_def all_tool_choice_kinds_def)
  show "enum_class.enum_all P \<longleftrightarrow> Ball UNIV P" "enum_class.enum_ex P \<longleftrightarrow> Bex UNIV P" for P :: "tool_choice_kind \<Rightarrow> bool"
    by (simp_all add: enum_all_tool_choice_kind_def enum_ex_tool_choice_kind_def list_all_iff list_ex_iff all)
qed

end

fun_cases cc_choice_absent: "cc_tool_choice k nm = None"
fun_cases resp_choice_absent: "resp_tool_choice k nm = None"

lemma choices_rendered: "cc_tool_choice k nm = None \<longleftrightarrow> k = ChoiceAbsent" "resp_tool_choice k nm = None \<longleftrightarrow> k = ChoiceAbsent"
  by (auto elim: cc_choice_absent resp_choice_absent)

lemmas tool_choice_decoding = decode_tool_choice_identity_def has_content_def raw_as_def tc_fields_def tc_name_fields_def tc_zero_def
  decoders unquote_quote_body

lemma text_kinds:
  assumes "k \<in> {ChoiceAbsent, ChoiceAuto, ChoiceAny, ChoiceNone}"
  shows "decode_tool_choice_identity diag (cc_tool_choice k nm) = Inr (k, [], [])
    \<and> decode_tool_choice_identity diag (resp_tool_choice k nm) = Inr (k, [], [])"
  using assms by (auto simp: tool_choice_decoding)

text \<open>What the two renderers write for a forced tool, with the keys in the order of \<open>Marshal\<close>.\<close>

lemma key_texts: "quote_body ''type'' = ''type''" "quote_body ''name'' = ''name''" "quote_body ''function'' = ''function''"
  "unquote ''type'' = ''type''" "unquote ''name'' = ''name''" "unquote ''function'' = ''function''"
  "\<not> (''type'' :: string) \<le> ''function''" "\<not> (''type'' :: string) \<le> ''name''"
  by code_simp+

lemma named_rendered:
  "cc_tool_choice ChoiceNamed nm = Some (JObj [(''function'', JObj [(''name'', JStr (quote_body nm))]), (''type'', JStr ''function'')])"
  "resp_tool_choice ChoiceNamed nm = Some (JObj [(''name'', JStr (quote_body nm)), (''type'', JStr ''function'')])"
  using key_texts by simp_all

lemma named_fields:
  "map_of tc_fields ''type'' = Some (field tc_type tc_type_update dec_string)"
  "map_of tc_fields ''name'' = Some (field tc_own tc_own_update dec_string)"
  "map_of tc_fields ''function'' = Some (field tc_function tc_function_update (dec_struct tc_name_fields))"
  "map_of tc_name_fields ''name'' = Some (field tcn_name tcn_name_update dec_string)"
  by (simp_all add: tc_fields_def tc_name_fields_def)

lemma named_read_back:
  assumes "nm \<noteq> []" "to_valid nm = nm"
  shows "decode_tool_choice_identity diag (cc_tool_choice ChoiceNamed nm) = Inr (ChoiceNamed, nm, [])"
    and "decode_tool_choice_identity diag (resp_tool_choice ChoiceNamed nm) = Inr (ChoiceNamed, nm, [])"
  unfolding named_rendered decode_tool_choice_identity_def
  using assms by (simp_all add: has_content_def raw_as_def find_field_def field_def named_fields key_texts unquote_quote_body tc_zero_def)

text \<open>
  C23. A tool choice survives both outbound renderings: every kind but the absent one is written, and
  decoding what was written gives the kind and the name again, for any name in valid UTF-8.
\<close>

theorem tool_choice_read_back:
  assumes "nm \<noteq> []" "to_valid nm = nm"
  shows "list_all (\<lambda>k.
      (cc_tool_choice k nm = None \<longleftrightarrow> k = ChoiceAbsent) \<and> (resp_tool_choice k nm = None \<longleftrightarrow> k = ChoiceAbsent)
      \<and> decode_tool_choice_identity diag (cc_tool_choice k nm) = Inr (k, if k = ChoiceNamed then nm else [], [])
      \<and> decode_tool_choice_identity diag (resp_tool_choice k nm) = Inr (k, if k = ChoiceNamed then nm else [], []))
    Enum.enum"
  using text_kinds named_read_back [OF assms]
  by (simp add: enum_tool_choice_kind_def all_tool_choice_kinds_def choices_rendered del: cc_tool_choice.simps resp_tool_choice.simps)

lemma tool_choice_read_back_witness:
  "decode_tool_choice_identity [] (cc_tool_choice ChoiceNamed ''search'') = Inr (ChoiceNamed, ''search'', [])"
proof -
  have v: "to_valid ''search'' = ''search''" by code_simp
  show ?thesis using tool_choice_read_back [OF _ v, of "[]"]
    by (simp add: enum_tool_choice_kind_def all_tool_choice_kinds_def)
qed

end
