(* ===== verification/Host_Bridge.thy ===== *)
theory Host_Bridge
  imports Kernel
begin

text \<open>
  \<open>internal/plugin/hostbridge.go\<close>: one host callback under a deadline, and what the methods of the
  bridge make of its result. A call runs up to three goroutines: the caller, the callback, and an
  orphan that waits for a callback past its deadline. Every action that takes the mutex or uses the
  channel is a step, and the relation interleaves them in every order; the deadline and the grace
  window may end at any moment. \<open>pluginabi.Envelope\<close> and the results of \<open>pluginapi\<close> are decoded outside the
  repository: \<open>env_of\<close> and the decoders of results are parameters.
\<close>

section \<open>A call\<close>

record host_result =
  hr_raw :: string
  hr_err :: "string option"

datatype caller =
    Waiting
  | InGrace
  | Observed host_result bool
  | TimingOut
  | Settled host_result bool
  | CallerDone "host_result option"

datatype orphan = NoOrphan | OrphanWaits | OrphanCloses string | OrphanSettles | OrphanDone

record host_call =
  hc_running :: bool
  hc_chan :: "host_result option"
  hc_exited :: bool
  hc_drained :: bool
  hc_let_go :: bool
  hc_dones :: nat
  hc_caller :: caller
  hc_orphan :: orphan
  hc_closed :: "string list"

definition new_call :: host_call where
  "new_call = \<lparr>hc_running = True, hc_chan = None, hc_exited = False, hc_drained = False, hc_let_go = False, hc_dones = 0,
     hc_caller = Waiting, hc_orphan = NoOrphan, hc_closed = []\<rparr>"

definition maybe_release :: "host_call \<Rightarrow> host_call" where
  "maybe_release s =
     (if hc_exited s \<and> hc_drained s \<and> \<not> hc_let_go s then s\<lparr>hc_let_go := True, hc_dones := hc_dones s + 1\<rparr> else s)"

definition settle :: "host_call \<Rightarrow> host_call" where
  "settle s = maybe_release (s\<lparr>hc_drained := True\<rparr>)"

text \<open>
  What follows depends on the caller. \<open>DoStream\<close> gives a grace window and a function to abandon the
  result to, \<open>closeLateStream\<close>; every other method gives neither.
\<close>

definition lapse :: "bool \<Rightarrow> host_call \<Rightarrow> host_call" where
  "lapse stream s =
     (if stream then s\<lparr>hc_orphan := OrphanWaits, hc_caller := CallerDone None\<rparr> else s\<lparr>hc_caller := TimingOut\<rparr>)"

datatype call_action =
    HostReturns host_result
  | CallbackExits
  | CallerReceives
  | DeadlineEnds
  | GraceEnds
  | CallerSettles
  | CallerReturns
  | OrphanReceives
  | OrphanAbandons
  | OrphanDrains

inductive bridge_step :: "bool \<Rightarrow> call_action \<Rightarrow> host_call \<Rightarrow> host_call \<Rightarrow> bool" for stream where
  returns: "hc_running s \<Longrightarrow> bridge_step stream (HostReturns r) s (s\<lparr>hc_running := False, hc_chan := Some r\<rparr>)"
| exits: "\<not> hc_running s \<Longrightarrow> \<not> hc_exited s \<Longrightarrow> bridge_step stream CallbackExits s (maybe_release (s\<lparr>hc_exited := True\<rparr>))"
| receives: "hc_chan s = Some r \<Longrightarrow> hc_caller s \<in> {Waiting, InGrace} \<Longrightarrow>
    bridge_step stream CallerReceives s (s\<lparr>hc_chan := None, hc_caller := Observed r (hc_caller s = InGrace)\<rparr>)"
| deadline: "hc_caller s = Waiting \<Longrightarrow>
    bridge_step stream DeadlineEnds s (if stream then s\<lparr>hc_caller := InGrace\<rparr> else lapse stream s)"
| grace: "hc_caller s = InGrace \<Longrightarrow> bridge_step stream GraceEnds s (lapse stream s)"
| settles: "hc_caller s = Observed r late \<Longrightarrow> bridge_step stream CallerSettles s (settle (s\<lparr>hc_caller := Settled r late\<rparr>))"
| times_out: "hc_caller s = TimingOut \<Longrightarrow> bridge_step stream CallerSettles s (settle (s\<lparr>hc_caller := CallerDone None\<rparr>))"
| in_time: "hc_caller s = Settled r False \<Longrightarrow> bridge_step stream CallerReturns s (s\<lparr>hc_caller := CallerDone (Some r)\<rparr>)"
| too_late: "hc_caller s = Settled r True \<Longrightarrow>
    bridge_step stream CallerReturns s (s\<lparr>hc_caller := CallerDone None, hc_closed := hc_closed s @ [hr_raw r]\<rparr>)"
| orphan_receives: "hc_chan s = Some r \<Longrightarrow> hc_orphan s = OrphanWaits \<Longrightarrow>
    bridge_step stream OrphanReceives s (s\<lparr>hc_chan := None, hc_orphan := OrphanCloses (hr_raw r)\<rparr>)"
| orphan_abandons: "hc_orphan s = OrphanCloses b \<Longrightarrow>
    bridge_step stream OrphanAbandons s (s\<lparr>hc_orphan := OrphanSettles, hc_closed := hc_closed s @ [b]\<rparr>)"
| orphan_drains: "hc_orphan s = OrphanSettles \<Longrightarrow> bridge_step stream OrphanDrains s (settle (s\<lparr>hc_orphan := OrphanDone\<rparr>))"

inductive call_run :: "bool \<Rightarrow> call_action list \<Rightarrow> host_call \<Rightarrow> bool" for stream where
  start: "call_run stream [] new_call"
| snoc: "call_run stream as s \<Longrightarrow> bridge_step stream x s s' \<Longrightarrow> call_run stream (as @ [x]) s'"

section \<open>Where the result is\<close>

definition results :: "call_action list \<Rightarrow> string list" where
  "results as = concat (map (\<lambda>x. case x of HostReturns r \<Rightarrow> [hr_raw r] | _ \<Rightarrow> []) as)"

fun held_by_caller :: "caller \<Rightarrow> string list" where
  "held_by_caller (Observed r _) = [hr_raw r]"
| "held_by_caller (Settled r _) = [hr_raw r]"
| "held_by_caller (CallerDone (Some r)) = [hr_raw r]"
| "held_by_caller _ = []"

fun held_by_orphan :: "orphan \<Rightarrow> string list" where
  "held_by_orphan (OrphanCloses b) = [b]"
| "held_by_orphan _ = []"

definition held_by_chan :: "host_result option \<Rightarrow> string list" where
  "held_by_chan c = (case c of None \<Rightarrow> [] | Some r \<Rightarrow> [hr_raw r])"

definition whereabouts :: "host_call \<Rightarrow> string list" where
  "whereabouts s = held_by_chan (hc_chan s) @ held_by_caller (hc_caller s) @ held_by_orphan (hc_orphan s) @ hc_closed s"

text \<open>Which states the goroutines are in together: what settled, and whose turn it is.\<close>

definition together :: "bool \<Rightarrow> host_call \<Rightarrow> bool" where
  "together stream s =
     (case hc_caller s of
        Waiting \<Rightarrow> hc_orphan s = NoOrphan \<and> \<not> hc_drained s \<and> hc_closed s = [] \<and> (hc_running s \<or> hc_chan s \<noteq> None)
      | InGrace \<Rightarrow> stream \<and> hc_orphan s = NoOrphan \<and> \<not> hc_drained s \<and> hc_closed s = [] \<and> (hc_running s \<or> hc_chan s \<noteq> None)
      | Observed r late \<Rightarrow> hc_orphan s = NoOrphan \<and> \<not> hc_drained s \<and> hc_closed s = [] \<and> (late \<longrightarrow> stream)
      | TimingOut \<Rightarrow> \<not> stream \<and> hc_orphan s = NoOrphan \<and> \<not> hc_drained s \<and> hc_closed s = []
      | Settled r late \<Rightarrow> hc_orphan s = NoOrphan \<and> hc_drained s \<and> hc_closed s = [] \<and> (late \<longrightarrow> stream)
      | CallerDone (Some r) \<Rightarrow> hc_orphan s = NoOrphan \<and> hc_drained s \<and> hc_closed s = []
      | CallerDone None \<Rightarrow>
          (case hc_orphan s of
             NoOrphan \<Rightarrow> hc_drained s \<and> (if stream then hc_closed s \<noteq> [] else hc_closed s = [])
           | OrphanWaits \<Rightarrow> stream \<and> \<not> hc_drained s \<and> hc_closed s = [] \<and> (hc_running s \<or> hc_chan s \<noteq> None)
           | OrphanCloses b \<Rightarrow> stream \<and> \<not> hc_drained s \<and> hc_closed s = []
           | OrphanSettles \<Rightarrow> stream \<and> \<not> hc_drained s \<and> hc_closed s \<noteq> []
           | OrphanDone \<Rightarrow> stream \<and> hc_drained s \<and> hc_closed s \<noteq> []))"

definition counted :: "host_call \<Rightarrow> bool" where
  "counted s =
     ((hc_exited s \<longrightarrow> \<not> hc_running s) \<and> hc_let_go s = (hc_exited s \<and> hc_drained s)
      \<and> hc_dones s = (if hc_let_go s then 1 else 0))"

lemma settle_fields [simp]:
  "hc_running (settle s) = hc_running s" "hc_chan (settle s) = hc_chan s" "hc_exited (settle s) = hc_exited s"
  "hc_drained (settle s)" "hc_caller (settle s) = hc_caller s" "hc_orphan (settle s) = hc_orphan s" "hc_closed (settle s) = hc_closed s"
  by (simp_all add: settle_def maybe_release_def)

lemma release_fields [simp]:
  "hc_running (maybe_release s) = hc_running s" "hc_chan (maybe_release s) = hc_chan s" "hc_exited (maybe_release s) = hc_exited s"
  "hc_drained (maybe_release s) = hc_drained s" "hc_caller (maybe_release s) = hc_caller s"
  "hc_orphan (maybe_release s) = hc_orphan s" "hc_closed (maybe_release s) = hc_closed s"
  by (simp_all add: maybe_release_def)

lemma counted_step:
  assumes "bridge_step stream x s s'" "counted s"
  shows "counted s'"
  using assms by cases (auto simp: counted_def settle_def maybe_release_def lapse_def)

lemma together_step:
  assumes "bridge_step stream x s s'" "together stream s"
  shows "together stream s'"
  using assms by cases (auto simp: together_def lapse_def split: caller.splits option.splits orphan.splits)

text \<open>A step moves the result or leaves it; only the return of the host brings one.\<close>

lemma whereabouts_step:
  assumes "bridge_step stream x s s'" "together stream s" "hc_running s \<longrightarrow> whereabouts s = []" "length (whereabouts s) \<le> 1"
  shows "whereabouts s' = whereabouts s @ results [x] \<and> (hc_running s' \<longrightarrow> whereabouts s' = []) \<and> length (whereabouts s') \<le> 1"
  using assms
  by cases (auto simp: whereabouts_def held_by_chan_def results_def lapse_def together_def
      split: option.splits orphan.splits if_splits)

lemma run_ok:
  assumes "call_run stream as s"
  shows "counted s \<and> together stream s \<and> whereabouts s = results as \<and> (hc_running s \<longrightarrow> whereabouts s = [])
    \<and> length (whereabouts s) \<le> 1"
  using assms
proof induction
  case start
  then show ?case
    by (simp add: new_call_def counted_def together_def whereabouts_def held_by_chan_def results_def)
next
  case (snoc as s x s')
  have "results (as @ [x]) = results as @ results [x]" by (simp add: results_def)
  then show ?case using snoc counted_step [OF snoc.hyps(2)] together_step [OF snoc.hyps(2)] whereabouts_step [OF snoc.hyps(2)]
    by auto
qed

section \<open>How much is left to do\<close>

definition caller_work :: "caller \<Rightarrow> nat" where
  "caller_work c = (case c of Waiting \<Rightarrow> 6 | InGrace \<Rightarrow> 5 | Observed _ _ \<Rightarrow> 3 | TimingOut \<Rightarrow> 2 | Settled _ _ \<Rightarrow> 1 | CallerDone _ \<Rightarrow> 0)"

definition orphan_work :: "orphan \<Rightarrow> nat" where
  "orphan_work w = (case w of OrphanWaits \<Rightarrow> 3 | OrphanCloses _ \<Rightarrow> 2 | OrphanSettles \<Rightarrow> 1 | _ \<Rightarrow> 0)"

definition call_work :: "host_call \<Rightarrow> nat" where
  "call_work s = (if hc_running s then 2 else 0) + (if hc_chan s = None then 0 else 1) + (if hc_exited s then 0 else 1)
     + caller_work (hc_caller s) + orphan_work (hc_orphan s)"

lemma work_step:
  assumes "bridge_step stream x s s'" "together stream s"
  shows "call_work s' < call_work s"
  using assms
  by cases (auto simp: call_work_def caller_work_def orphan_work_def lapse_def together_def split: orphan.splits)

lemma work_run: "call_run stream as s \<Longrightarrow> length as + call_work s \<le> 9"
proof (induction rule: call_run.induct)
  case start
  then show ?case by (simp add: new_call_def call_work_def caller_work_def orphan_work_def)
next
  case (snoc as s x s')
  then show ?case using work_step [OF snoc.hyps(2)] run_ok [OF snoc.hyps(1)] by fastforce
qed

lemma stuck_call:
  assumes "together stream s" "\<nexists>x s'. bridge_step stream x s s'"
  shows "\<not> hc_running s \<and> hc_exited s \<and> hc_drained s \<and> hc_orphan s \<in> {NoOrphan, OrphanDone}
    \<and> (\<exists>c. hc_caller s = CallerDone c \<and> (stream \<longrightarrow> (c = None) = (hc_closed s \<noteq> [])))"
proof -
  have n: "\<not> bridge_step stream x s s'" for x s' using assms(2) by blast
  have e: "\<not> hc_running s" "hc_exited s"
    using n bridge_step.returns [of s stream] bridge_step.exits [of s stream] by blast+
  have w: "hc_caller s \<noteq> Waiting" "hc_caller s \<noteq> InGrace" "hc_caller s \<noteq> TimingOut"
    using n bridge_step.deadline [of s stream] bridge_step.grace [of s stream] bridge_step.times_out [of s stream] by blast+
  have o: "hc_caller s \<noteq> Observed r l" for r l
    using n bridge_step.settles [of s r l stream] by blast
  have o': "hc_caller s \<noteq> Settled r l" for r l
    using n bridge_step.in_time [of s r stream] bridge_step.too_late [of s r stream] by (cases l) auto
  have h: "hc_orphan s \<noteq> OrphanCloses b" "hc_orphan s \<noteq> OrphanSettles" for b
    using n bridge_step.orphan_abandons [of s b stream] bridge_step.orphan_drains [of s stream] by blast+
  have p: "hc_chan s = None" if "hc_orphan s = OrphanWaits"
    using n bridge_step.orphan_receives [of s _ stream] that by (cases "hc_chan s") blast+
  obtain c where c: "hc_caller s = CallerDone c" using w o o' by (cases "hc_caller s") blast+
  show ?thesis
  proof (cases c)
    case None
    then show ?thesis using assms(1) e h p c by (cases "hc_orphan s") (auto simp: together_def)
  next
    case (Some r)
    then show ?thesis using assms(1) e c by (simp add: together_def)
  qed
qed

section \<open>What the methods make of a result\<close>

record host_envelope =
  he_ok :: bool
  he_result :: raw
  he_message :: string

type_synonym envelopes = "string \<Rightarrow> host_envelope option"

definition timed_out :: "string \<Rightarrow> string" where
  "timed_out meth = ''host call '' @ meth @ '' timed out''"

text \<open>How a call ended: with what the caller returns, an error text being \<open>Inl\<close>.\<close>

definition call_outcome :: "string \<Rightarrow> host_result option \<Rightarrow> string + string" where
  "call_outcome meth c =
     (case c of
        None \<Rightarrow> Inl (timed_out meth)
      | Some r \<Rightarrow> (case hr_err r of Some e \<Rightarrow> Inl e | None \<Rightarrow> Inr (hr_raw r)))"

definition envelope_of :: "envelopes \<Rightarrow> string \<Rightarrow> string + string \<Rightarrow> string + host_envelope" where
  "envelope_of env_of what c =
     (case c of
        Inl e \<Rightarrow> Inl (what @ '' failed: '' @ e)
      | Inr body \<Rightarrow>
          (case env_of body of
             None \<Rightarrow> Inl (what @ '' failed: undecodable host response'')
           | Some env \<Rightarrow> (if he_ok env then Inr env else Inl (what @ '' failed: '' @ he_message env))))"

definition invoke :: "envelopes \<Rightarrow> string \<Rightarrow> string \<Rightarrow> host_result option \<Rightarrow> string + host_envelope" where
  "invoke env_of meth what c = envelope_of env_of what (call_outcome meth c)"

text \<open>The methods that decode a result: no result is the zero value.\<close>

definition host_method :: "envelopes \<Rightarrow> string \<Rightarrow> string \<Rightarrow> 'a \<Rightarrow> (json \<Rightarrow> 'a option) \<Rightarrow> host_result option \<Rightarrow> string + 'a" where
  "host_method env_of meth what zero dec c =
     (case invoke env_of meth what c of
        Inl e \<Rightarrow> Inl e
      | Inr env \<Rightarrow>
          (case he_result env of
             None \<Rightarrow> Inr zero
           | Some j \<Rightarrow> (case dec j of Some r \<Rightarrow> Inr r | None \<Rightarrow> Inl (what @ '' failed: undecodable response body''))))"

definition http_do :: "envelopes \<Rightarrow> string \<Rightarrow> 'a \<Rightarrow> (json \<Rightarrow> 'a option) \<Rightarrow> host_result option \<Rightarrow> string + 'a" where
  "http_do env_of meth = host_method env_of meth ''host http do''"

definition auth_list :: "envelopes \<Rightarrow> string \<Rightarrow> (json \<Rightarrow> 'a list option) \<Rightarrow> host_result option \<Rightarrow> string + 'a list" where
  "auth_list env_of meth = host_method env_of meth ''host auth list'' []"

record stream_reading =
  sr_payload :: string
  sr_error :: string
  sr_done :: bool

text \<open>The payload is base64 on the wire, so that the decoder of a reading is a parameter too.\<close>

definition stream_read :: "envelopes \<Rightarrow> string \<Rightarrow> (json \<Rightarrow> stream_reading option) \<Rightarrow> host_result option \<Rightarrow> string + stream_reading" where
  "stream_read env_of meth = host_method env_of meth ''host http stream_read'' \<lparr>sr_payload = [], sr_error = [], sr_done = False\<rparr>"

record stream_start =
  ss_status :: int
  ss_id :: string

text \<open>The headers of the response, which the executor drops, are left out.\<close>

definition dec_stream_start :: "json \<Rightarrow> stream_start option" where
  "dec_stream_start j =
     raw_as (dec_struct
       [(''status_code'', field ss_status ss_status_update dec_int64), (''stream_id'', field ss_id ss_id_update dec_string)])
       \<lparr>ss_status = 0, ss_id = []\<rparr> (Some j)"

definition do_stream :: "envelopes \<Rightarrow> string \<Rightarrow> host_result option \<Rightarrow> string + (int \<times> string)" where
  "do_stream env_of meth c =
     map_sum id (\<lambda>st. (ss_status st, ss_id st))
       (host_method env_of meth ''host http do_stream'' \<lparr>ss_status = 0, ss_id = []\<rparr> dec_stream_start c)"

text \<open>\<open>closeLateStream\<close>: the stream it closes, if the late result names one.\<close>

definition late_stream :: "envelopes \<Rightarrow> string \<Rightarrow> string option" where
  "late_stream env_of body =
     (case env_of body of
        None \<Rightarrow> None
      | Some env \<Rightarrow>
          (if \<not> he_ok env \<or> he_result env = None then None
           else (case Option.bind (he_result env) dec_stream_start of
                   None \<Rightarrow> None
                 | Some st \<Rightarrow> (if ss_id st = [] then None else Some (ss_id st)))))"

text \<open>It is the stream the caller would have been given in time.\<close>

lemma late_stream_named:
  "late_stream env_of body =
     (case do_stream env_of meth (Some \<lparr>hr_raw = body, hr_err = None\<rparr>) of
        Inr (_, i) \<Rightarrow> (if i = [] then None else Some i)
      | Inl _ \<Rightarrow> None)"
  by (simp add: late_stream_def do_stream_def host_method_def invoke_def call_outcome_def envelope_of_def split: option.split)

text \<open>\<open>AuthGet\<close> and \<open>AuthSave\<close>: of a failure to save nothing the host says is passed on.\<close>

definition auth_get :: "envelopes \<Rightarrow> string \<Rightarrow> (json \<Rightarrow> string option) \<Rightarrow> host_result option \<Rightarrow> string + string" where
  "auth_get env_of meth dec c =
     (case invoke env_of meth ''host auth get'' c of
        Inl e \<Rightarrow> Inl e
      | Inr env \<Rightarrow>
          (case Option.bind (he_result env) dec of
             Some (b # bs) \<Rightarrow> Inr (b # bs)
           | _ \<Rightarrow> Inl ''host auth get failed: credential storage unavailable''))"

definition auth_save :: "envelopes \<Rightarrow> string \<Rightarrow> host_result option \<Rightarrow> string option" where
  "auth_save env_of meth c =
     (case call_outcome meth c of
        Inl e \<Rightarrow> Some (if contains e ''timed out'' then ''host auth save failed: timed out'' else ''host auth save failed'')
      | Inr body \<Rightarrow>
          (case env_of body of
             None \<Rightarrow> Some ''host auth save failed: undecodable host response''
           | Some env \<Rightarrow> (if he_ok env then None else Some ''host auth save failed'')))"

section \<open>Properties\<close>

text \<open>
  C21. No upstream stream is lost or closed under its reader: in every interleaving of caller, callback
  and orphan, deadline and grace window included, every run of a stream start is finite, and when
  nothing is left to do the host has returned, its result was either returned to the caller in time
  or handed once to the closing of late streams, and the count of calls in flight was released once.
\<close>

theorem stream_start_settles:
  assumes "call_run True as s"
  shows "length as \<le> 9 \<and> hc_dones s \<le> 1 \<and> (hc_dones s = 1 \<longrightarrow> \<not> hc_running s)
    \<and> ((\<nexists>x s'. bridge_step True x s s') \<longrightarrow>
         hc_dones s = 1
         \<and> (\<exists>r. results as = [hr_raw r]
              \<and> (hc_caller s = CallerDone (Some r) \<and> hc_closed s = [] \<or> hc_caller s = CallerDone None \<and> hc_closed s = [hr_raw r])))"
proof -
  have ok: "counted s" "together True s" "whereabouts s = results as" "length (whereabouts s) \<le> 1"
    using run_ok [OF assms] by blast+
  have "hc_dones s = 1 \<and> (\<exists>r. results as = [hr_raw r]
      \<and> (hc_caller s = CallerDone (Some r) \<and> hc_closed s = [] \<or> hc_caller s = CallerDone None \<and> hc_closed s = [hr_raw r]))"
    if stuck: "\<nexists>x s'. bridge_step True x s s'"
  proof -
    obtain c where c: "hc_exited s" "hc_drained s" "hc_orphan s \<in> {NoOrphan, OrphanDone}" "hc_caller s = CallerDone c"
      "(c = None) = (hc_closed s \<noteq> [])"
      using stuck_call [OF ok(2) stuck] by auto
    have "hc_dones s = 1" using ok(1) c by (simp add: counted_def)
    moreover have "\<exists>b. results as = [b] \<and> hc_closed s = [b]" if "c = None"
      using ok(4) c that unfolding ok(3) [symmetric]
      by (cases "hc_closed s"; cases "held_by_chan (hc_chan s)") (auto simp: whereabouts_def)
    moreover have "results as = [hr_raw r]" if "c = Some r" for r
      using ok(4) c that unfolding ok(3) [symmetric]
      by (cases "held_by_chan (hc_chan s)") (auto simp: whereabouts_def)
    moreover have "\<exists>r :: host_result. b = hr_raw r" for b :: string by (rule exI [of _ "\<lparr>hr_raw = b, hr_err = None\<rparr>"]) simp
    ultimately show ?thesis using c by (cases c) auto
  qed
  then show ?thesis using work_run [OF assms] ok(1) by (auto simp: counted_def)
qed

definition late_result :: host_result where
  "late_result = \<lparr>hr_raw = ''late'', hr_err = None\<rparr>"

text \<open>The host returns in the grace window, and the caller observes it there.\<close>

lemma late_observed:
  "call_run True [DeadlineEnds, HostReturns late_result, CallbackExits, CallerReceives]
     \<lparr>hc_running = False, hc_chan = None, hc_exited = True, hc_drained = False, hc_let_go = False, hc_dones = 0,
      hc_caller = Observed late_result True, hc_orphan = NoOrphan, hc_closed = []\<rparr>"
proof -
  let ?s1 = "new_call\<lparr>hc_caller := InGrace\<rparr>"
  let ?s2 = "?s1\<lparr>hc_running := False, hc_chan := Some late_result\<rparr>"
  let ?s3 = "maybe_release (?s2\<lparr>hc_exited := True\<rparr>)"
  have "bridge_step True DeadlineEnds new_call ?s1" using bridge_step.deadline [of new_call True] by (simp add: new_call_def)
  then have "call_run True [DeadlineEnds] ?s1" using call_run.snoc [OF call_run.start] by fastforce
  moreover have "bridge_step True (HostReturns late_result) ?s1 ?s2" by (rule bridge_step.returns) (simp add: new_call_def)
  ultimately have "call_run True [DeadlineEnds, HostReturns late_result] ?s2" using call_run.snoc by fastforce
  moreover have "bridge_step True CallbackExits ?s2 ?s3" by (rule bridge_step.exits) (simp_all add: new_call_def)
  ultimately have "call_run True [DeadlineEnds, HostReturns late_result, CallbackExits] ?s3" using call_run.snoc by fastforce
  moreover have "bridge_step True CallerReceives ?s3 (?s3\<lparr>hc_chan := None, hc_caller := Observed late_result (hc_caller ?s3 = InGrace)\<rparr>)"
    by (rule bridge_step.receives) simp_all
  ultimately have "call_run True ([DeadlineEnds, HostReturns late_result, CallbackExits] @ [CallerReceives])
      (?s3\<lparr>hc_chan := None, hc_caller := Observed late_result (hc_caller ?s3 = InGrace)\<rparr>)"
    by (rule call_run.snoc)
  then show ?thesis by (simp add: new_call_def maybe_release_def)
qed

lemma late_settled:
  obtains as s where "call_run True as s" "hc_dones s = 1" "hc_closed s = []" "hc_caller s = Settled late_result True"
    "results as = [''late'']"
  using call_run.snoc [OF late_observed bridge_step.settles [of _ late_result True]]
  by (simp add: settle_def maybe_release_def results_def) (simp add: late_result_def)

lemma stream_start_settles_witness:
  "\<exists>as s. call_run True as s \<and> results as = [''late''] \<and> length as \<le> 9 \<and> hc_dones s = 1 \<and> \<not> hc_running s"
proof -
  obtain as s where r: "call_run True as s" "hc_dones s = 1" "results as = [''late'']" by (rule late_settled)
  show ?thesis using stream_start_settles [OF r(1)] r by blast
qed

text \<open>
  The count of calls in flight can be released before a late stream is closed: the caller settles
  when it observes a result in the grace window, and closes the stream it names only afterwards. A
  shutdown that waits for the count does not wait for this close to begin.
\<close>

theorem released_before_late_close:
  "\<exists>as s. call_run True as s \<and> results as = [''late''] \<and> hc_dones s = 1 \<and> hc_closed s = [] \<and> hc_caller s = Settled late_result True"
  using late_settled by metis

end
