(* ===== verification/Spec2Isabelle.thy ===== *)
theory Spec2Isabelle
  imports Thinking Chat_Served Messages_Items Messages_Chat Responses_Served Execution Tool_Choice Host_Bridge
begin

text \<open>
  A verification library of the CommandCode provider plugin for CLIProxyAPI.

  \<^bold>\<open>The program.\<close> The plugin takes a request in one of three client protocols (OpenAI Chat
  Completions, Anthropic Messages, OpenAI Responses), finds the model in a catalog, sends it to one
  of three upstream endpoints that speak the same three protocols, and converts what comes back, as
  a whole body or as a stream of server-sent events. \<open>internal/plugin/executor.go\<close> drives:
  it resolves model and key (\<open>internal/catalog\<close>, \<open>internal/config\<close>), derives the session identity,
  calls \<open>BuildRequest\<close> of the adapter of the route (\<open>internal/adapter/chatcompletions\<close>,
  \<open>messages\<close>, \<open>responses\<close>), and either converts the answer or runs the pump over the
  upstream stream under the timers of \<open>stream_controller.go\<close>. The adapters rest on the kernels of
  \<open>internal/adapter/shared\<close>; every failure is an error of \<open>internal/errclass\<close>.

  \<^bold>\<open>Ground.\<close> Prelude: byte strings, the functions of Go's \<open>strings\<close> in use, wrap-around of 64-bit
  integers, the collections of facts. Json, Codec, Numbers: \<open>encoding/json\<close> as the plugin uses it
  (scanner and parser with the nesting limit, literals and UTF-8, Marshal with HTML escaping and
  sorted keys, Unmarshal into structs), and numbers.

  \<^bold>\<open>Components.\<close>
  \<^item> Errclass is \<open>errclass.go\<close>: the classes, the table of statuses, and \<open>Redact\<close> with its three
    regular expressions as scanners; the locale \<open>scan_pass\<close> states what a pass leaves behind.
  \<^item> Thinking is \<open>thinking.go\<close>: budgets and effort levels, clamping, validation. A \<open>None\<close> outside
    a result is the panic of an index out of range, which every caller passes on.
  \<^item> Kernel, Requests, Tool_Context, Emitters are \<open>shared.go\<close>: tables, usage arithmetic, content
    parts, Claude and Responses requests, the context that renames namespaced tools, the emitters
    and the output assembler. Framer is \<open>SSEFramer\<close> and \<open>stream_state.go\<close>; its locales
    \<open>acceptor\<close> (a monitor of events) and \<open>chunked\<close> (a component fed with chunks) carry the rest.
    Policy is \<open>responses_policy.go\<close>. Tool_Choice is the table of tool choice kinds.
  \<^item> Chat_Common, Chat_Claude, Chat_Responses, Chat_Stream are \<open>chatcompletions/stream.go\<close>: the
    state \<open>cc\<close> is \<open>StreamConverter\<close>, one definition per handler; Responses_Lifecycle and
    Chat_Frame hold what the handlers keep.
  \<^item> Messages_Stream is \<open>messages/stream.go\<close> (state \<open>ms\<close>); Messages_Contract reduces feeding to a run
    over frames, Messages_Items and Messages_Chat prove the two synthesized targets over it.
  \<^item> Responses_Stream is \<open>responses/stream.go\<close> (state \<open>rs\<close>, with the shared call states of the tracker
    in a heap); Responses_Contract and Responses_Served prove its targets.
  \<^item> Bodies is \<open>convert.go\<close> of the three adapters, the conversion of whole answers. Outbound,
    Build_Messages, Build_Responses, Build_Chat are \<open>request.go\<close> of the three adapters: the outbound
    request as a record, one definition per helper and loop body, and its rendering.
  \<^item> Config is \<open>config.go\<close> from the decoded YAML on; Catalog is \<open>catalog.go\<close> (record \<open>snap\<close>).
  \<^item> Controller is \<open>stream_controller.go\<close> as a step relation \<open>ctl_step\<close> over the owner, the expiry of
    timers and their callbacks; Pump is the loop of \<open>pumpStream\<close>, a turn at a time; Streaming puts
    both together (\<open>system\<close>, every interleaving) for any converter, in the locale \<open>pumped\<close>; Chat_End
    and Chat_Served interpret it for the Chat Completions converter, Responses_Contract for the
    Responses converter. Execution is the rest of \<open>executor.go\<close>. Host_Bridge is the callback under a
    deadline of \<open>hostbridge.go\<close>: the steps of caller, callback and orphan (\<open>call_step\<close>) and what
    the methods make of a result.

  \<^bold>\<open>What is shown.\<close>
  \<^item> End to end, in every interleaving of pump, timers, callbacks, host and upstream: what a client
    received is accepted by the monitor of its protocol, and a stream closed without an error
    delivered its terminal event (Chat_Served, Responses_Served). The monitors ask for what the code
    keeps. For Anthropic clients of a Chat Completions upstream the monitor \<open>watch\<close> accepts, and
    marks, two things the protocol forbids: arguments for a tool block already stopped, and blocks
    after message_delta (the only case in which a block may be left open); for those of a Responses
    upstream \<open>block_watch\<close> accepts the former too and looks no further than message_stop. The pump
    returns, closes each stream once, calls \<open>Feed\<close> within the byte limit (read off a recording
    converter), and delivers exactly what the converter gave (Pump).
  \<^item> Converters: invariants of the emitted events for any bytes cut anywhere (Chat_Stream,
    Messages_Items, Messages_Chat), feeding refines the run over frames (Messages_Contract), every
    call delivered once and native streams verbatim (Responses_Served), framing is independent of the
    chunks and inverse to rendering (Framer).
  \<^item> Requests: the Messages contract of alternating roles and thinking budgets, conversations and
    tool calls kept whole and in order across the protocols (Build_Messages, Build_Responses,
    Build_Chat), the stateless policy (Policy), tool choices and tool names read back (Tool_Choice,
    Tool_Context).
  \<^item> Executions: one call at most, to the endpoint of a routed model; nothing left open after a
    refusal; a session identity that does not change as the conversation grows, once its opening run
    of user turns is over (Execution).
  \<^item> Host calls: every start of an upstream stream settles, and its result is returned in time or handed
    once to the closing of late streams (Host_Bridge).
  \<^item> Timers: a claimed cause is current, callbacks close once, stopping ends (Controller). Catalog and
    configuration: unambiguous lookup, safe routes, failure policy, well-formed configurations.
    Errors: redaction of secrets. Thinking: clamping and bounds.
  \<^item> Where code and documentation part. In general: arguments for a stopped block when parallel calls
    interleave (Chat_Stream), the usage chunk that disarms the finish grace, blocks after message_delta
    that are never stopped (Chat_Served), tool calls without arguments lost, streams without event
    lines that are translated but never progress (Messages_Chat), text sent to the position of a call
    (Messages_Items). By a run: text after message_stop (Responses_Served), truncated streams completed
    (Chat_Served), items moved when blocks start out of order (Messages_Items).

  \<^bold>\<open>Parameters and bounds.\<close> What the standard library or a third party decides is an argument of
  which nothing is assumed: the text of decoding errors (\<open>diag\<close>), \<open>net/url.Parse\<close>,
  \<open>time.ParseDuration\<close>, \<open>os.ExpandEnv\<close>, SHA-256, the clock, the text a \<open>float64\<close> is rendered with
  (\<open>fl\<close>), the white space inside a raw tool input (\<open>txt\<close>), the order of the one Go map that is
  ranged over with effect (\<open>swapped\<close>), the backfill of \<open>reasoning_content\<close> (gjson and sjson), the
  host's answers and whether it takes an event (\<open>px_sink\<close>). No definition runs on fuel: loops are
  structural or have a measure, and an endless upstream is a pump that has not returned, of which
  the theorems about prefixes still speak. Token counts wrap at 2^63 where the code computes with
  them (so a thinking budget is below the token limit only for budgets below 2^62); sequence numbers, output indices and the timer generation are unbounded, since they count
  events of one stream. A \<open>float64\<close> count in a stream is its exact rational value. Maps are
  association lists with one entry per key, in insertion order.

  \<^bold>\<open>Not modelled.\<close> \<open>plugin.go\<close>, \<open>auth.go\<close>, \<open>account_email.go\<close>, \<open>main.go\<close>, the
  debug files: the RPC glue to the host process, its JSON envelopes and file reads; of \<open>hostbridge.go\<close>
  the requests it marshals, the log, the emit and the timed wait for the calls in flight. \<open>quota.go\<close> and
  \<open>quota_provider.go\<close>: HTTP calls and display. The predictor: statistics in \<open>float64\<close>, whose
  rounding decides its results, and its files. Build metadata and release scripts. Of the executor:
  decoding of the RPC request, the flag that sends a stream request from one entry to the other,
  traces, logs, diagnostic times, and response headers, which are passed through unchanged.
\<close>

end
